(* ===== verification/Prelude.thy ===== *)
theory Prelude
  imports Main "HOL-Library.Word"
begin

text \<open>
  Shared vocabulary of the development: the machine types of the Go sources, instants and
  durations, the conversions between strings and bytes, the paths of \<^verbatim>\<open>path/filepath\<close>, and the generic facts on lists, bits and
  bounded windows that the component theories use.

  Conventions. A Go \<^verbatim>\<open>int64\<close> or \<^verbatim>\<open>uint64\<close> whose wrap-around matters is a
  \<open>64 word\<close>; counters and identifiers of database rows, which the code never lets near the
  limits, are \<open>int\<close>. A \<^verbatim>\<open>time.Time\<close> is the number of nanoseconds since the Unix
  epoch and a \<^verbatim>\<open>time.Duration\<close> a number of nanoseconds, both \<open>int\<close>. A Go string
  is a \<open>string\<close> (its bytes). A Go \<^verbatim>\<open>error\<close> result is the left side of a sum.
\<close>

unbundle bit_operations_syntax

type_synonym byte = "8 word"
type_synonym uint16 = "16 word"
type_synonym int64 = "64 word"
type_synonym uint64 = "64 word"
type_synonym gotime = int
type_synonym duration = int

named_theorems codec_simps
named_theorems store_simps
named_theorems plan_simps

section \<open>Instants\<close>

definition nanosPerMilli :: int where
  "nanosPerMilli = 1000000"

definition nanosPerSecond :: int where
  "nanosPerSecond = 1000000000"

text \<open>A product of a count and a unit in a 64-bit \<^verbatim>\<open>time.Duration\<close>.\<close>

definition durationOf :: "int \<Rightarrow> int \<Rightarrow> duration" where
  "durationOf n unit = sint (word_of_int (n * unit) :: 64 word)"

text \<open>The zero value of \<^verbatim>\<open>time.Time\<close>: the first instant of year 1.\<close>

definition zeroTime :: gotime where
  "zeroTime = - 62135596800 * nanosPerSecond"

text \<open>\<^verbatim>\<open>Time.UnixMilli\<close> and \<^verbatim>\<open>time.UnixMilli\<close> of the Go library.\<close>

definition toUnixMilli :: "gotime \<Rightarrow> int64" where
  "toUnixMilli t = word_of_int (t div nanosPerMilli)"

definition fromUnixMilli :: "int64 \<Rightarrow> gotime" where
  "fromUnixMilli ms = sint ms * nanosPerMilli"

definition truncMilli :: "gotime \<Rightarrow> gotime" where
  "truncMilli t = (t div nanosPerMilli) * nanosPerMilli"

definition milliInRange :: "gotime \<Rightarrow> bool" where
  "milliInRange t \<longleftrightarrow> - (2 ^ 63) \<le> t div nanosPerMilli \<and> t div nanosPerMilli < 2 ^ 63"

section \<open>Strings and bytes\<close>

definition byteOfChar :: "char \<Rightarrow> byte" where
  "byteOfChar c = word_of_nat (of_char c)"

definition charOfByte :: "byte \<Rightarrow> char" where
  "charOfByte b = char_of (unat b)"

definition stringBytes :: "string \<Rightarrow> byte list" where
  "stringBytes = map byteOfChar"

definition bytesString :: "byte list \<Rightarrow> string" where
  "bytesString = map charOfByte"

section \<open>Splitting strings, paths\<close>

fun splitOn :: "char \<Rightarrow> string \<Rightarrow> string list" where
  "splitOn c [] = [[]]"
| "splitOn c (x # xs) =
     (if x = c then [] # splitOn c xs
      else case splitOn c xs of [] \<Rightarrow> [[x]] | y # ys \<Rightarrow> (x # y) # ys)"

fun joinWith :: "string \<Rightarrow> string list \<Rightarrow> string" where
  "joinWith sep [] = []"
| "joinWith sep [x] = x"
| "joinWith sep (x # y # xs) = x @ sep @ joinWith sep (y # xs)"

definition cleanStep :: "bool \<Rightarrow> string \<Rightarrow> string list \<Rightarrow> string list" where
  "cleanStep rooted x out =
     (if x = [] \<or> x = ''.'' then out
      else if x = ''..''
      then (if out \<noteq> [] \<and> last out \<noteq> ''..'' then butlast out else if rooted then out else out @ [x])
      else out @ [x])"

text \<open>\<^verbatim>\<open>filepath.Clean\<close>, \<^verbatim>\<open>filepath.Dir\<close> and \<^verbatim>\<open>filepath.Join\<close> of two elements, on Unix.\<close>

definition cleanPath :: "string \<Rightarrow> string" where
  "cleanPath p =
     (let rooted = (p \<noteq> [] \<and> hd p = CHR ''/'');
          body = joinWith ''/'' (fold (cleanStep rooted) (splitOn (CHR ''/'') p) [])
      in if rooted then CHR ''/'' # body else if body = [] then ''.'' else body)"

definition dirPath :: "string \<Rightarrow> string" where
  "dirPath p = cleanPath (rev (dropWhile (\<lambda>c. c \<noteq> CHR ''/'') (rev p)))"

definition joinPath :: "string \<Rightarrow> string \<Rightarrow> string" where
  "joinPath a b = (if a = [] then (if b = [] then [] else cleanPath b) else cleanPath (a @ ''/'' @ b))"

section \<open>Bounded windows\<close>

text \<open>
  \<open>keepLast n xs\<close> is the Go idiom \<^verbatim>\<open>if len(xs) > n { xs = xs[len(xs)-n:] }\<close>.
\<close>

definition keepLast :: "nat \<Rightarrow> 'a list \<Rightarrow> 'a list" where
  "keepLast n xs = (if length xs > n then drop (length xs - n) xs else xs)"

section \<open>Lemmas\<close>

lemma fromUnixMilli_toUnixMilli:
  "milliInRange t \<Longrightarrow> fromUnixMilli (toUnixMilli t) = truncMilli t"
  by (simp add: fromUnixMilli_def toUnixMilli_def truncMilli_def milliInRange_def
      sint_sbintrunc' signed_take_bit_int_eq_self)

lemma truncMilli_idem [simp]: "truncMilli (truncMilli t) = truncMilli t"
  by (simp add: truncMilli_def nanosPerMilli_def)

lemma charOfByte_byteOfChar [simp]: "charOfByte (byteOfChar c) = c"
proof -
  have "(of_char c :: nat) < 256" by simp
  then have "unat (word_of_nat (of_char c) :: byte) = of_char c"
    by (simp add: unat_of_nat)
  then show ?thesis by (simp add: charOfByte_def byteOfChar_def)
qed

lemma bytesString_stringBytes [simp]: "bytesString (stringBytes s) = s"
  by (simp add: bytesString_def stringBytes_def comp_def)

lemma length_stringBytes [simp]: "length (stringBytes s) = length s"
  by (simp add: stringBytes_def)

lemma length_keepLast: "length (keepLast n xs) = min n (length xs)"
  by (simp add: keepLast_def)

lemma length_keepLast_le: "length (keepLast n xs) \<le> n"
  by (simp add: length_keepLast)

lemma keepLast_drop: "keepLast n xs = drop (length xs - n) xs"
  by (simp add: keepLast_def)

lemma keepLast_keepLast_append: "keepLast n (keepLast n xs @ ys) = keepLast n (xs @ ys)"
proof (cases "length xs \<le> n")
  case False
  then have "length xs - n + (length xs + length ys - length xs) = length xs + length ys - n"
    by simp
  with False show ?thesis by (simp add: keepLast_drop add.commute)
qed (simp add: keepLast_drop)

lemma keepLast_keepLast: "keepLast m (keepLast n xs) = keepLast (min m n) xs"
  by (auto simp: keepLast_def min_def)

lemma keepLast_suffix: "\<exists>ys. xs = ys @ keepLast n xs"
  by (metis keepLast_drop append_take_drop_id)

lemma set_keepLast_subset: "set (keepLast n xs) \<subseteq> set xs"
  by (simp add: keepLast_drop set_drop_subset)

lemma sum_list_keepLast_le:
  fixes f :: "'a \<Rightarrow> int"
  assumes "\<And>x. x \<in> set xs \<Longrightarrow> 0 \<le> f x"
  shows "sum_list (map f (keepLast n xs)) \<le> sum_list (map f xs)"
proof -
  let ?k = "length xs - n"
  have "sum_list (map f xs) = sum_list (map f (take ?k xs)) + sum_list (map f (drop ?k xs))"
    by (metis append_take_drop_id map_append sum_list_append)
  moreover have "0 \<le> sum_list (map f (take ?k xs))"
    by (rule sum_list_nonneg) (use assms in_set_takeD in fastforce)
  ultimately show ?thesis by (simp add: keepLast_drop)
qed

lemma push_take_or_drop:
  fixes v :: "64 word"
  shows "push_bit s (take_bit k v) OR push_bit (s + k) (drop_bit k v) = push_bit s v"
proof (rule bit_word_eqI)
  fix n assume "n < LENGTH(64)"
  show "bit (push_bit s (take_bit k v) OR push_bit (s + k) (drop_bit k v)) n = bit (push_bit s v) n"
  proof (cases "s + k \<le> n")
    case True
    then have "k + (n - (s + k)) = n - s" by simp
    with True show ?thesis
      by (auto simp: bit_or_iff bit_push_bit_iff bit_take_bit_iff bit_drop_bit_eq)
  next
    case False
    then show ?thesis
      by (auto simp: bit_or_iff bit_push_bit_iff bit_take_bit_iff bit_drop_bit_eq)
  qed
qed

lemma unat_of_nat_small:
  "n < 2 ^ LENGTH('a) \<Longrightarrow> unat (word_of_nat n :: 'a::len word) = n"
  by (simp add: unat_of_nat)

lemma sum_list_ge_length: "(\<And>x. x \<in> set xs \<Longrightarrow> 1 \<le> f x) \<Longrightarrow> length xs \<le> sum_list (map f xs)"
  for f :: "'a \<Rightarrow> nat"
  by (induction xs) fastforce+

lemma filter_key_unique:
  "distinct (map f xs) \<Longrightarrow> r \<in> set xs \<Longrightarrow> filter (\<lambda>x. f x = f r) xs = [r]"
proof (induction xs)
  case (Cons x xs)
  show ?case
  proof (cases "x = r")
    case True
    then have "f y \<noteq> f r" if "y \<in> set xs" for y
      using Cons.prems(1) that by (metis distinct.simps(2) image_eqI list.set_map list.simps(9))
    then show ?thesis using True by (simp add: filter_empty_conv)
  next
    case False
    then have "r \<in> set xs" using Cons.prems by simp
    moreover from this have "f x \<noteq> f r" using Cons.prems(1) by auto
    ultimately show ?thesis using Cons by simp
  qed
qed simp

lemma filter_map_idem:
  "(\<And>x. g (g x) = g x) \<Longrightarrow> filter P (map g (filter P (map g xs))) = filter P (map g xs)"
  by (induction xs) simp_all

end
