(* ===== verification/ChunkCodec.thy ===== *)
theory ChunkCodec
  imports Prelude
begin

text \<open>
  The chunk blob format of \<^verbatim>\<open>src/internal/queue/codec.go\<close>: the variable-length
  integers of Go's \<^verbatim>\<open>encoding/binary\<close>, the record list that \<^verbatim>\<open>encodeChunk\<close>
  writes and \<^verbatim>\<open>decodeChunk\<close> reads, and the format byte in front of the compressed
  stream. The DEFLATE codec of the Go library is an argument (\<open>deflate\<close>, \<open>inflate\<close>) of the two
  operations, used only through the fact that inflating what was deflated gives it back.

  The results: what is encoded decodes to the same readings with their instants truncated to
  milliseconds; a negative identifier is refused; a blob of another format is refused.
\<close>

section \<open>Variable-length integers\<close>

text \<open>
  \<^verbatim>\<open>binary.PutUvarint\<close>, \<^verbatim>\<open>binary.PutVarint\<close>, \<^verbatim>\<open>binary.ReadUvarint\<close> and
  \<^verbatim>\<open>binary.ReadVarint\<close>. A reader returns the value and the bytes it has not consumed.
\<close>

datatype read_err = EOF | UnexpectedEOF | VarintOverflow

function putUvarint :: "uint64 \<Rightarrow> byte list" where
  "putUvarint x =
     (if 0x80 \<le> x then (ucast x OR 0x80) # putUvarint (drop_bit 7 x) else [ucast x])"
  by pat_completeness auto
termination
proof (relation "measure unat")
  fix x :: uint64
  assume "0x80 \<le> x"
  then have "128 \<le> unat x" by (simp add: word_le_nat_alt)
  then have "drop_bit 7 (unat x) < unat x" by (simp add: drop_bit_eq_div)
  then show "(drop_bit 7 x, x) \<in> measure unat"
    by (simp only: in_measure unat_drop_bit_eq)
qed simp

declare putUvarint.simps [simp del]

definition putVarint :: "int64 \<Rightarrow> byte list" where
  "putVarint x =
     (let ux = push_bit 1 x in putUvarint (if sint x < 0 then NOT ux else ux))"

fun readUvarintLoop :: "nat \<Rightarrow> nat \<Rightarrow> uint64 \<Rightarrow> byte list \<Rightarrow> read_err + (uint64 \<times> byte list)" where
  "readUvarintLoop 0 i x bs = Inl VarintOverflow"
| "readUvarintLoop (Suc k) i x [] = Inl (if i > 0 then UnexpectedEOF else EOF)"
| "readUvarintLoop (Suc k) i x (b # bs) =
     (if b < 0x80
      then (if i = 9 \<and> b > 1 then Inl VarintOverflow
            else Inr (x OR push_bit (7 * i) (ucast b), bs))
      else readUvarintLoop k (Suc i) (x OR push_bit (7 * i) (ucast (b AND 0x7f))) bs)"

definition readUvarint :: "byte list \<Rightarrow> read_err + (uint64 \<times> byte list)" where
  "readUvarint bs = readUvarintLoop 10 0 0 bs"

definition readVarint :: "byte list \<Rightarrow> read_err + (int64 \<times> byte list)" where
  "readVarint bs =
     (case readUvarint bs of
        Inl e \<Rightarrow> Inl e
      | Inr (ux, rest) \<Rightarrow>
          (let x = drop_bit 1 ux in Inr (if ux AND 1 \<noteq> 0 then NOT x else x, rest)))"

section \<open>Readings and quality codes\<close>

record reading =
  rd_DeviceID :: int64
  rd_DatapointID :: int64
  rd_Value :: "uint64 option"
  rd_Quality :: string
  rd_At :: gotime

definition chunkFormatV1 :: byte where "chunkFormatV1 = 1"

definition qualityGood :: byte where "qualityGood = 0"
definition qualityTimeout :: byte where "qualityTimeout = 1"
definition qualityCRCError :: byte where "qualityCRCError = 2"
definition qualityDeviceOffline :: byte where "qualityDeviceOffline = 3"
definition qualityInvalid :: byte where "qualityInvalid = 4"
definition qualityOther :: byte where "qualityOther = 0x7f"
definition hasValueBit :: byte where "hasValueBit = 0x80"

definition qualityCodes :: "string \<Rightarrow> byte option" where
  "qualityCodes = map_of
     [(''GOOD'', qualityGood), (''TIMEOUT'', qualityTimeout), (''CRC_ERROR'', qualityCRCError),
      (''DEVICE_OFFLINE'', qualityDeviceOffline), (''INVALID'', qualityInvalid)]"

definition qualityNames :: "byte \<Rightarrow> string option" where
  "qualityNames = map_of
     [(qualityGood, ''GOOD''), (qualityTimeout, ''TIMEOUT''), (qualityCRCError, ''CRC_ERROR''),
      (qualityDeviceOffline, ''DEVICE_OFFLINE''), (qualityInvalid, ''INVALID'')]"

text \<open>\<^verbatim>\<open>binary.LittleEndian.PutUint64\<close> and \<^verbatim>\<open>binary.LittleEndian.Uint64\<close>.\<close>

fun putLE :: "nat \<Rightarrow> uint64 \<Rightarrow> byte list" where
  "putLE 0 x = []"
| "putLE (Suc n) x = ucast x # putLE n (drop_bit 8 x)"

fun getLE :: "byte list \<Rightarrow> uint64" where
  "getLE [] = 0"
| "getLE (b # bs) = ucast b OR push_bit 8 (getLE bs)"

section \<open>Encoding\<close>

datatype codec_err =
    NegativeID int64 int64
  | EmptyChunk
  | UnknownFormat byte
  | Decompress
  | BadCount read_err
  | CountExceedsSize uint64
  | BadBase read_err
  | BadDatapoint nat read_err
  | BadDevice nat read_err
  | BadTimestamp nat read_err
  | BadQuality nat read_err
  | BadQualityLength nat
  | UnknownQualityCode nat byte
  | BadValue nat read_err

definition encodeRecord :: "int64 \<Rightarrow> reading \<Rightarrow> byte list" where
  "encodeRecord prev r =
     (let ts = toUnixMilli (rd_At r);
          known = (qualityCodes (rd_Quality r) \<noteq> None);
          code0 = (case qualityCodes (rd_Quality r) of Some c \<Rightarrow> c | None \<Rightarrow> qualityOther);
          code = (if rd_Value r \<noteq> None then code0 OR hasValueBit else code0)
      in putUvarint (rd_DatapointID r) @ putUvarint (rd_DeviceID r) @ putVarint (ts - prev) @
         [code] @
         (if known then []
          else putUvarint (word_of_nat (length (rd_Quality r))) @ stringBytes (rd_Quality r)) @
         (case rd_Value r of None \<Rightarrow> [] | Some v \<Rightarrow> putLE 8 v))"

fun encodeRecords :: "int64 \<Rightarrow> reading list \<Rightarrow> codec_err + byte list" where
  "encodeRecords prev [] = Inr []"
| "encodeRecords prev (r # rs) =
     (if sint (rd_DatapointID r) < 0 \<or> sint (rd_DeviceID r) < 0
      then Inl (NegativeID (rd_DeviceID r) (rd_DatapointID r))
      else (case encodeRecords (toUnixMilli (rd_At r)) rs of
              Inl e \<Rightarrow> Inl e
            | Inr bs \<Rightarrow> Inr (encodeRecord prev r @ bs)))"

definition baseTs :: "reading list \<Rightarrow> int64" where
  "baseTs rs = (case rs of [] \<Rightarrow> 0 | r # _ \<Rightarrow> toUnixMilli (rd_At r))"

definition encodeRaw :: "reading list \<Rightarrow> codec_err + byte list" where
  "encodeRaw rs =
     (case encodeRecords (baseTs rs) rs of
        Inl e \<Rightarrow> Inl e
      | Inr bs \<Rightarrow> Inr (putUvarint (word_of_nat (length rs)) @ putVarint (baseTs rs) @ bs))"

definition encodeChunk :: "(byte list \<Rightarrow> byte list) \<Rightarrow> reading list \<Rightarrow> codec_err + byte list" where
  "encodeChunk deflate rs =
     (case encodeRaw rs of
        Inl e \<Rightarrow> Inl e
      | Inr raw \<Rightarrow> Inr (chunkFormatV1 # deflate raw))"

section \<open>Decoding\<close>

text \<open>The quality string of record \<open>i\<close>, after the code byte \<open>code\<close> has been read.\<close>

definition decodeQuality :: "nat \<Rightarrow> byte \<Rightarrow> byte list \<Rightarrow> codec_err + (string \<times> byte list)" where
  "decodeQuality i code bs =
     (let base = code AND NOT hasValueBit in
      if base = qualityOther
      then (case readUvarint bs of
              Inl e \<Rightarrow> Inl (BadQualityLength i)
            | Inr (n, bs') \<Rightarrow>
                (if n > word_of_nat (length bs') then Inl (BadQualityLength i)
                 else Inr (bytesString (take (unat n) bs'), drop (unat n) bs')))
      else (case qualityNames base of
              Some name \<Rightarrow> Inr (name, bs)
            | None \<Rightarrow> Inl (UnknownQualityCode i base)))"

text \<open>\<^verbatim>\<open>io.ReadFull\<close> of eight bytes: no byte at all is EOF, too few is an unexpected EOF.\<close>

definition decodeValue :: "nat \<Rightarrow> byte \<Rightarrow> byte list \<Rightarrow> codec_err + (uint64 option \<times> byte list)" where
  "decodeValue i code bs =
     (if code AND hasValueBit \<noteq> 0
      then (if bs = [] then Inl (BadValue i EOF)
            else if length bs < 8 then Inl (BadValue i UnexpectedEOF)
            else Inr (Some (getLE (take 8 bs)), drop 8 bs))
      else Inr (None, bs))"

definition decodeRecord :: "nat \<Rightarrow> int64 \<Rightarrow> byte list \<Rightarrow> codec_err + (reading \<times> int64 \<times> byte list)" where
  "decodeRecord i prev bs =
     (case readUvarint bs of
        Inl e \<Rightarrow> Inl (BadDatapoint i e)
      | Inr (dp, bs) \<Rightarrow>
     (case readUvarint bs of
        Inl e \<Rightarrow> Inl (BadDevice i e)
      | Inr (dev, bs) \<Rightarrow>
     (case readVarint bs of
        Inl e \<Rightarrow> Inl (BadTimestamp i e)
      | Inr (delta, bs) \<Rightarrow>
     (case bs of
        [] \<Rightarrow> Inl (BadQuality i EOF)
      | code # bs \<Rightarrow>
     (case decodeQuality i code bs of
        Inl e \<Rightarrow> Inl e
      | Inr (q, bs) \<Rightarrow>
     (case decodeValue i code bs of
        Inl e \<Rightarrow> Inl e
      | Inr (v, bs) \<Rightarrow>
          Inr (\<lparr>rd_DeviceID = dev, rd_DatapointID = dp, rd_Value = v, rd_Quality = q,
                rd_At = fromUnixMilli (prev + delta)\<rparr>, prev + delta, bs)))))))"

fun decodeRecords :: "nat \<Rightarrow> nat \<Rightarrow> int64 \<Rightarrow> byte list \<Rightarrow> codec_err + reading list" where
  "decodeRecords 0 i prev bs = Inr []"
| "decodeRecords (Suc k) i prev bs =
     (case decodeRecord i prev bs of
        Inl e \<Rightarrow> Inl e
      | Inr (r, prev', bs') \<Rightarrow>
          (case decodeRecords k (Suc i) prev' bs' of
             Inl e \<Rightarrow> Inl e
           | Inr rs \<Rightarrow> Inr (r # rs)))"

definition decodeRaw :: "byte list \<Rightarrow> codec_err + reading list" where
  "decodeRaw raw =
     (case readUvarint raw of
        Inl e \<Rightarrow> Inl (BadCount e)
      | Inr (count, bs) \<Rightarrow>
          (if count > word_of_nat (length raw) then Inl (CountExceedsSize count)
           else (case readVarint bs of
                   Inl e \<Rightarrow> Inl (BadBase e)
                 | Inr (prev, bs) \<Rightarrow> decodeRecords (unat count) 0 prev bs)))"

definition decodeChunk :: "(byte list \<Rightarrow> byte list option) \<Rightarrow> byte list \<Rightarrow> codec_err + reading list" where
  "decodeChunk inflate blob =
     (case blob of
        [] \<Rightarrow> Inl EmptyChunk
      | f # body \<Rightarrow>
          (if f \<noteq> chunkFormatV1 then Inl (UnknownFormat f)
           else (case inflate body of
                   None \<Rightarrow> Inl Decompress
                 | Some raw \<Rightarrow> decodeRaw raw)))"

section \<open>Variable-length integers round-trip\<close>

lemma ucast_low7:
  "ucast ((ucast (v :: uint64) OR 0x80 :: byte) AND 0x7f) = (take_bit 7 v :: uint64)"
proof -
  have "(ucast v OR 0x80 :: byte) AND 0x7f = ucast v AND mask 7"
    by (simp add: bit.conj_disj_distrib2 mask_eq_exp_minus_1)
  also have "\<dots> = take_bit 7 (ucast v)"
    by (simp add: take_bit_eq_mask)
  finally have eq: "(ucast v OR 0x80 :: byte) AND 0x7f = take_bit 7 (ucast v)" .
  show ?thesis
    unfolding eq
    by (rule bit_word_eqI) (auto simp: bit_ucast_iff bit_take_bit_iff)
qed

lemma ucast_or_ge: "\<not> (ucast (v :: uint64) OR 0x80 :: byte) < 0x80"
proof -
  have "(0x80 :: byte) \<le> ucast v OR 0x80"
    using le_word_or2 [of "0x80 :: byte" "ucast v"] by (simp only: or.commute)
  then show ?thesis by (simp add: not_less)
qed

lemma ucast_ucast_small:
  assumes "v < (0x80 :: uint64)"
  shows "(ucast (ucast v :: byte) :: uint64) = v" and "(ucast v :: byte) < 0x80"
proof -
  have lt: "unat v < 128" using assms by (simp add: word_less_nat_alt)
  show "(ucast (ucast v :: byte) :: uint64) = v"
    by (rule word_unat_eq_iff [THEN iffD2])
      (use lt in \<open>simp add: unsigned_ucast_eq unsigned_take_bit_eq take_bit_nat_eq_self\<close>)
  show "(ucast v :: byte) < 0x80"
    using lt by (simp add: word_less_nat_alt unsigned_ucast_eq take_bit_eq_mod)
qed

lemma readUvarintLoop_putUvarint:
  assumes "unat v < 2 ^ (64 - 7 * i)" and "i + k = 10" and "i \<le> 9"
  shows "readUvarintLoop k i x (putUvarint v @ rest) = Inr (x OR push_bit (7 * i) v, rest)"
  using assms
proof (induction v arbitrary: i k x rule: putUvarint.induct)
  case (1 v)
  then obtain j where k: "k = Suc j" by (cases k) auto
  show ?case
  proof (cases "0x80 \<le> v")
    case True
    then have big: "2 ^ 7 \<le> unat v" by (simp add: word_le_nat_alt)
    with "1.prems"(1) have "(2 :: nat) ^ 7 < 2 ^ (64 - 7 * i)" by linarith
    then have i8: "i \<le> 8" by (simp only: power_strict_increasing_iff)
    have "64 - 7 * i = 7 + (64 - 7 * Suc i)" using i8 by simp
    then have "unat v < 2 ^ 7 * 2 ^ (64 - 7 * Suc i)"
      using "1.prems"(1) by (metis power_add)
    then have "drop_bit 7 (unat v) < 2 ^ (64 - 7 * Suc i)"
      by (simp only: drop_bit_eq_div less_mult_imp_div_less mult.commute)
    then have "unat (drop_bit 7 v) < 2 ^ (64 - 7 * Suc i)"
      by (simp only: unat_drop_bit_eq)
    then have "readUvarintLoop j (Suc i) (x OR push_bit (7 * i) (take_bit 7 v))
                 (putUvarint (drop_bit 7 v) @ rest) =
               Inr ((x OR push_bit (7 * i) (take_bit 7 v)) OR push_bit (7 * Suc i) (drop_bit 7 v), rest)"
      using True i8 "1.prems"(2) k by (intro "1.IH") auto
    moreover have "(x OR push_bit (7 * i) (take_bit 7 v)) OR push_bit (7 * Suc i) (drop_bit 7 v)
        = x OR push_bit (7 * i) v"
      using push_take_or_drop [of "7 * i" 7 v] by (simp add: or.assoc add.commute)
    ultimately show ?thesis
      using True k ucast_or_ge [of v] by (simp add: putUvarint.simps [of v] ucast_low7)
  next
    case False
    then have small: "v < 0x80" by simp
    have "\<not> (i = 9 \<and> (ucast v :: byte) > 1)"
    proof
      assume a: "i = 9 \<and> (ucast v :: byte) > 1"
      with "1.prems"(1) have "unat v < 2" by simp
      then have "unat (ucast v :: byte) < 2" by (simp add: unsigned_ucast_eq take_bit_eq_mod)
      with a show False by (simp add: word_less_nat_alt)
    qed
    with False k ucast_ucast_small [OF small] show ?thesis
      by (simp add: putUvarint.simps [of v])
  qed
qed

lemma readUvarint_putUvarint [codec_simps]:
  "readUvarint (putUvarint v @ rest) = Inr (v, rest)"
proof -
  have "unat v < 2 ^ 64" using unsigned_less [of v] by simp
  then show ?thesis
    by (simp add: readUvarint_def readUvarintLoop_putUvarint [where i = 0 and k = 10, simplified])
qed

lemma zigzag_nonneg:
  assumes "\<not> sint (x :: int64) < 0"
  shows "drop_bit 1 (push_bit 1 x) = x" and "push_bit 1 x AND 1 = 0"
proof -
  have top: "\<not> bit x 63" using assms bit_last_iff [of x] by simp
  have lt: "bit x n \<Longrightarrow> n < 63" for n
    using top bit_imp_le_length [of x n] by (cases "n = 63") auto
  show "drop_bit 1 (push_bit 1 x) = x"
    by (rule bit_word_eqI) (use top lt in \<open>auto simp: bit_drop_bit_eq bit_push_bit_iff
      simp del: push_bit_Suc drop_bit_Suc\<close>)
  show "push_bit 1 x AND 1 = 0"
    by (rule bit_word_eqI)
      (auto simp: bit_and_iff bit_push_bit_iff bit_1_iff simp del: push_bit_Suc)
qed

lemma zigzag_neg:
  assumes "sint (x :: int64) < 0"
  shows "NOT (drop_bit 1 (NOT (push_bit 1 x))) = x" and "NOT (push_bit 1 x) AND 1 \<noteq> 0"
proof -
  have top: "bit x 63" using assms bit_last_iff [of x] by simp
  have lt: "bit x n \<or> n < 63" if "n < 64" for n
    using top that by (cases "n = 63") auto
  show "NOT (drop_bit 1 (NOT (push_bit 1 x))) = x"
    by (rule bit_word_eqI) (use top lt in \<open>auto simp: bit_drop_bit_eq bit_push_bit_iff bit_not_iff
      simp del: push_bit_Suc drop_bit_Suc\<close>)
  have "bit (NOT (push_bit 1 x) AND 1) 0"
    by (simp add: bit_and_iff bit_not_iff bit_push_bit_iff bit_1_iff del: push_bit_Suc)
  then show "NOT (push_bit 1 x) AND 1 \<noteq> 0" by fastforce
qed

lemma readVarint_putVarint [codec_simps]:
  "readVarint (putVarint x @ rest) = Inr (x, rest)"
proof (cases "sint x < 0")
  case True
  then show ?thesis
    using zigzag_neg [OF True] by (simp add: readVarint_def putVarint_def Let_def codec_simps)
next
  case False
  then show ?thesis
    using zigzag_nonneg [OF False] by (simp add: readVarint_def putVarint_def Let_def codec_simps)
qed

section \<open>Records round-trip\<close>

lemma length_putUvarint_pos: "0 < length (putUvarint v)"
  by (simp add: putUvarint.simps [of v])

lemma length_putLE [simp]: "length (putLE n v) = n"
  by (induction n arbitrary: v) auto

lemma getLE_putLE: "getLE (putLE n v) = take_bit (8 * n) v"
proof (induction n arbitrary: v)
  case (Suc n)
  have "ucast (ucast v :: byte) = (take_bit 8 v :: uint64)"
    by (rule bit_word_eqI) (auto simp: bit_ucast_iff bit_take_bit_iff)
  moreover have "take_bit 8 v OR push_bit 8 (take_bit (8 * n) (drop_bit 8 v)) = take_bit (8 * Suc n) v"
    by (rule bit_word_eqI)
      (auto simp: bit_or_iff bit_push_bit_iff bit_take_bit_iff bit_drop_bit_eq not_le)
  ultimately show ?case by (simp add: Suc.IH del: mult_Suc_right)
qed simp

lemma getLE_putLE8 [codec_simps]: "getLE (putLE 8 v) = v"
  using getLE_putLE [of 8 v] take_bit_word_eq_self [of 64 v] by simp

lemma qualityCodes_cases:
  assumes "qualityCodes q = Some c"
  shows "qualityNames c = Some q" and "c AND NOT hasValueBit = c" and "c AND hasValueBit = 0"
    and "(c OR hasValueBit) AND NOT hasValueBit = c" and "(c OR hasValueBit) AND hasValueBit \<noteq> 0"
    and "c \<noteq> qualityOther"
  using assms
  by (auto simp: qualityCodes_def qualityNames_def qualityGood_def qualityTimeout_def
      qualityCRCError_def qualityDeviceOffline_def qualityInvalid_def qualityOther_def
      hasValueBit_def split: if_splits)

lemma qualityOther_bits:
  "qualityOther AND NOT hasValueBit = qualityOther" "qualityOther AND hasValueBit = 0"
  "(qualityOther OR hasValueBit) AND NOT hasValueBit = qualityOther"
  "(qualityOther OR hasValueBit) AND hasValueBit \<noteq> 0"
  by (simp_all add: qualityOther_def hasValueBit_def)

text \<open>The part of a record after the code byte, and the code byte itself.\<close>

definition codeByte :: "reading \<Rightarrow> byte" where
  "codeByte r =
     (let c = (case qualityCodes (rd_Quality r) of Some c \<Rightarrow> c | None \<Rightarrow> qualityOther)
      in if rd_Value r \<noteq> None then c OR hasValueBit else c)"

definition qualityPart :: "reading \<Rightarrow> byte list" where
  "qualityPart r =
     (if qualityCodes (rd_Quality r) \<noteq> None then []
      else putUvarint (word_of_nat (length (rd_Quality r))) @ stringBytes (rd_Quality r))"

definition valuePart :: "reading \<Rightarrow> byte list" where
  "valuePart r = (case rd_Value r of None \<Rightarrow> [] | Some v \<Rightarrow> putLE 8 v)"

lemma encodeRecord_parts:
  "encodeRecord prev r =
     putUvarint (rd_DatapointID r) @ putUvarint (rd_DeviceID r) @
     putVarint (toUnixMilli (rd_At r) - prev) @ codeByte r # qualityPart r @ valuePart r"
  by (simp add: encodeRecord_def codeByte_def qualityPart_def valuePart_def Let_def)

definition fitsLength :: "string \<Rightarrow> bool" where
  "fitsLength s \<longleftrightarrow> length s < 2 ^ 63"

lemma decodeQuality_codeByte:
  assumes "fitsLength (rd_Quality r)" and "length rest < 2 ^ 63"
  shows "decodeQuality i (codeByte r) (qualityPart r @ rest) = Inr (rd_Quality r, rest)"
proof (cases "qualityCodes (rd_Quality r)")
  case None
  let ?n = "length (rd_Quality r)"
  have un: "unat (word_of_nat ?n :: uint64) = ?n"
    using assms(1) by (simp add: fitsLength_def unat_of_nat)
  have "unat (word_of_nat (?n + length rest) :: uint64) = ?n + length rest"
    using assms by (intro unat_of_nat_small) (simp add: fitsLength_def)
  then have "\<not> (word_of_nat ?n :: uint64) > word_of_nat (?n + length rest)"
    using un by (simp add: word_less_nat_alt)
  with None un show ?thesis
    by (auto simp: decodeQuality_def codeByte_def qualityPart_def Let_def qualityOther_bits
        codec_simps simp flip: of_nat_add)
next
  case (Some c)
  then show ?thesis
    using qualityCodes_cases [OF Some]
    by (auto simp: decodeQuality_def codeByte_def qualityPart_def Let_def)
qed

lemma codeByte_hasValue: "codeByte r AND hasValueBit \<noteq> 0 \<longleftrightarrow> rd_Value r \<noteq> None"
proof (cases "qualityCodes (rd_Quality r)")
  case (Some c)
  then show ?thesis using qualityCodes_cases [OF Some] by (simp add: codeByte_def Let_def)
qed (simp add: codeByte_def Let_def qualityOther_def hasValueBit_def)

lemma decodeValue_codeByte:
  "decodeValue i (codeByte r) (valuePart r @ rest) = Inr (rd_Value r, rest)"
proof (cases "rd_Value r")
  case (Some v)
  have "putLE 8 v @ rest \<noteq> []" using length_putLE [of 8 v] by (metis append_is_Nil_conv list.size(3) zero_neq_numeral)
  with Some codeByte_hasValue [of r] show ?thesis
    by (simp add: decodeValue_def valuePart_def codec_simps)
qed (use codeByte_hasValue [of r] in \<open>simp add: decodeValue_def valuePart_def\<close>)

definition truncReading :: "reading \<Rightarrow> reading" where
  "truncReading r = r\<lparr>rd_At := truncMilli (rd_At r)\<rparr>"

lemma decodeRecord_encodeRecord:
  assumes "fitsLength (rd_Quality r)" and "length (valuePart r @ rest) < 2 ^ 63"
    and "milliInRange (rd_At r)"
  shows "decodeRecord i prev (encodeRecord prev r @ rest) =
           Inr (truncReading r, toUnixMilli (rd_At r), rest)"
proof -
  have q: "decodeQuality i (codeByte r) (qualityPart r @ valuePart r @ rest) =
      Inr (rd_Quality r, valuePart r @ rest)"
    using assms by (intro decodeQuality_codeByte) auto
  show ?thesis
    by (simp add: decodeRecord_def encodeRecord_parts codec_simps q decodeValue_codeByte
        fromUnixMilli_toUnixMilli [OF assms(3)] truncReading_def)
qed

section \<open>Sizes\<close>

lemma length_putUvarint_le:
  assumes "unat v < 2 ^ (7 * k)" and "0 < k"
  shows "length (putUvarint v) \<le> k"
  using assms
proof (induction v arbitrary: k rule: putUvarint.induct)
  case (1 v)
  show ?case
  proof (cases "0x80 \<le> v")
    case True
    then have big: "2 ^ 7 \<le> unat v" by (simp add: word_le_nat_alt)
    with "1.prems"(1) have "(2 :: nat) ^ 7 < 2 ^ (7 * k)" by linarith
    then have k2: "2 \<le> k" by (simp only: power_strict_increasing_iff)
    then have "7 * k = 7 + 7 * (k - 1)" by simp
    then have "unat v < 2 ^ 7 * 2 ^ (7 * (k - 1))"
      using "1.prems"(1) by (metis power_add)
    then have "drop_bit 7 (unat v) < 2 ^ (7 * (k - 1))"
      by (simp only: drop_bit_eq_div less_mult_imp_div_less mult.commute)
    then have "unat (drop_bit 7 v) < 2 ^ (7 * (k - 1))"
      by (simp only: unat_drop_bit_eq)
    then have "length (putUvarint (drop_bit 7 v)) \<le> k - 1"
      using True k2 by (intro "1.IH") auto
    with True k2 show ?thesis by (simp add: putUvarint.simps [of v])
  next
    case False
    with "1.prems"(2) show ?thesis by (simp add: putUvarint.simps [of v])
  qed
qed

lemma length_putUvarint_max: "length (putUvarint v) \<le> 10"
proof -
  have "unat v < 2 ^ 64" using unsigned_less [of v] by simp
  then have "unat v < 2 ^ (7 * 10)" by simp
  then show ?thesis by (rule length_putUvarint_le) simp
qed

lemma length_putVarint_max: "length (putVarint v) \<le> 10"
  by (simp add: putVarint_def Let_def length_putUvarint_max)

definition recordBound :: "reading \<Rightarrow> nat" where
  "recordBound r = 49 + length (rd_Quality r)"

lemma length_encodeRecord:
  "1 \<le> length (encodeRecord prev r)" "length (encodeRecord prev r) \<le> recordBound r"
proof -
  note b = length_putUvarint_max [of "rd_DatapointID r"] length_putUvarint_max [of "rd_DeviceID r"]
    length_putVarint_max [of "toUnixMilli (rd_At r) - prev"]
    length_putUvarint_max [of "word_of_nat (length (rd_Quality r))"]
  have v: "length (valuePart r) \<le> 8" by (simp add: valuePart_def split: option.splits)
  have q: "length (qualityPart r) \<le> 10 + length (rd_Quality r)"
    using b(4) by (simp add: qualityPart_def)
  show "length (encodeRecord prev r) \<le> recordBound r"
    using b v q by (simp add: encodeRecord_parts recordBound_def)
  show "1 \<le> length (encodeRecord prev r)" by (simp add: encodeRecord_parts)
qed

definition idsNonneg :: "reading \<Rightarrow> bool" where
  "idsNonneg r \<longleftrightarrow> 0 \<le> sint (rd_DatapointID r) \<and> 0 \<le> sint (rd_DeviceID r)"

lemma encodeRecords_Inr:
  "(\<exists>bs. encodeRecords prev rs = Inr bs) \<longleftrightarrow> list_all idsNonneg rs"
proof (induction rs arbitrary: prev)
  case (Cons r rs)
  from Cons [of "toUnixMilli (rd_At r)"] show ?case
    by (cases "encodeRecords (toUnixMilli (rd_At r)) rs") (auto simp: idsNonneg_def not_less)
qed simp

lemma encodeRecords_lengths:
  assumes "encodeRecords prev rs = Inr bs"
  shows "length rs \<le> length bs \<and> length bs \<le> sum_list (map recordBound rs)"
  using assms
proof (induction rs arbitrary: prev bs)
  case (Cons r rs)
  then obtain bs' where "encodeRecords (toUnixMilli (rd_At r)) rs = Inr bs'"
    and "bs = encodeRecord prev r @ bs'"
    by (auto split: if_splits sum.splits)
  with Cons.IH [of _ bs'] length_encodeRecord [of prev r] show ?case by fastforce
qed simp

lemma decodeRecords_encodeRecords:
  assumes "encodeRecords prev rs = Inr bs" and "sum_list (map recordBound rs) < 2 ^ 63"
    and "list_all (\<lambda>r. milliInRange (rd_At r)) rs"
  shows "decodeRecords (length rs) i prev bs = Inr (map truncReading rs)"
  using assms
proof (induction rs arbitrary: prev bs i)
  case (Cons r rs)
  then obtain bs' where e: "encodeRecords (toUnixMilli (rd_At r)) rs = Inr bs'"
    and bs: "bs = encodeRecord prev r @ bs'"
    by (auto split: if_splits sum.splits)
  have s: "recordBound r + sum_list (map recordBound rs) < 2 ^ 63" using Cons.prems(2) by simp
  have "length (valuePart r) \<le> 8" by (simp add: valuePart_def split: option.splits)
  then have "length (valuePart r @ bs') < 2 ^ 63"
    using encodeRecords_lengths [OF e] s by (simp add: recordBound_def)
  moreover have "fitsLength (rd_Quality r)" using s by (simp add: fitsLength_def recordBound_def)
  ultimately have "decodeRecord i prev bs = Inr (truncReading r, toUnixMilli (rd_At r), bs')"
    using Cons.prems(3) by (simp add: bs decodeRecord_encodeRecord)
  moreover have "decodeRecords (length rs) (Suc i) (toUnixMilli (rd_At r)) bs' = Inr (map truncReading rs)"
    using e s Cons.prems(3) by (intro Cons.IH) auto
  ultimately show ?case by simp
qed simp

text \<open>What a chunk must satisfy to be written and read back: identifiers of database rows (not
  negative), instants within the range of a 64-bit millisecond count, and a size that fits a
  Go slice.\<close>

definition chunkable :: "reading list \<Rightarrow> bool" where
  "chunkable rs \<longleftrightarrow> list_all idsNonneg rs \<and> list_all (\<lambda>r. milliInRange (rd_At r)) rs \<and>
     20 + sum_list (map recordBound rs) < 2 ^ 63"

lemma decodeRaw_encodeRaw:
  assumes "chunkable rs"
  shows "\<exists>raw. encodeRaw rs = Inr raw \<and> decodeRaw raw = Inr (map truncReading rs)"
proof -
  obtain bs where e: "encodeRecords (baseTs rs) rs = Inr bs"
    using assms encodeRecords_Inr unfolding chunkable_def by blast
  let ?n = "word_of_nat (length rs) :: uint64"
  let ?raw = "putUvarint ?n @ putVarint (baseTs rs) @ bs"
  have l: "length rs \<le> length bs" "length bs < 2 ^ 63 - 20"
    using encodeRecords_lengths [OF e] assms by (auto simp: chunkable_def)
  have raw63: "length ?raw < 2 ^ 63"
    using l(2) length_putUvarint_max [of ?n] length_putVarint_max [of "baseTs rs"] by simp
  have un: "unat ?n = length rs" using l by (intro unat_of_nat_small) simp
  moreover have "unat (word_of_nat (length ?raw) :: uint64) = length ?raw"
    using raw63 by (intro unat_of_nat_small) simp
  ultimately have "\<not> ?n > word_of_nat (length ?raw)"
    using l(1) by (simp add: word_less_nat_alt del: of_nat_add length_append) simp
  moreover have "decodeRecords (length rs) 0 (baseTs rs) bs = Inr (map truncReading rs)"
    using e assms by (intro decodeRecords_encodeRecords) (auto simp: chunkable_def)
  ultimately have "decodeRaw ?raw = Inr (map truncReading rs)"
    using un by (simp add: decodeRaw_def codec_simps del: of_nat_add length_append)
  then show ?thesis by (simp add: encodeRaw_def e)
qed

lemma decodeRecords_length:
  "decodeRecords k i prev bs = Inr rs \<Longrightarrow> length rs = k"
  by (induction k arbitrary: i prev bs rs) (auto split: sum.splits)

section \<open>The compression contract\<close>

text \<open>
  What the codec relies on from \<^verbatim>\<open>compress/flate\<close>: inflating a deflated buffer gives
  the buffer back. The stored blocks of RFC 1951 (the uncompressed block type, which every DEFLATE
  reader accepts) satisfy it and are executable: a block is a header byte, whose low bit marks the
  last block, the length and its complement as little-endian 16-bit numbers, and the bytes.
\<close>

locale flate =
  fixes deflate :: "byte list \<Rightarrow> byte list" and inflate :: "byte list \<Rightarrow> byte list option"
  assumes inflate_deflate: "inflate (deflate xs) = Some xs"
begin

lemma decode_encode:
  assumes "chunkable rs"
  shows "\<exists>blob. encodeChunk deflate rs = Inr blob \<and>
    decodeChunk inflate blob = Inr (map truncReading rs)"
  using decodeRaw_encodeRaw [OF assms]
  by (auto simp: encodeChunk_def decodeChunk_def inflate_deflate)

lemma encode_fails_iff:
  "(\<exists>e. encodeChunk deflate rs = Inl e) \<longleftrightarrow> \<not> list_all idsNonneg rs"
  using encodeRecords_Inr [of "baseTs rs" rs]
  by (auto simp: encodeChunk_def encodeRaw_def split: sum.splits)

end

definition storedBlock :: "byte \<Rightarrow> byte list \<Rightarrow> byte list" where
  "storedBlock final xs =
     (let n = word_of_nat (length xs) :: uint16
      in final # ucast n # ucast (drop_bit 8 n) # ucast (NOT n) # ucast (drop_bit 8 (NOT n)) # xs)"

function storedDeflate :: "byte list \<Rightarrow> byte list" where
  "storedDeflate xs =
     (if length xs \<le> 65535 then storedBlock 1 xs
      else storedBlock 0 (take 65535 xs) @ storedDeflate (drop 65535 xs))"
  by pat_completeness auto
termination by (relation "measure length") auto

declare storedDeflate.simps [simp del]

definition word16 :: "byte \<Rightarrow> byte \<Rightarrow> uint16" where
  "word16 lo hi = ucast lo OR push_bit 8 (ucast hi)"

fun storedInflateFuel :: "nat \<Rightarrow> byte list \<Rightarrow> byte list option" where
  "storedInflateFuel (Suc k) (h # a # b # c # d # bs) =
     (let n = word16 a b in
      if drop_bit 1 h \<noteq> 0 \<or> word16 c d \<noteq> NOT n \<or> length bs < unat n then None
      else if h = 1 then Some (take (unat n) bs)
      else map_option (\<lambda>ys. take (unat n) bs @ ys) (storedInflateFuel k (drop (unat n) bs)))"
| "storedInflateFuel _ _ = None"

definition storedInflate :: "byte list \<Rightarrow> byte list option" where
  "storedInflate bs = storedInflateFuel (length bs) bs"

lemma word16_split: "word16 (ucast n) (ucast (drop_bit 8 n)) = n"
  by (rule bit_word_eqI)
    (auto simp: word16_def bit_or_iff bit_ucast_iff bit_push_bit_iff bit_drop_bit_eq not_less)

lemma storedInflateFuel_block:
  assumes "length xs \<le> 65535" and "final = 0 \<or> final = 1"
  shows "storedInflateFuel (Suc k) (storedBlock final xs @ rest) =
    (if final = 1 then Some xs
     else map_option (\<lambda>ys. xs @ ys) (storedInflateFuel k rest))"
proof -
  have "unat (word_of_nat (length xs) :: uint16) = length xs"
    using assms(1) by (intro unat_of_nat_small) simp
  with assms(2) show ?thesis
    by (auto simp: storedBlock_def Let_def word16_split)
qed

lemma storedInflateFuel_storedDeflate:
  "length xs < k \<Longrightarrow> storedInflateFuel k (storedDeflate xs) = Some xs"
proof (induction xs arbitrary: k rule: storedDeflate.induct)
  case (1 xs)
  obtain j where k: "k = Suc j" using "1.prems" by (cases k) auto
  show ?case
  proof (cases "length xs \<le> 65535")
    case True
    then show ?thesis
      using storedInflateFuel_block [of xs 1 j "[]"] by (simp add: k storedDeflate.simps [of xs])
  next
    case False
    then have "storedInflateFuel j (storedDeflate (drop 65535 xs)) = Some (drop 65535 xs)"
      using "1.prems" k by (intro "1.IH") auto
    with False show ?thesis
      using storedInflateFuel_block [of "take 65535 xs" 0 j "storedDeflate (drop 65535 xs)"]
      by (simp add: k storedDeflate.simps [of xs])
  qed
qed

lemma length_storedDeflate: "length xs < length (storedDeflate xs)"
proof (induction xs rule: storedDeflate.induct)
  case (1 xs)
  then show ?case
    by (cases "length xs \<le> 65535")
      (auto simp: storedDeflate.simps [of xs] storedBlock_def Let_def)
qed

lemma storedInflate_storedDeflate: "storedInflate (storedDeflate xs) = Some xs"
  by (simp add: storedInflate_def storedInflateFuel_storedDeflate length_storedDeflate)

interpretation stored: flate storedDeflate storedInflate
  by unfold_locales (rule storedInflate_storedDeflate)

section \<open>Properties of the codec\<close>

text \<open>
  C9: chunks round-trip. With a DEFLATE codec that inverts itself, any list of readings with
  non-negative identifiers, instants within the range of Unix milliseconds and a total size below
  \<open>2 ^ 63\<close> bytes is encoded without error, and \<^verbatim>\<open>decodeChunk\<close> gives back the same readings in
  the same order, values bit for bit, with the instants cut to milliseconds.
\<close>

theorem chunk_roundtrip:
  assumes "\<And>xs. inflate (deflate xs) = Some xs" and "chunkable rs"
  shows "\<exists>blob. encodeChunk deflate rs = Inr blob \<and> decodeChunk inflate blob = Inr (map truncReading rs)"
proof -
  have "flate deflate inflate" by unfold_locales (rule assms(1))
  from flate.decode_encode [OF this assms(2)] show ?thesis .
qed

theorem chunk_roundtrip_witness:
  "\<exists>blob. encodeChunk storedDeflate
       [\<lparr>rd_DeviceID = 1, rd_DatapointID = 300, rd_Value = Some 0x4035800000000000, rd_Quality = ''GOOD'', rd_At = 1700000000123456789\<rparr>,
        \<lparr>rd_DeviceID = 1, rd_DatapointID = 301, rd_Value = None, rd_Quality = ''ODD'', rd_At = 1700000000007000000\<rparr>] = Inr blob \<and>
     decodeChunk storedInflate blob = Inr
       [\<lparr>rd_DeviceID = 1, rd_DatapointID = 300, rd_Value = Some 0x4035800000000000, rd_Quality = ''GOOD'', rd_At = 1700000000123000000\<rparr>,
        \<lparr>rd_DeviceID = 1, rd_DatapointID = 301, rd_Value = None, rd_Quality = ''ODD'', rd_At = 1700000000007000000\<rparr>]"
  using chunk_roundtrip [of storedInflate storedDeflate
      "[\<lparr>rd_DeviceID = 1, rd_DatapointID = 300, rd_Value = Some 0x4035800000000000, rd_Quality = ''GOOD'', rd_At = 1700000000123456789\<rparr>,
        \<lparr>rd_DeviceID = 1, rd_DatapointID = 301, rd_Value = None, rd_Quality = ''ODD'', rd_At = 1700000000007000000\<rparr>]",
      OF storedInflate_storedDeflate]
  by (simp add: chunkable_def idsNonneg_def milliInRange_def recordBound_def truncReading_def truncMilli_def nanosPerMilli_def)

text \<open>
  What the codec refuses. Encoding fails exactly when a reading has a negative identifier, and
  decoding returns readings only for a blob that starts with the format byte 1 and inflates; it then
  returns exactly as many readings as the count in front of the records says, which never exceeds
  the number of bytes, so that a damaged count cannot ask for a huge list.
\<close>

theorem codec_refuses:
  "((\<exists>e. encodeChunk deflate rs = Inl e) \<longleftrightarrow> \<not> list_all idsNonneg rs) \<and>
   (decodeChunk inflate blob = Inr out \<longrightarrow>
     (\<exists>body raw count rest. blob = chunkFormatV1 # body \<and> inflate body = Some raw \<and>
        readUvarint raw = Inr (count, rest) \<and> length out = unat count \<and>
        count \<le> word_of_nat (length raw)))"
proof -
  have "(\<exists>e. encodeChunk deflate rs = Inl e) \<longleftrightarrow> \<not> list_all idsNonneg rs"
    using encodeRecords_Inr [of "baseTs rs" rs]
    by (auto simp: encodeChunk_def encodeRaw_def split: sum.splits)
  moreover have "\<exists>body raw count rest. blob = chunkFormatV1 # body \<and> inflate body = Some raw \<and>
        readUvarint raw = Inr (count, rest) \<and> length out = unat count \<and>
        count \<le> word_of_nat (length raw)" if "decodeChunk inflate blob = Inr out"
    using that decodeRecords_length
    by (fastforce simp: decodeChunk_def decodeRaw_def not_less split: list.splits if_splits option.splits sum.splits)
  ultimately show ?thesis by blast
qed

theorem codec_refuses_witness:
  "\<exists>raw count rest. storedInflate (storedDeflate [0, 0]) = Some raw \<and> readUvarint raw = Inr (count, rest) \<and>
     count = 0"
proof -
  have "decodeChunk storedInflate (1 # storedDeflate [0, 0]) = Inr []"
    using readUvarint_putUvarint [of 0 "[0]"] readUvarint_putUvarint [of 0 "[]"]
    by (simp add: decodeChunk_def chunkFormatV1_def storedInflate_storedDeflate decodeRaw_def
        putUvarint.simps readVarint_def)
  with codec_refuses [of storedDeflate "[]" storedInflate "1 # storedDeflate [0, 0]" "[]"]
  show ?thesis by (auto simp: unat_eq_0)
qed

end
