(* ===== verification/GoFloat.thy ===== *)
theory GoFloat
  imports Complex_Main Prelude
begin

text \<open>
  The \<^verbatim>\<open>float64\<close> of the Go sources: a double is its 64-bit pattern, as
  \<^verbatim>\<open>math.Float64bits\<close> gives it, and the operations the gateway uses (conversion from
  integers and from \<^verbatim>\<open>float32\<close>, multiplication, addition, subtraction, division,
  \<^verbatim>\<open>math.Ceil\<close>, comparison, conversion to \<^verbatim>\<open>int64\<close>) round to nearest, ties to
  even, as IEEE 754 and Go prescribe. Every operation is executable: it computes an exact ratio of
  naturals and rounds it once. The results are that a pattern of an integer of at most 53 bits is
  exact, and that widening a \<^verbatim>\<open>float32\<close> is exact.

  A NaN result is the pattern of \<^verbatim>\<open>math.NaN()\<close>; the hardware may choose another
  payload. Converting a double outside the range of \<^verbatim>\<open>int64\<close> is implementation-specific
  in Go, so it gives \<open>None\<close> here.
\<close>

type_synonym float64 = "64 word"
type_synonym float32 = "32 word"

section \<open>Fields\<close>

definition f64_neg :: "float64 \<Rightarrow> bool" where "f64_neg w = bit w 63"
definition f64_mag :: "float64 \<Rightarrow> nat" where "f64_mag w = unat w mod 2 ^ 63"
definition f64_exp :: "float64 \<Rightarrow> nat" where "f64_exp w = f64_mag w div 2 ^ 52"
definition f64_frac :: "float64 \<Rightarrow> nat" where "f64_frac w = f64_mag w mod 2 ^ 52"

definition f64_inf_mag :: nat where "f64_inf_mag = 2047 * 2 ^ 52"

definition f64_is_nan :: "float64 \<Rightarrow> bool" where "f64_is_nan w \<longleftrightarrow> f64_mag w > f64_inf_mag"
definition f64_is_inf :: "float64 \<Rightarrow> bool" where "f64_is_inf w \<longleftrightarrow> f64_mag w = f64_inf_mag"
definition f64_finite :: "float64 \<Rightarrow> bool" where "f64_finite w \<longleftrightarrow> f64_mag w < f64_inf_mag"

definition f64_nan :: float64 where "f64_nan = 0x7FF8000000000001"

text \<open>A finite double is \<open>mant * 2 ^ scale\<close>, as a ratio of naturals \<open>num / den\<close>.\<close>

definition f64_mant :: "float64 \<Rightarrow> nat" where
  "f64_mant w = (if f64_exp w = 0 then f64_frac w else f64_frac w + 2 ^ 52)"

definition f64_scale :: "float64 \<Rightarrow> int" where
  "f64_scale w = (if f64_exp w = 0 then - 1074 else int (f64_exp w) - 1075)"

definition f64_num :: "float64 \<Rightarrow> nat" where
  "f64_num w = f64_mant w * 2 ^ nat (f64_scale w)"

definition f64_den :: "float64 \<Rightarrow> nat" where
  "f64_den w = 2 ^ nat (- f64_scale w)"

definition f64_real :: "float64 \<Rightarrow> real" where
  "f64_real w = (if f64_neg w then - 1 else 1) * (real (f64_num w) / real (f64_den w))"

section \<open>Rounding\<close>

fun bitLen :: "nat \<Rightarrow> nat" where
  "bitLen n = (if n = 0 then 0 else Suc (bitLen (n div 2)))"

declare bitLen.simps [simp del]

text \<open>\<open>flog2 p q\<close> is the integer part of the binary logarithm of \<open>p / q\<close>.\<close>

definition pow2_le :: "int \<Rightarrow> nat \<Rightarrow> nat \<Rightarrow> bool" where
  "pow2_le d p q \<longleftrightarrow> q * 2 ^ nat d \<le> p * 2 ^ nat (- d)"

definition flog2 :: "nat \<Rightarrow> nat \<Rightarrow> int" where
  "flog2 p q = (let d = int (bitLen p) - int (bitLen q) in if pow2_le d p q then d else d - 1)"

definition f64_pack :: "bool \<Rightarrow> nat \<Rightarrow> float64" where
  "f64_pack neg mag = word_of_nat (mag + (if neg then 2 ^ 63 else 0))"

definition f64_exponent :: "nat \<Rightarrow> nat \<Rightarrow> int" where
  "f64_exponent p q = max (flog2 p q) (- 1022)"

definition f64_round_mag :: "nat \<Rightarrow> nat \<Rightarrow> nat" where
  "f64_round_mag p q =
     (if p = 0 then 0
      else let e = f64_exponent p q;
               num = p * 2 ^ nat (52 - e);
               den = q * 2 ^ nat (e - 52);
               m = num div den;
               r = num mod den;
               m' = (if 2 * r > den \<or> (2 * r = den \<and> odd m) then m + 1 else m)
           in min (nat (e + 1022) * 2 ^ 52 + m') f64_inf_mag)"

definition f64_round :: "bool \<Rightarrow> nat \<Rightarrow> nat \<Rightarrow> float64" where
  "f64_round neg p q = f64_pack neg (f64_round_mag p q)"

section \<open>Operations\<close>

definition f64_of_int :: "int \<Rightarrow> float64" where
  "f64_of_int i = f64_round (i < 0) (nat \<bar>i\<bar>) 1"

definition f64_mul :: "float64 \<Rightarrow> float64 \<Rightarrow> float64" where
  "f64_mul a b =
     (let neg = (f64_neg a \<noteq> f64_neg b) in
      if f64_is_nan a \<or> f64_is_nan b then f64_nan
      else if f64_is_inf a \<or> f64_is_inf b
      then (if f64_mag a = 0 \<or> f64_mag b = 0 then f64_nan else f64_pack neg f64_inf_mag)
      else f64_round neg (f64_num a * f64_num b) (f64_den a * f64_den b))"

definition f64_div :: "float64 \<Rightarrow> float64 \<Rightarrow> float64" where
  "f64_div a b =
     (let neg = (f64_neg a \<noteq> f64_neg b) in
      if f64_is_nan a \<or> f64_is_nan b then f64_nan
      else if f64_is_inf a then (if f64_is_inf b then f64_nan else f64_pack neg f64_inf_mag)
      else if f64_is_inf b then f64_pack neg 0
      else if f64_mag b = 0 then (if f64_mag a = 0 then f64_nan else f64_pack neg f64_inf_mag)
      else f64_round neg (f64_num a * f64_den b) (f64_den a * f64_num b))"

definition f64_signed :: "float64 \<Rightarrow> int" where
  "f64_signed w = (if f64_neg w then - int (f64_num w) else int (f64_num w))"

definition f64_add :: "float64 \<Rightarrow> float64 \<Rightarrow> float64" where
  "f64_add a b =
     (if f64_is_nan a \<or> f64_is_nan b then f64_nan
      else if f64_is_inf a
      then (if f64_is_inf b \<and> f64_neg a \<noteq> f64_neg b then f64_nan else a)
      else if f64_is_inf b then b
      else let s = f64_signed a * int (f64_den b) + f64_signed b * int (f64_den a)
           in if s = 0 then f64_pack (f64_neg a \<and> f64_neg b) 0
              else f64_round (s < 0) (nat \<bar>s\<bar>) (f64_den a * f64_den b))"

definition f64_uminus :: "float64 \<Rightarrow> float64" where
  "f64_uminus a = f64_pack (\<not> f64_neg a) (f64_mag a)"

definition f64_sub :: "float64 \<Rightarrow> float64 \<Rightarrow> float64" where
  "f64_sub a b = (if f64_is_nan b then f64_nan else f64_add a (f64_uminus b))"

definition f64_ceil :: "float64 \<Rightarrow> float64" where
  "f64_ceil a =
     (if \<not> f64_finite a then a
      else let q = f64_num a div f64_den a; r = f64_num a mod f64_den a
           in f64_round (f64_neg a) (if \<not> f64_neg a \<and> r \<noteq> 0 then q + 1 else q) 1)"

definition f64_to_int64 :: "float64 \<Rightarrow> int option" where
  "f64_to_int64 a =
     (if \<not> f64_finite a then None
      else let q = int (f64_num a div f64_den a); v = (if f64_neg a then - q else q)
           in if - (2 ^ 63) \<le> v \<and> v < 2 ^ 63 then Some v else None)"

text \<open>Sign and magnitude as one integer: the order of the doubles that are not NaN.\<close>

definition f64_key :: "float64 \<Rightarrow> int" where
  "f64_key w = (if f64_neg w then - int (f64_mag w) else int (f64_mag w))"

definition f64_le :: "float64 \<Rightarrow> float64 \<Rightarrow> bool" where
  "f64_le a b \<longleftrightarrow> \<not> f64_is_nan a \<and> \<not> f64_is_nan b \<and> f64_key a \<le> f64_key b"

definition f64_lt :: "float64 \<Rightarrow> float64 \<Rightarrow> bool" where
  "f64_lt a b \<longleftrightarrow> \<not> f64_is_nan a \<and> \<not> f64_is_nan b \<and> f64_key a < f64_key b"

definition f64_eq :: "float64 \<Rightarrow> float64 \<Rightarrow> bool" where
  "f64_eq a b \<longleftrightarrow> \<not> f64_is_nan a \<and> \<not> f64_is_nan b \<and> f64_key a = f64_key b"

section \<open>Single precision\<close>

definition f32_neg :: "float32 \<Rightarrow> bool" where "f32_neg w = bit w 31"
definition f32_mag :: "float32 \<Rightarrow> nat" where "f32_mag w = unat w mod 2 ^ 31"
definition f32_exp :: "float32 \<Rightarrow> nat" where "f32_exp w = f32_mag w div 2 ^ 23"
definition f32_frac :: "float32 \<Rightarrow> nat" where "f32_frac w = f32_mag w mod 2 ^ 23"

definition f32_mant :: "float32 \<Rightarrow> nat" where
  "f32_mant w = (if f32_exp w = 0 then f32_frac w else f32_frac w + 2 ^ 23)"

definition f32_scale :: "float32 \<Rightarrow> int" where
  "f32_scale w = (if f32_exp w = 0 then - 149 else int (f32_exp w) - 150)"

definition f32_finite :: "float32 \<Rightarrow> bool" where "f32_finite w \<longleftrightarrow> f32_exp w < 255"

definition f32_real :: "float32 \<Rightarrow> real" where
  "f32_real w = (if f32_neg w then - 1 else 1) *
     (real (f32_mant w * 2 ^ nat (f32_scale w)) / real (2 ^ nat (- f32_scale w)))"

text \<open>\<^verbatim>\<open>float64(f)\<close> for a \<^verbatim>\<open>float32\<close>: a signalling NaN becomes quiet.\<close>

definition f64_of_f32 :: "float32 \<Rightarrow> float64" where
  "f64_of_f32 w =
     (if f32_finite w
      then f64_round (f32_neg w) (f32_mant w * 2 ^ nat (f32_scale w)) (2 ^ nat (- f32_scale w))
      else if f32_frac w = 0 then f64_pack (f32_neg w) f64_inf_mag
      else f64_pack (f32_neg w)
             (f64_inf_mag + (f32_frac w * 2 ^ 29 mod 2 ^ 51) + 2 ^ 51))"

lemmas f64_field_defs = f64_neg_def f64_mag_def f64_exp_def f64_frac_def f64_inf_mag_def
  f64_is_nan_def f64_is_inf_def f64_finite_def f64_nan_def f64_mant_def f64_scale_def f64_num_def
  f64_den_def f64_signed_def f64_key_def

lemmas f64_round_defs = f64_round_def f64_round_mag_def f64_exponent_def flog2_def pow2_le_def
  f64_pack_def

lemmas f64_op_defs = f64_of_int_def f64_mul_def f64_div_def f64_add_def f64_uminus_def f64_sub_def
  f64_ceil_def f64_to_int64_def f64_le_def f64_lt_def f64_eq_def f64_of_f32_def
  f32_neg_def f32_mag_def f32_exp_def f32_frac_def f32_mant_def f32_scale_def f32_finite_def

lemmas f64_eval = f64_field_defs f64_round_defs f64_op_defs bitLen.simps Let_def

section \<open>The value of a packed double\<close>

lemma pow2_ratio: "(2 ^ nat a :: real) / 2 ^ nat (- a) = 2 powi a"
  by (cases "0 \<le> a") (auto simp: power_int_def field_simps)

lemma f64_real_powi:
  "f64_real w = (if f64_neg w then - 1 else 1) * (real (f64_mant w) * 2 powi f64_scale w)"
  by (simp add: f64_real_def f64_num_def f64_den_def flip: pow2_ratio)

lemma f64_pack_neg: "mag < 2 ^ 63 \<Longrightarrow> f64_neg (f64_pack neg mag) = neg"
proof -
  assume a: "mag < 2 ^ 63"
  have "unat (f64_pack neg mag) = mag + (if neg then 2 ^ 63 else 0)"
    unfolding f64_pack_def using a by (intro unat_of_nat_small) simp
  moreover have "bit (f64_pack neg mag) 63 = bit (unat (f64_pack neg mag)) 63"
    by (simp add: bit_unsigned_iff)
  then have "bit (f64_pack neg mag) 63 = odd (unat (f64_pack neg mag) div 2 ^ 63)"
    by (simp only: bit_iff_odd)
  ultimately show ?thesis using a by (simp add: f64_neg_def)
qed

lemma f64_pack_mag: "mag < 2 ^ 63 \<Longrightarrow> f64_mag (f64_pack neg mag) = mag"
proof -
  assume a: "mag < 2 ^ 63"
  have "unat (f64_pack neg mag) = mag + (if neg then 2 ^ 63 else 0)"
    unfolding f64_pack_def using a by (intro unat_of_nat_small) simp
  with a show ?thesis by (simp add: f64_mag_def)
qed

lemma f64_real_pack:
  assumes "E * 2 ^ 52 + m < f64_inf_mag" and "m \<le> 2 ^ 53" and "2 ^ 52 \<le> m \<or> E = 0"
  shows "f64_real (f64_pack neg (E * 2 ^ 52 + m)) =
    (if neg then - 1 else 1) * (real m * 2 powi (int E - 1074))"
proof -
  let ?w = "f64_pack neg (E * 2 ^ 52 + m)"
  have lt: "E * 2 ^ 52 + m < 2 ^ 63" using assms(1) by (simp add: f64_inf_mag_def)
  note f = f64_pack_mag [OF lt, of neg] f64_pack_neg [OF lt, of neg]
  consider (sub) "m < 2 ^ 52" "E = 0" | (norm) "2 ^ 52 \<le> m" "m < 2 ^ 53" | (carry) "m = 2 ^ 53"
    using assms(2,3) by linarith
  then have "real (f64_mant ?w) * 2 powi f64_scale ?w = real m * 2 powi (int E - 1074)"
  proof cases
    case sub
    have "f64_exp ?w = 0" "f64_frac ?w = m"
      using sub f(1) by (simp_all add: f64_exp_def f64_frac_def)
    with sub show ?thesis by (simp add: f64_mant_def f64_scale_def)
  next
    case norm
    then obtain k where k: "m = 2 ^ 52 + k" "k < 2 ^ 52" by (auto simp: le_iff_add)
    have "f64_mag ?w = k + (E + 1) * 2 ^ 52" using k f(1) by simp
    then have "f64_exp ?w = E + 1" "f64_frac ?w = k"
      using k(2) by (simp_all add: f64_exp_def f64_frac_def del: mult_Suc)
    with k show ?thesis by (simp add: f64_mant_def f64_scale_def)
  next
    case carry
    have "f64_mag ?w = (E + 2) * 2 ^ 52" using carry f(1) by simp
    then have "f64_exp ?w = E + 2" "f64_frac ?w = 0"
      by (simp_all add: f64_exp_def f64_frac_def del: mult_Suc)
    moreover have "(2 :: real) powi (int E - 1073) = 2 powi (int E - 1074) * 2"
      using power_int_add [of "2 :: real" "int E - 1074" 1] by simp
    ultimately show ?thesis using carry by (simp add: f64_mant_def f64_scale_def)
  qed
  then show ?thesis by (simp only: f64_real_powi f)
qed

section \<open>The exponent\<close>

lemma bitLen_bounds: "0 < n \<Longrightarrow> n < 2 ^ bitLen n \<and> 2 ^ bitLen n \<le> 2 * n"
proof (induction n rule: bitLen.induct)
  case (1 n)
  show ?case
  proof (cases "n div 2 = 0")
    case True
    then have "n = 1" using "1.prems" by linarith
    then show ?thesis by (simp add: bitLen.simps)
  next
    case False
    with "1.prems" "1.IH" have "n div 2 < 2 ^ bitLen (n div 2)" "2 ^ bitLen (n div 2) \<le> 2 * (n div 2)"
      by auto
    with "1.prems" show ?thesis by (simp add: bitLen.simps [of n]) linarith
  qed
qed

lemma real_bitLen_bounds:
  assumes "0 < n"
  shows "real n < 2 ^ bitLen n" and "2 ^ bitLen n \<le> 2 * real n"
proof -
  have "real n < real (2 ^ bitLen n)" using bitLen_bounds [OF assms] by (simp only: of_nat_less_iff)
  then show "real n < 2 ^ bitLen n" by simp
  have "real (2 ^ bitLen n) \<le> real (2 * n)"
    using bitLen_bounds [OF assms] by (simp only: of_nat_le_iff)
  then show "2 ^ bitLen n \<le> 2 * real n" by simp
qed

lemma real_div_pow2: "(2 :: real) ^ a / 2 ^ b = 2 powi (int a - int b)"
  by (simp add: power_int_diff)

lemma flog2_bounds:
  assumes "0 < p" and "0 < q"
  shows "2 powi flog2 p q \<le> real p / real q" and "real p / real q < 2 powi (flog2 p q + 1)"
proof -
  let ?d = "int (bitLen p) - int (bitLen q)"
  have p: "real p < 2 ^ bitLen p" "2 ^ bitLen p \<le> 2 * real p"
    using real_bitLen_bounds [OF assms(1)] by auto
  have q: "real q < 2 ^ bitLen q" "2 ^ bitLen q \<le> 2 * real q"
    using real_bitLen_bounds [OF assms(2)] by auto
  have up: "real p / real q < 2 * 2 powi ?d"
  proof -
    have "real p * 2 ^ bitLen q < 2 ^ bitLen p * (2 * real q)"
      using p(1) q(2) assms by (intro mult_less_le_imp_less) auto
    then show ?thesis using assms by (simp add: field_simps flip: real_div_pow2)
  qed
  have low: "2 powi ?d / 2 \<le> real p / real q"
  proof -
    have "2 ^ bitLen p * real q \<le> (2 * real p) * 2 ^ bitLen q"
      using p(2) q(1) by (intro mult_mono) auto
    then show ?thesis using assms by (simp add: field_simps flip: real_div_pow2)
  qed
  have le: "pow2_le ?d p q \<longleftrightarrow> 2 powi ?d \<le> real p / real q"
  proof -
    have "pow2_le ?d p q \<longleftrightarrow> real q * 2 ^ nat ?d \<le> real p * 2 ^ nat (- ?d)"
      unfolding pow2_le_def
      using of_nat_le_iff [where 'a = real, of "q * 2 ^ nat ?d" "p * 2 ^ nat (- ?d)"] by simp
    then show ?thesis using assms(2) by (simp add: field_simps flip: pow2_ratio)
  qed
  have step: "(2 :: real) powi (?d - 1) = 2 powi ?d / 2" "(2 :: real) powi (?d + 1) = 2 powi ?d * 2"
    using power_int_diff [of "2 :: real" ?d 1] power_int_add [of "2 :: real" ?d 1] by auto
  show "2 powi flog2 p q \<le> real p / real q"
    using le low by (simp add: flog2_def Let_def step(1) del: of_int_diff)
  show "real p / real q < 2 powi (flog2 p q + 1)"
    using le up by (simp add: flog2_def Let_def step(2))
qed

section \<open>Exact results\<close>

text \<open>
  A ratio that is a dyadic number \<open>M * 2 ^ k\<close> with at most 53 significant bits, not below the
  subnormal range and not above the largest double, is rounded to itself.
\<close>

lemma scaled_ratio:
  assumes "0 < q"
  shows "real (p * 2 ^ nat a) / real (q * 2 ^ nat (- a)) = real p / real q * 2 powi a"
  using assms by (simp add: field_simps flip: pow2_ratio)

lemma powi2_less: "(2 :: real) powi a < 2 powi b \<Longrightarrow> a < b" for a b :: int
  using power_int_increasing [of b a "2 :: real"] by (cases "b \<le> a") auto

text \<open>The exponent of a quotient that is a multiple \<open>M\<close> of a power of two and fits the format.\<close>

lemma f64_exponent_bounds:
  assumes pq: "0 < p" "0 < q" and v: "real p / real q = real M * 2 powi k"
    and M: "M < 2 ^ 53" and k: "- 1074 \<le> k" and top: "real p / real q < 2 powi 1024"
  shows "- 1022 \<le> f64_exponent p q" "f64_exponent p q \<le> 1023" "0 \<le> k + 52 - f64_exponent p q"
proof -
  let ?f = "flog2 p q"
  note fl = flog2_bounds [OF pq]
  have "?f < 1024" using fl(1) top by (intro powi2_less) linarith
  then show "- 1022 \<le> f64_exponent p q" "f64_exponent p q \<le> 1023" by (auto simp: f64_exponent_def)
  have "2 powi ?f \<le> real M * 2 powi k" using fl(1) v by simp
  also have "\<dots> < 2 powi 53 * 2 powi k"
    using M by (intro mult_strict_right_mono) (simp_all flip: of_nat_less_iff)
  also have "\<dots> = 2 powi (53 + k)" by (simp add: power_int_add)
  finally have "?f < 53 + k" by (rule powi2_less)
  then show "0 \<le> k + 52 - f64_exponent p q" using k by (auto simp: f64_exponent_def)
qed

text \<open>Scaled by its exponent such a quotient is an integer: the rounding has nothing to round.\<close>

lemma f64_scaled_integer:
  fixes p q M :: nat and k :: int
  assumes pq: "0 < p" "0 < q" and v: "real p / real q = real M * 2 powi k" and j: "0 \<le> k + 52 - e"
  defines "N \<equiv> M * 2 ^ nat (k + 52 - e)"
  shows "p * 2 ^ nat (52 - e) = N * (q * 2 ^ nat (e - 52))" "real N * 2 powi (e - 52) = real p / real q"
proof -
  let ?num = "p * 2 ^ nat (52 - e)" and ?den = "q * 2 ^ nat (e - 52)"
  have "real ?num / real ?den = real M * (2 powi k * 2 powi (52 - e))"
    using scaled_ratio [OF pq(2), of p "52 - e"] v by simp
  also have "(2 :: real) powi k * 2 powi (52 - e) = 2 powi (k + 52 - e)"
    using power_int_add [of "2 :: real" k "52 - e"] by (simp add: algebra_simps)
  also have "\<dots> = 2 ^ nat (k + 52 - e)" using j by (simp add: power_int_def)
  finally have rN: "real ?num / real ?den = real N" by (simp add: N_def)
  have "0 < ?den" using pq by simp
  then have "real ?num = real (N * ?den)" using rN by (simp add: field_simps)
  then show "?num = N * ?den" by (simp only: of_nat_eq_iff)
  show "real N * 2 powi (e - 52) = real p / real q"
    using rN scaled_ratio [OF pq(2), of p "52 - e"] power_int_add [of "2 :: real" "52 - e" "e - 52"] by simp
qed

text \<open>That integer has 53 bits, and its leading bit is set unless the number is subnormal.\<close>

lemma f64_significand_bounds:
  fixes p q N :: nat
  assumes pq: "0 < p" "0 < q" and N: "real N * 2 powi (f64_exponent p q - 52) = real p / real q"
  shows "N < 2 ^ 53" "2 ^ 52 \<le> N \<or> nat (f64_exponent p q + 1022) = 0"
proof -
  let ?e = "f64_exponent p q" and ?f = "flog2 p q"
  note fl = flog2_bounds [OF pq]
  have "(2 :: real) powi (?f + 1) \<le> 2 powi (?e + 1)"
    by (intro power_int_increasing) (simp_all add: f64_exponent_def)
  then have "real N * 2 powi (?e - 52) < 2 powi (?e + 1)" using N fl(2) by linarith
  also have "(2 :: real) powi (?e + 1) = 2 powi 53 * 2 powi (?e - 52)"
    using power_int_add [of "2 :: real" 53 "?e - 52"] by (simp add: add.commute)
  finally have "real N < 2 ^ 53" by simp
  then show "N < 2 ^ 53" by (simp flip: of_nat_less_iff)
  show "2 ^ 52 \<le> N \<or> nat (?e + 1022) = 0"
  proof (cases "?e = ?f")
    case True
    have "2 powi 52 * 2 powi (?e - 52) \<le> real N * 2 powi (?e - 52)"
      using fl(1) True N power_int_add [of "2 :: real" 52 "?e - 52"] by simp
    then have "real (2 ^ 52) \<le> real N" by simp
    then have "2 ^ 52 \<le> N" by (simp only: of_nat_le_iff)
    then show ?thesis ..
  next
    case False
    then show ?thesis by (auto simp: f64_exponent_def max_def split: if_splits)
  qed
qed

lemma f64_round_exact:
  assumes pq: "0 < p" "0 < q" and v: "real p / real q = real M * 2 powi k"
    and M: "M < 2 ^ 53" and k: "- 1074 \<le> k" and top: "real p / real q < 2 powi 1024"
  shows "f64_real (f64_round neg p q) = (if neg then - 1 else 1) * (real p / real q)"
    and "f64_finite (f64_round neg p q)"
proof -
  let ?e = "f64_exponent p q"
  note e = f64_exponent_bounds [OF assms]
  define N where "N = M * 2 ^ nat (k + 52 - ?e)"
  note N = f64_scaled_integer [OF pq v e(3), folded N_def]
  note bits = f64_significand_bounds [OF pq N(2)]
  have "nat (?e + 1022) * 2 ^ 52 \<le> 2045 * 2 ^ 52" using e by simp
  with bits(1) have small: "nat (?e + 1022) * 2 ^ 52 + N < f64_inf_mag" by (simp add: f64_inf_mag_def)
  have "0 < q * 2 ^ nat (?e - 52)" using pq by simp
  then have "f64_round_mag p q = nat (?e + 1022) * 2 ^ 52 + N"
    using pq small by (simp add: f64_round_mag_def Let_def N(1))
  then have r: "f64_round neg p q = f64_pack neg (nat (?e + 1022) * 2 ^ 52 + N)"
    by (simp add: f64_round_def)
  have "int (nat (?e + 1022)) - 1074 = ?e - 52" using e by simp
  then show "f64_real (f64_round neg p q) = (if neg then - 1 else 1) * (real p / real q)"
    using f64_real_pack [OF small _ bits(2), of neg] bits(1) N(2) r by simp
  show "f64_finite (f64_round neg p q)"
    using small f64_pack_mag [of "nat (?e + 1022) * 2 ^ 52 + N" neg]
    by (simp add: r f64_finite_def f64_inf_mag_def)
qed

lemma f64_round_zero: "f64_round neg 0 q = f64_pack neg 0"
  by (simp add: f64_round_def f64_round_mag_def)

lemma f64_zero_pack: "f64_real (f64_pack neg 0) = 0" "f64_finite (f64_pack neg 0)"
  using f64_real_pack [of 0 0 neg] f64_pack_mag [of 0 neg]
  by (simp_all add: f64_inf_mag_def f64_finite_def)

lemma f64_of_int_exact:
  assumes "\<bar>i\<bar> < 2 ^ 53"
  shows "f64_real (f64_of_int i) = real_of_int i" and "f64_finite (f64_of_int i)"
proof -
  let ?n = "nat \<bar>i\<bar>"
  have "f64_real (f64_of_int i) = real_of_int i \<and> f64_finite (f64_of_int i)"
  proof (cases "i = 0")
    case True
    then show ?thesis by (simp add: f64_of_int_def f64_round_zero f64_zero_pack)
  next
    case False
    have n: "0 < ?n" "?n < 2 ^ 53" using False assms by auto
    have "real ?n < 2 ^ 53" using n(2) by (simp flip: of_nat_less_iff)
    also have "(2 :: real) ^ 53 < 2 powi 1024" by simp
    finally have "real ?n / real 1 < 2 powi 1024" by simp
    with n show ?thesis
      using f64_round_exact [of ?n 1 ?n 0 "i < 0"] by (auto simp: f64_of_int_def)
  qed
  then show "f64_real (f64_of_int i) = real_of_int i" and "f64_finite (f64_of_int i)" by auto
qed

lemma f32_bounds: "f32_mant w < 2 ^ 24" "- 149 \<le> f32_scale w" "f32_finite w \<Longrightarrow> f32_scale w \<le> 104"
proof -
  have "f32_frac w < 2 ^ 23" by (simp add: f32_frac_def)
  then show "f32_mant w < 2 ^ 24" by (simp add: f32_mant_def)
  show "- 149 \<le> f32_scale w" by (simp add: f32_scale_def)
  show "f32_finite w \<Longrightarrow> f32_scale w \<le> 104" by (auto simp: f32_finite_def f32_scale_def)
qed

lemma f64_of_f32_exact:
  assumes "f32_finite w"
  shows "f64_real (f64_of_f32 w) = f32_real w" and "f64_finite (f64_of_f32 w)"
proof -
  let ?p = "f32_mant w * 2 ^ nat (f32_scale w)" and ?q = "2 ^ nat (- f32_scale w) :: nat"
  note b = f32_bounds [of w] f32_bounds(3) [OF assms]
  have v: "real ?p / real ?q = real (f32_mant w) * 2 powi f32_scale w"
    by (simp flip: pow2_ratio)
  have "f64_real (f64_of_f32 w) = f32_real w \<and> f64_finite (f64_of_f32 w)"
  proof (cases "f32_mant w = 0")
    case True
    then show ?thesis
      using assms by (simp add: f64_of_f32_def f32_real_def f64_round_zero f64_zero_pack)
  next
    case False
    have "real (f32_mant w) < 2 ^ 24" using b(1) by (simp flip: of_nat_less_iff)
    then have "real (f32_mant w) * 2 powi f32_scale w < 2 ^ 24 * 2 powi f32_scale w" by simp
    then have "real ?p / real ?q < 2 ^ 24 * 2 powi f32_scale w" by (simp only: v)
    also have "\<dots> \<le> 2 ^ 24 * 2 powi 104"
      using b(4) by (intro mult_left_mono power_int_increasing) auto
    also have "\<dots> < 2 powi 1024" by simp
    finally have "real ?p / real ?q < 2 powi 1024" .
    moreover have "f32_mant w < 2 ^ 53" using b(1) by simp
    ultimately show ?thesis
      using f64_round_exact [OF _ _ v, of "f32_neg w"] False b(2) assms
      by (simp add: f64_of_f32_def f32_real_def)
  qed
  then show "f64_real (f64_of_f32 w) = f32_real w" and "f64_finite (f64_of_f32 w)" by auto
qed

section \<open>Values that are not finite\<close>

lemma f64_nan_not_finite: "\<not> f64_finite f64_nan"
  by (simp add: f64_finite_def f64_nan_def f64_mag_def f64_inf_mag_def)

lemma f64_pack_not_finite: "f64_inf_mag \<le> mag \<Longrightarrow> mag < 2 ^ 63 \<Longrightarrow> \<not> f64_finite (f64_pack neg mag)"
  by (simp add: f64_finite_def f64_pack_mag)

lemma f64_inf_not_finite: "\<not> f64_finite (f64_pack neg f64_inf_mag)"
  by (rule f64_pack_not_finite) (simp_all add: f64_inf_mag_def)

lemma f64_mul_not_finite: "\<not> f64_finite a \<Longrightarrow> \<not> f64_finite (f64_mul a b)"
  by (auto simp: f64_mul_def f64_nan_not_finite f64_inf_not_finite Let_def f64_finite_def f64_is_nan_def f64_is_inf_def
      f64_pack_mag f64_inf_mag_def)
    (simp_all add: f64_nan_def f64_mag_def)

lemma f64_add_not_finite: "\<not> f64_finite a \<Longrightarrow> \<not> f64_finite (f64_add a b)"
  using f64_nan_not_finite
  by (auto simp: f64_add_def f64_finite_def f64_is_nan_def f64_is_inf_def Let_def)

text \<open>Infinities and NaNs of single precision stay so in double precision.\<close>

lemma f64_of_f32_not_finite:
  assumes "\<not> f32_finite w"
  shows "\<not> f64_finite (f64_of_f32 w)"
proof (cases "f32_frac w = 0")
  case True
  with assms show ?thesis by (simp add: f64_of_f32_def f64_inf_not_finite)
next
  case False
  let ?m = "f64_inf_mag + (f32_frac w * 2 ^ 29 mod 2 ^ 51) + 2 ^ 51"
  have "f32_frac w * 2 ^ 29 mod 2 ^ 51 < 2 ^ 51" by simp
  moreover have "f64_inf_mag + x + 2 ^ 51 < 2 ^ 63" if "x < 2 ^ 51" for x :: nat using that by (simp add: f64_inf_mag_def)
  ultimately have "?m < 2 ^ 63" by blast
  then have "\<not> f64_finite (f64_pack (f32_neg w) ?m)" by (intro f64_pack_not_finite) simp_all
  with assms False show ?thesis unfolding f64_of_f32_def by (simp only: if_False not_False_eq_True)
qed

end
