(* ===== verification/QueueStore.thy ===== *)
theory QueueStore
  imports ChunkCodec GoFloat
begin

text \<open>
  The Store & Forward buffer, \<^verbatim>\<open>src/internal/queue/store.go\<close>: readings are buffered in
  memory, written as compressed chunk rows of \<^verbatim>\<open>queue.db\<close>, read back in batches and deleted
  when the server acknowledges them.

  The database file is the record \<open>queue_db\<close>: the \<^verbatim>\<open>chunk\<close> table in primary-key order, the
  AUTOINCREMENT high-water mark that SQLite keeps in \<^verbatim>\<open>sqlite_sequence\<close>, the integer rows of
  \<^verbatim>\<open>meta\<close> and its \<^verbatim>\<open>stream_id\<close> row. Every operation that runs SQL takes a Boolean per
  statement or transaction saying whether SQLite carries it out; a transaction that fails at any
  point is rolled back and leaves the file as it was. Counters are \<open>int\<close> (the code keeps them in
  \<^verbatim>\<open>int64\<close>, far from its limits); timestamps are milliseconds, \<open>int\<close>, obtained from the
  64-bit \<^verbatim>\<open>UnixMilli\<close>.

  The results: the counters of \<^verbatim>\<open>meta\<close> and of the process agree with the table after every
  operation; an operation never invents or silently loses a reading; a flush moves readings without
  reordering them; a batch is a prefix of the table and an acknowledgement deletes a prefix; a
  sequence number is never used twice.
\<close>

section \<open>Data\<close>

record pendingChunk =
  pc_firstTs :: int
  pc_lastTs :: int
  pc_n :: int
  pc_data :: "byte list"

record chunk_row =
  cr_seq :: int
  cr_first_ts :: int
  cr_last_ts :: int
  cr_n :: int
  cr_data :: "byte list"

record queue_db =
  db_chunk :: "chunk_row list"
  db_sequence :: int
  db_meta :: "string \<rightharpoonup> int"
  db_stream_id :: "string option"

record chunk =
  ck_Seq :: int
  ck_Readings :: "reading list"

record queue_options =
  opt_MaxBytes :: int
  opt_MinFreePercent :: float64
  opt_FlushInterval :: duration
  opt_MaintenanceInterval :: duration
  opt_MaxUnflushedChunks :: int
  opt_DiskUsage :: bool

record rateSample =
  rs_at :: gotime
  rs_total :: int

record store =
  st_db :: queue_db
  st_opts :: queue_options
  st_streamID :: string
  st_appended :: int
  st_buf :: "reading list"
  st_unflushed :: "pendingChunk list"
  st_pendingChunks :: int
  st_pendingReadings :: int
  st_oldestTs :: int
  st_newestTs :: int
  st_dbBytes :: int
  st_evicted :: int
  st_dropped :: int
  st_rates :: "rateSample list"
  st_writtenBytes :: int
  st_writtenReadings :: int

record queue_stats =
  qs_StreamID :: string
  qs_PendingChunks :: int
  qs_PendingReadings :: int
  qs_BufferedReadings :: int
  qs_OldestPending :: "gotime option"
  qs_NewestPending :: "gotime option"
  qs_DBBytes :: int
  qs_MaxBytes :: int
  qs_EvictedReadings :: int
  qs_DroppedReadings :: int
  qs_WriteRatePerSec :: float64
  qs_AvgBytesPerReading :: float64

datatype queue_err = InitFailed | StoreStreamID | ReadStreamID | SqlError | WriteChunks queue_err

definition defaultMaxBytes :: int where "defaultMaxBytes = 2 ^ 30"
definition defaultMinFreePercent :: int where "defaultMinFreePercent = 10"
definition defaultFlushInterval :: duration where "defaultFlushInterval = 2 * nanosPerSecond"
definition defaultMaintenanceInterval :: duration where "defaultMaintenanceInterval = 30 * nanosPerSecond"
definition defaultMaxUnflushedChunks :: int where "defaultMaxUnflushedChunks = 150"
definition maxEvictChunksPerPass :: int where "maxEvictChunksPerPass = 20000"
definition readBatchScanLimit :: nat where "readBatchScanLimit = 500"
definition rateWindow :: nat where "rateWindow = 16"

section \<open>The meta counters\<close>

definition metaInt :: "bool \<Rightarrow> queue_db \<Rightarrow> string \<Rightarrow> int" where
  "metaInt io db key = (if io then (case db_meta db key of None \<Rightarrow> 0 | Some v \<Rightarrow> v) else 0)"

definition addMeta :: "string \<Rightarrow> int \<Rightarrow> queue_db \<Rightarrow> queue_db" where
  "addMeta key delta db =
     db\<lparr>db_meta := (db_meta db)(key \<mapsto> (case db_meta db key of None \<Rightarrow> delta | Some v \<Rightarrow> v + delta))\<rparr>"

section \<open>Bounds and size\<close>

definition refreshBounds :: "bool \<Rightarrow> store \<Rightarrow> store" where
  "refreshBounds io s =
     (if \<not> io then s
      else let rows = db_chunk (st_db s) in
        s\<lparr>st_oldestTs := (if rows = [] then 0 else cr_first_ts (hd rows)),
          st_newestTs := (if rows = [] then 0 else cr_last_ts (last rows))\<rparr>)"

text \<open>\<^verbatim>\<open>PRAGMA page_count\<close> and \<^verbatim>\<open>PRAGMA page_size\<close>: \<open>None\<close> when one of them fails.\<close>

definition refreshSize :: "(int \<times> int) option \<Rightarrow> store \<Rightarrow> store" where
  "refreshSize pragma s =
     (case pragma of None \<Rightarrow> s | Some (pages, pageSize) \<Rightarrow> s\<lparr>st_dbBytes := pages * pageSize\<rparr>)"

section \<open>Open\<close>

definition withDefaults :: "queue_options \<Rightarrow> queue_options" where
  "withDefaults opts =
     \<lparr>opt_MaxBytes = (if opt_MaxBytes opts \<le> 0 then defaultMaxBytes else opt_MaxBytes opts),
      opt_MinFreePercent =
        (if f64_le (opt_MinFreePercent opts) (f64_of_int 0) then f64_of_int defaultMinFreePercent
         else opt_MinFreePercent opts),
      opt_FlushInterval =
        (if opt_FlushInterval opts \<le> 0 then defaultFlushInterval else opt_FlushInterval opts),
      opt_MaintenanceInterval =
        (if opt_MaintenanceInterval opts \<le> 0 then defaultMaintenanceInterval
         else opt_MaintenanceInterval opts),
      opt_MaxUnflushedChunks =
        (if opt_MaxUnflushedChunks opts \<le> 0 then defaultMaxUnflushedChunks
         else opt_MaxUnflushedChunks opts),
      opt_DiskUsage = opt_DiskUsage opts\<rparr>"

record init_io =
  ii_statements :: bool
  ii_readStream :: bool
  ii_writeStream :: bool
  ii_counters :: bool
  ii_bounds :: bool
  ii_size :: "(int \<times> int) option"

definition emptyStore :: "queue_db \<Rightarrow> queue_options \<Rightarrow> store" where
  "emptyStore db opts =
     \<lparr>st_db = db, st_opts = opts, st_streamID = '''', st_appended = 0, st_buf = [], st_unflushed = [],
      st_pendingChunks = 0, st_pendingReadings = 0, st_oldestTs = 0, st_newestTs = 0,
      st_dbBytes = 0, st_evicted = 0, st_dropped = 0, st_rates = [], st_writtenBytes = 0,
      st_writtenReadings = 0\<rparr>"

text \<open>\<open>newID\<close> is the value \<^verbatim>\<open>uuid.NewString()\<close> would return.\<close>

definition initStream :: "init_io \<Rightarrow> string \<Rightarrow> store \<Rightarrow> queue_err + store" where
  "initStream io newID s =
     (if \<not> ii_readStream io then Inl ReadStreamID
      else case db_stream_id (st_db s) of
             Some sid \<Rightarrow> Inr (s\<lparr>st_streamID := sid\<rparr>)
           | None \<Rightarrow>
               (if ii_writeStream io
                then Inr (s\<lparr>st_streamID := newID, st_db := (st_db s)\<lparr>db_stream_id := Some newID\<rparr>\<rparr>)
                else Inl StoreStreamID))"

definition init :: "init_io \<Rightarrow> string \<Rightarrow> store \<Rightarrow> queue_err + store" where
  "init io newID s =
     (if \<not> ii_statements io then Inl InitFailed
      else case initStream io newID s of
             Inl e \<Rightarrow> Inl e
           | Inr s \<Rightarrow>
               Inr (refreshSize (ii_size io) (refreshBounds (ii_bounds io)
                 (s\<lparr>st_pendingChunks := metaInt (ii_counters io) (st_db s) ''pending_chunks'',
                    st_pendingReadings := metaInt (ii_counters io) (st_db s) ''pending_readings'',
                    st_evicted := metaInt (ii_counters io) (st_db s) ''evicted_readings''\<rparr>))))"

definition openStore :: "init_io \<Rightarrow> string \<Rightarrow> queue_options \<Rightarrow> queue_db \<Rightarrow> queue_err + store" where
  "openStore io newID opts db = init io newID (emptyStore db (withDefaults opts))"

section \<open>Append and Flush\<close>

definition append_reading :: "reading \<Rightarrow> store \<Rightarrow> store" where
  "append_reading r s = s\<lparr>st_buf := st_buf s @ [r], st_appended := st_appended s + 1\<rparr>"

definition unixMilli :: "reading \<Rightarrow> int" where
  "unixMilli r = sint (toUnixMilli (rd_At r))"

fun tsBounds :: "int \<Rightarrow> int \<Rightarrow> reading list \<Rightarrow> int \<times> int" where
  "tsBounds first lst [] = (first, lst)"
| "tsBounds first lst (r # rs) = tsBounds (min first (unixMilli r)) (max lst (unixMilli r)) rs"

definition mkPending :: "reading list \<Rightarrow> byte list \<Rightarrow> pendingChunk" where
  "mkPending readings data =
     (let (first, lst) = tsBounds (unixMilli (hd readings)) (unixMilli (hd readings)) (tl readings)
      in \<lparr>pc_firstTs = first, pc_lastTs = lst, pc_n = int (length readings), pc_data = data\<rparr>)"

definition flushPrepare :: "(byte list \<Rightarrow> byte list) \<Rightarrow> store \<Rightarrow> store" where
  "flushPrepare deflate s =
     (if st_buf s = [] then s
      else let readings = st_buf s; s = s\<lparr>st_buf := []\<rparr>
           in case encodeChunk deflate readings of
                Inl e \<Rightarrow> s\<lparr>st_dropped := st_dropped s + int (length readings)\<rparr>
              | Inr data \<Rightarrow> s\<lparr>st_unflushed := st_unflushed s @ [mkPending readings data]\<rparr>)"

fun insertRows :: "pendingChunk list \<Rightarrow> queue_db \<Rightarrow> queue_db" where
  "insertRows [] db = db"
| "insertRows (c # cs) db =
     insertRows cs
       (db\<lparr>db_chunk := db_chunk db @
             [\<lparr>cr_seq = db_sequence db + 1, cr_first_ts = pc_firstTs c, cr_last_ts = pc_lastTs c,
               cr_n = pc_n c, cr_data = pc_data c\<rparr>],
           db_sequence := db_sequence db + 1\<rparr>)"

definition insertChunks :: "bool \<Rightarrow> pendingChunk list \<Rightarrow> queue_db \<Rightarrow> queue_err + queue_db" where
  "insertChunks io batch db =
     (if io
      then Inr (addMeta ''pending_readings'' (sum_list (map pc_n batch))
             (addMeta ''pending_chunks'' (int (length batch)) (insertRows batch db)))
      else Inl SqlError)"

definition flushFailed :: "store \<Rightarrow> store" where
  "flushFailed s =
     (let over = int (length (st_unflushed s)) - opt_MaxUnflushedChunks (st_opts s) in
      if over > 0
      then s\<lparr>st_dropped := st_dropped s + sum_list (map pc_n (take (nat over) (st_unflushed s))),
             st_unflushed := drop (nat over) (st_unflushed s)\<rparr>
      else s)"

definition countWritten :: "pendingChunk \<Rightarrow> store \<Rightarrow> store" where
  "countWritten c s =
     s\<lparr>st_pendingChunks := st_pendingChunks s + 1,
       st_pendingReadings := st_pendingReadings s + pc_n c,
       st_writtenBytes := st_writtenBytes s + int (length (pc_data c)),
       st_writtenReadings := st_writtenReadings s + pc_n c,
       st_oldestTs := (if st_oldestTs s = 0 then pc_firstTs c else st_oldestTs s),
       st_newestTs := max (st_newestTs s) (pc_lastTs c)\<rparr>"

definition flushWritten :: "pendingChunk list \<Rightarrow> store \<Rightarrow> store" where
  "flushWritten batch s =
     fold countWritten batch (s\<lparr>st_unflushed := drop (length batch) (st_unflushed s)\<rparr>)"

definition flush :: "(byte list \<Rightarrow> byte list) \<Rightarrow> bool \<Rightarrow> store \<Rightarrow> queue_err option \<times> store" where
  "flush deflate io s =
     (let s = flushPrepare deflate s; batch = st_unflushed s in
      if batch = [] then (None, s)
      else case insertChunks io batch (st_db s) of
             Inl e \<Rightarrow> (Some (WriteChunks e), flushFailed s)
           | Inr db \<Rightarrow> (None, flushWritten batch (s\<lparr>st_db := db\<rparr>)))"

definition sampleRate :: "gotime \<Rightarrow> store \<Rightarrow> store" where
  "sampleRate now s =
     s\<lparr>st_rates := keepLast rateWindow (st_rates s @ [\<lparr>rs_at = now, rs_total = st_appended s\<rparr>])\<rparr>"

text \<open>One tick of \<^verbatim>\<open>RunFlusher\<close>.\<close>

definition flusherTick :: "(byte list \<Rightarrow> byte list) \<Rightarrow> bool \<Rightarrow> gotime \<Rightarrow> store \<Rightarrow> store" where
  "flusherTick deflate io now s = sampleRate now (snd (flush deflate io s))"

section \<open>Reading and deleting\<close>

fun scanRows :: "int \<Rightarrow> int \<Rightarrow> chunk_row list \<Rightarrow> chunk_row list" where
  "scanRows maxReadings tot [] = []"
| "scanRows maxReadings tot (r # rs) =
     r # (if tot + cr_n r \<ge> maxReadings then [] else scanRows maxReadings (tot + cr_n r) rs)"

definition discard :: "bool \<Rightarrow> bool \<Rightarrow> int \<Rightarrow> int \<Rightarrow> store \<Rightarrow> queue_err option \<times> store" where
  "discard io ioBounds seq n s =
     (if \<not> io then (Some SqlError, s)
      else if \<not> (\<exists>r \<in> set (db_chunk (st_db s)). cr_seq r = seq) then (None, s)
      else let db = st_db s;
               db = db\<lparr>db_chunk := filter (\<lambda>r. cr_seq r \<noteq> seq) (db_chunk db)\<rparr>;
               db = addMeta ''pending_readings'' (- n) (addMeta ''pending_chunks'' (- 1) db)
           in (None, refreshBounds ioBounds
                 (s\<lparr>st_db := db, st_pendingChunks := st_pendingChunks s - 1,
                    st_pendingReadings := st_pendingReadings s - n,
                    st_dropped := st_dropped s + n\<rparr>)))"

text \<open>
  The second loop of \<^verbatim>\<open>ReadBatch\<close>: \<open>dio seq\<close> and \<open>bio seq\<close> tell whether discarding the
  corrupt chunk \<open>seq\<close> and refreshing the bounds after it succeed.
\<close>

fun decodeRows :: "(byte list \<Rightarrow> byte list option) \<Rightarrow> (int \<Rightarrow> bool) \<Rightarrow> (int \<Rightarrow> bool) \<Rightarrow>
    chunk_row list \<Rightarrow> store \<Rightarrow> (queue_err + chunk list) \<times> store" where
  "decodeRows inflate dio bio [] s = (Inr [], s)"
| "decodeRows inflate dio bio (r # rs) s =
     (case decodeChunk inflate (cr_data r) of
        Inl e \<Rightarrow>
          (case discard (dio (cr_seq r)) (bio (cr_seq r)) (cr_seq r) (cr_n r) s of
             (Some derr, s) \<Rightarrow> (Inl derr, s)
           | (None, s) \<Rightarrow> decodeRows inflate dio bio rs s)
      | Inr readings \<Rightarrow>
          (case decodeRows inflate dio bio rs s of
             (Inl e, s) \<Rightarrow> (Inl e, s)
           | (Inr cs, s) \<Rightarrow> (Inr (\<lparr>ck_Seq = cr_seq r, ck_Readings = readings\<rparr> # cs), s)))"

definition readBatch :: "(byte list \<Rightarrow> byte list option) \<Rightarrow> bool \<Rightarrow> (int \<Rightarrow> bool) \<Rightarrow> (int \<Rightarrow> bool) \<Rightarrow>
    int \<Rightarrow> store \<Rightarrow> (queue_err + chunk list) \<times> store" where
  "readBatch inflate io dio bio maxReadings s =
     (if \<not> io then (Inl SqlError, s)
      else decodeRows inflate dio bio
             (scanRows maxReadings 0 (take readBatchScanLimit (db_chunk (st_db s)))) s)"

definition deleteThrough :: "bool \<Rightarrow> int \<Rightarrow> string \<Rightarrow> queue_db \<Rightarrow> (queue_err + (int \<times> int)) \<times> queue_db" where
  "deleteThrough io throughSeq countKey db =
     (let gone = filter (\<lambda>r. cr_seq r \<le> throughSeq) (db_chunk db);
          chunks = int (length gone);
          readings = sum_list (map cr_n gone)
      in if \<not> io then (Inl SqlError, db)
         else if chunks = 0 then (Inr (0, 0), db)
         else let db = db\<lparr>db_chunk := filter (\<lambda>r. \<not> cr_seq r \<le> throughSeq) (db_chunk db)\<rparr>;
                  db = addMeta ''pending_readings'' (- readings) (addMeta ''pending_chunks'' (- chunks) db);
                  db = (if countKey \<noteq> '''' then addMeta countKey readings db else db)
              in (Inr (chunks, readings), db))"

definition ack :: "bool \<Rightarrow> bool \<Rightarrow> int \<Rightarrow> store \<Rightarrow> queue_err option \<times> store" where
  "ack io ioBounds throughSeq s =
     (case deleteThrough io throughSeq '''' (st_db s) of
        (Inl e, db) \<Rightarrow> (Some e, s\<lparr>st_db := db\<rparr>)
      | (Inr (chunks, readings), db) \<Rightarrow>
          (None, refreshBounds ioBounds
             (s\<lparr>st_db := db, st_pendingChunks := st_pendingChunks s - chunks,
                st_pendingReadings := st_pendingReadings s - readings\<rparr>)))"

section \<open>Stats and Close\<close>

text \<open>\<^verbatim>\<open>Duration.Seconds\<close>: whole seconds plus the rest, with division truncated towards zero.\<close>

definition durationSeconds :: "duration \<Rightarrow> float64" where
  "durationSeconds d =
     (let sec = sgn d * (\<bar>d\<bar> div nanosPerSecond); nsec = sgn d * (\<bar>d\<bar> mod nanosPerSecond)
      in f64_add (f64_of_int sec) (f64_div (f64_of_int nsec) (f64_of_int nanosPerSecond)))"

definition writeRate :: "rateSample list \<Rightarrow> float64" where
  "writeRate rates =
     (if length rates \<ge> 2
      then let first = hd rates; lst = last rates;
               secs = durationSeconds (rs_at lst - rs_at first)
           in if f64_lt (f64_of_int 0) secs
              then f64_div (f64_of_int (rs_total lst - rs_total first)) secs
              else f64_of_int 0
      else f64_of_int 0)"

definition millisTime :: "int \<Rightarrow> gotime option" where
  "millisTime ms = (if ms \<noteq> 0 then Some (ms * nanosPerMilli) else None)"

definition stats :: "store \<Rightarrow> queue_stats" where
  "stats s =
     (let oldest = st_oldestTs s;
          oldest = (if oldest = 0 \<and> st_unflushed s \<noteq> [] then pc_firstTs (hd (st_unflushed s)) else oldest);
          oldest = (if oldest = 0 \<and> st_buf s \<noteq> [] then unixMilli (hd (st_buf s)) else oldest);
          newest = (if st_buf s \<noteq> [] then max (st_newestTs s) (unixMilli (last (st_buf s)))
                    else st_newestTs s)
      in \<lparr>qs_StreamID = st_streamID s,
          qs_PendingChunks = st_pendingChunks s,
          qs_PendingReadings = st_pendingReadings s,
          qs_BufferedReadings = int (length (st_buf s)) + sum_list (map pc_n (st_unflushed s)),
          qs_OldestPending = millisTime oldest,
          qs_NewestPending = millisTime newest,
          qs_DBBytes = st_dbBytes s,
          qs_MaxBytes = opt_MaxBytes (st_opts s),
          qs_EvictedReadings = st_evicted s,
          qs_DroppedReadings = st_dropped s,
          qs_WriteRatePerSec = writeRate (st_rates s),
          qs_AvgBytesPerReading =
            (if st_writtenReadings s > 0
             then f64_div (f64_of_int (st_writtenBytes s)) (f64_of_int (st_writtenReadings s))
             else f64_of_int 0)\<rparr>)"

text \<open>\<^verbatim>\<open>Close\<close> returns the errors of the flush and of closing the database, joined.\<close>

definition closeStore :: "(byte list \<Rightarrow> byte list) \<Rightarrow> bool \<Rightarrow> bool \<Rightarrow> store \<Rightarrow> queue_err list \<times> store" where
  "closeStore deflate io ioClose s =
     (case flush deflate io s of
        (err, s) \<Rightarrow> ((case err of None \<Rightarrow> [] | Some e \<Rightarrow> [e]) @ (if ioClose then [] else [SqlError]), s))"

section \<open>A concrete store\<close>

text \<open>A newly created \<^verbatim>\<open>queue.db\<close>, a reading, and a store with that reading buffered.\<close>

definition freshDb :: queue_db where
  "freshDb = \<lparr>db_chunk = [], db_sequence = 0, db_meta = Map.empty, db_stream_id = None\<rparr>"

definition sampleReading :: reading where
  "sampleReading = \<lparr>rd_DeviceID = 1, rd_DatapointID = 2, rd_Value = Some 0x4035800000000000,
     rd_Quality = ''GOOD'', rd_At = 1700000000123456789\<rparr>"

definition zeroOptions :: queue_options where
  "zeroOptions = \<lparr>opt_MaxBytes = 0, opt_MinFreePercent = 0, opt_FlushInterval = 0,
     opt_MaintenanceInterval = 0, opt_MaxUnflushedChunks = 0, opt_DiskUsage = False\<rparr>"

definition sampleStore :: store where
  "sampleStore = append_reading sampleReading (emptyStore freshDb (withDefaults zeroOptions))"

section \<open>The invariant\<close>

definition pendingCount :: "queue_db \<Rightarrow> int" where
  "pendingCount db = int (length (db_chunk db))"

definition pendingSum :: "queue_db \<Rightarrow> int" where
  "pendingSum db = sum_list (map cr_n (db_chunk db))"

definition tableOk :: "queue_db \<Rightarrow> bool" where
  "tableOk db \<longleftrightarrow> sorted_wrt (<) (map cr_seq (db_chunk db)) \<and> 0 \<le> db_sequence db \<and>
     list_all (\<lambda>r. 0 < cr_seq r \<and> cr_seq r \<le> db_sequence db \<and> 0 < cr_n r) (db_chunk db)"

definition metaOk :: "queue_db \<Rightarrow> bool" where
  "metaOk db \<longleftrightarrow> metaInt True db ''pending_chunks'' = pendingCount db \<and>
     metaInt True db ''pending_readings'' = pendingSum db"

definition dbInv :: "queue_db \<Rightarrow> bool" where
  "dbInv db \<longleftrightarrow> tableOk db \<and> metaOk db"

definition unflushedOk :: "store \<Rightarrow> bool" where
  "unflushedOk s \<longleftrightarrow> list_all (\<lambda>c. 0 < pc_n c) (st_unflushed s)"

definition storeInv :: "store \<Rightarrow> bool" where
  "storeInv s \<longleftrightarrow> dbInv (st_db s) \<and> unflushedOk s \<and>
     st_pendingChunks s = pendingCount (st_db s) \<and>
     st_pendingReadings s = pendingSum (st_db s) \<and>
     st_evicted s = metaInt True (st_db s) ''evicted_readings''"

text \<open>The readings a store accounts for: in memory, in the table, evicted or dropped.\<close>

definition accounted :: "store \<Rightarrow> int" where
  "accounted s = int (length (st_buf s)) + sum_list (map pc_n (st_unflushed s)) +
     pendingSum (st_db s) + st_evicted s + st_dropped s"

lemmas inv_defs = storeInv_def dbInv_def tableOk_def metaOk_def unflushedOk_def
  pendingCount_def pendingSum_def

subsection \<open>Counters and rows\<close>

lemma metaInt_addMeta [store_simps]:
  "metaInt True (addMeta k d db) k' = metaInt True db k' + (if k = k' then d else 0)"
  by (simp add: metaInt_def addMeta_def split: option.splits)

lemma addMeta_sel [store_simps]:
  "db_chunk (addMeta k d db) = db_chunk db" "db_sequence (addMeta k d db) = db_sequence db"
  "db_stream_id (addMeta k d db) = db_stream_id db"
  by (simp_all add: addMeta_def)

lemma metaInt_cong [store_simps]:
  "metaInt io (db\<lparr>db_chunk := rs\<rparr>) k = metaInt io db k"
  "metaInt io (db\<lparr>db_sequence := q\<rparr>) k = metaInt io db k"
  "metaInt io (db\<lparr>db_stream_id := sid\<rparr>) k = metaInt io db k"
  by (simp_all add: metaInt_def)

fun rowsOf :: "int \<Rightarrow> pendingChunk list \<Rightarrow> chunk_row list" where
  "rowsOf q [] = []"
| "rowsOf q (c # cs) =
     \<lparr>cr_seq = q + 1, cr_first_ts = pc_firstTs c, cr_last_ts = pc_lastTs c, cr_n = pc_n c,
      cr_data = pc_data c\<rparr> # rowsOf (q + 1) cs"

lemma insertRows_eq:
  "insertRows cs db = db\<lparr>db_chunk := db_chunk db @ rowsOf (db_sequence db) cs,
     db_sequence := db_sequence db + int (length cs)\<rparr>"
  by (induction cs arbitrary: db) (simp_all add: algebra_simps)

lemma rowsOf_simps [store_simps]:
  "length (rowsOf q cs) = length cs" "map cr_n (rowsOf q cs) = map pc_n cs"
  "map cr_data (rowsOf q cs) = map pc_data cs"
  by (induction cs arbitrary: q) simp_all

lemma rowsOf_seq: "r \<in> set (rowsOf q cs) \<Longrightarrow> q < cr_seq r \<and> cr_seq r \<le> q + int (length cs)"
  by (induction cs arbitrary: q) (auto, force+)

lemma rowsOf_source:
  "r \<in> set (rowsOf q cs) \<Longrightarrow> \<exists>c \<in> set cs. cr_n r = pc_n c \<and> cr_data r = pc_data c"
  by (induction cs arbitrary: q) auto

lemma sorted_rowsOf: "sorted_wrt (<) (map cr_seq (rowsOf q cs))"
  by (induction cs arbitrary: q) (auto dest: rowsOf_seq)

lemma insertChunks_dbInv:
  assumes "dbInv db" "list_all (\<lambda>c. 0 < pc_n c) cs" "insertChunks io cs db = Inr db'"
  shows "dbInv db'" "db_chunk db' = db_chunk db @ rowsOf (db_sequence db) cs"
    "db_sequence db' = db_sequence db + int (length cs)"
    "pendingCount db' = pendingCount db + int (length cs)"
    "pendingSum db' = pendingSum db + sum_list (map pc_n cs)"
    "metaInt True db' ''evicted_readings'' = metaInt True db ''evicted_readings''"
proof -
  from assms(3) have db': "db' = addMeta ''pending_readings'' (sum_list (map pc_n cs))
       (addMeta ''pending_chunks'' (int (length cs)) (insertRows cs db))"
    by (simp add: insertChunks_def split: if_splits)
  show rows: "db_chunk db' = db_chunk db @ rowsOf (db_sequence db) cs"
    and seq: "db_sequence db' = db_sequence db + int (length cs)"
    by (simp_all add: db' store_simps insertRows_eq)
  show cnt: "pendingCount db' = pendingCount db + int (length cs)"
    and sum: "pendingSum db' = pendingSum db + sum_list (map pc_n cs)"
    by (simp_all add: pendingCount_def pendingSum_def rows store_simps)
  show "metaInt True db' ''evicted_readings'' = metaInt True db ''evicted_readings''"
    by (simp add: db' store_simps insertRows_eq)
  have "0 < cr_n r \<and> db_sequence db < cr_seq r \<and> cr_seq r \<le> db_sequence db + int (length cs)"
    if "r \<in> set (rowsOf (db_sequence db) cs)" for r
    using rowsOf_source [OF that] rowsOf_seq [OF that] assms(2) by (auto simp: list_all_iff)
  then have "tableOk db'"
    using assms(1) sorted_rowsOf [of "db_sequence db" cs]
    unfolding dbInv_def tableOk_def rows seq map_append sorted_wrt_append list_all_iff set_append
      list.set_map by force
  moreover have "metaOk db'"
    using assms(1) unfolding metaOk_def cnt sum dbInv_def
    by (simp add: db' store_simps insertRows_eq)
  ultimately show "dbInv db'" by (simp add: dbInv_def)
qed

lemma length_filter_neg: "int (length (filter (\<lambda>x. \<not> P x) xs)) = int (length xs) - int (length (filter P xs))"
  using sum_length_filter_compl [of P xs] by simp

lemma sum_filter_neg:
  "sum_list (map f (filter (\<lambda>x. \<not> P x) xs)) = sum_list (map f xs) - sum_list (map f (filter P xs))"
  for f :: "'a \<Rightarrow> int"
  by (induction xs) simp_all

lemma tableOk_filter: "tableOk db \<Longrightarrow> tableOk (db\<lparr>db_chunk := filter P (db_chunk db)\<rparr>)"
  by (auto simp: tableOk_def list_all_iff sorted_wrt_map intro: sorted_wrt_filter)

lemma tableOk_addMeta [store_simps]: "tableOk (addMeta k d db) = tableOk db"
  by (simp add: tableOk_def store_simps)

lemma pending_addMeta [store_simps]:
  "pendingCount (addMeta k d db) = pendingCount db" "pendingSum (addMeta k d db) = pendingSum db"
  by (simp_all add: pendingCount_def pendingSum_def store_simps)

text \<open>Removing rows together with the matching counter updates, as both deleting transactions do.\<close>

lemma delete_rows_dbInv:
  fixes P :: "chunk_row \<Rightarrow> bool"
  defines "gone db \<equiv> filter P (db_chunk db)"
  assumes "dbInv db"
    and "db' = addMeta ''pending_readings'' (- sum_list (map cr_n (gone db)))
      (addMeta ''pending_chunks'' (- int (length (gone db)))
        (db\<lparr>db_chunk := filter (\<lambda>r. \<not> P r) (db_chunk db)\<rparr>))"
  shows "dbInv db'" "pendingCount db' = pendingCount db - int (length (gone db))"
    "pendingSum db' = pendingSum db - sum_list (map cr_n (gone db))"
    "metaInt True db' ''evicted_readings'' = metaInt True db ''evicted_readings''"
    "db_sequence db' = db_sequence db" "db_chunk db' = filter (\<lambda>r. \<not> P r) (db_chunk db)"
proof -
  show c: "pendingCount db' = pendingCount db - int (length (gone db))"
    and s: "pendingSum db' = pendingSum db - sum_list (map cr_n (gone db))"
    by (simp_all add: assms(3) store_simps)
      (simp_all add: pendingCount_def pendingSum_def gone_def length_filter_neg sum_filter_neg)
  show "metaInt True db' ''evicted_readings'' = metaInt True db ''evicted_readings''"
    "db_sequence db' = db_sequence db" "db_chunk db' = filter (\<lambda>r. \<not> P r) (db_chunk db)"
    by (simp_all add: assms(3) store_simps)
  have "metaOk db'"
    using assms(2) unfolding metaOk_def c s dbInv_def by (simp add: assms(3) store_simps)
  moreover have "tableOk db'"
    using assms(2) by (simp add: assms(3) store_simps dbInv_def tableOk_filter)
  ultimately show "dbInv db'" by (simp add: dbInv_def)
qed

lemma filter_seq_unique:
  assumes "tableOk db" "r \<in> set (db_chunk db)"
  shows "filter (\<lambda>x. cr_seq x = cr_seq r) (db_chunk db) = [r]"
  using assms by (intro filter_key_unique) (auto simp: tableOk_def strict_sorted_iff)

subsection \<open>Operations keep the invariant\<close>

lemma refreshBounds_sel [store_simps]:
  "st_db (refreshBounds io s) = st_db s" "st_opts (refreshBounds io s) = st_opts s"
  "st_buf (refreshBounds io s) = st_buf s" "st_unflushed (refreshBounds io s) = st_unflushed s"
  "st_pendingChunks (refreshBounds io s) = st_pendingChunks s"
  "st_pendingReadings (refreshBounds io s) = st_pendingReadings s"
  "st_evicted (refreshBounds io s) = st_evicted s" "st_dropped (refreshBounds io s) = st_dropped s"
  "st_appended (refreshBounds io s) = st_appended s" "st_streamID (refreshBounds io s) = st_streamID s"
  "st_dbBytes (refreshBounds io s) = st_dbBytes s"
  by (simp_all add: refreshBounds_def Let_def)

lemma refreshSize_sel [store_simps]:
  "st_db (refreshSize p s) = st_db s" "st_opts (refreshSize p s) = st_opts s"
  "st_buf (refreshSize p s) = st_buf s" "st_unflushed (refreshSize p s) = st_unflushed s"
  "st_pendingChunks (refreshSize p s) = st_pendingChunks s"
  "st_pendingReadings (refreshSize p s) = st_pendingReadings s"
  "st_evicted (refreshSize p s) = st_evicted s" "st_dropped (refreshSize p s) = st_dropped s"
  "st_appended (refreshSize p s) = st_appended s" "st_streamID (refreshSize p s) = st_streamID s"
  by (simp_all add: refreshSize_def split: option.splits)

lemma refresh_inv [store_simps]:
  "storeInv (refreshBounds io s) = storeInv s" "storeInv (refreshSize p s) = storeInv s"
  "accounted (refreshBounds io s) = accounted s" "accounted (refreshSize p s) = accounted s"
  by (simp_all add: storeInv_def unflushedOk_def accounted_def store_simps)

definition goneThrough :: "int \<Rightarrow> queue_db \<Rightarrow> chunk_row list" where
  "goneThrough t db = filter (\<lambda>r. cr_seq r \<le> t) (db_chunk db)"

lemma deleteThrough_spec:
  assumes "dbInv db" "deleteThrough io t key db = (Inr (c, n), db')"
    and "key \<in> {'''', ''evicted_readings''}"
  shows "dbInv db'" "c = int (length (goneThrough t db))" "n = sum_list (map cr_n (goneThrough t db))"
    "pendingCount db' = pendingCount db - c" "pendingSum db' = pendingSum db - n"
    "metaInt True db' ''evicted_readings'' =
       metaInt True db ''evicted_readings'' + (if key = ''evicted_readings'' then n else 0)"
    "db_chunk db' = filter (\<lambda>r. t < cr_seq r) (db_chunk db)" "db_sequence db' = db_sequence db"
proof -
  let ?db1 = "addMeta ''pending_readings'' (- sum_list (map cr_n (goneThrough t db)))
    (addMeta ''pending_chunks'' (- int (length (goneThrough t db)))
      (db\<lparr>db_chunk := filter (\<lambda>r. \<not> cr_seq r \<le> t) (db_chunk db)\<rparr>))"
  note d = delete_rows_dbInv [OF assms(1), where P = "\<lambda>r. cr_seq r \<le> t" and db' = ?db1,
      unfolded goneThrough_def, OF refl, folded goneThrough_def]
  have all: "dbInv db' \<and> c = int (length (goneThrough t db)) \<and>
    n = sum_list (map cr_n (goneThrough t db)) \<and>
    pendingCount db' = pendingCount db - c \<and> pendingSum db' = pendingSum db - n \<and>
    metaInt True db' ''evicted_readings'' =
       metaInt True db ''evicted_readings'' + (if key = ''evicted_readings'' then n else 0) \<and>
    db_chunk db' = filter (\<lambda>r. t < cr_seq r) (db_chunk db) \<and> db_sequence db' = db_sequence db"
  proof (cases "goneThrough t db = []")
    case True
    then have "filter (\<lambda>r. t < cr_seq r) (db_chunk db) = db_chunk db"
      by (auto simp: goneThrough_def filter_empty_conv filter_id_conv not_le)
    with True assms show ?thesis
      by (auto simp: deleteThrough_def Let_def goneThrough_def split: if_splits)
  next
    case False
    then have "db' = (if key \<noteq> '''' then addMeta key n ?db1 else ?db1)"
      and "c = int (length (goneThrough t db))" "n = sum_list (map cr_n (goneThrough t db))"
      using assms(2) by (auto simp: deleteThrough_def Let_def goneThrough_def split: if_splits)
    moreover have "dbInv (addMeta ''evicted_readings'' n ?db1)"
      using d(1) by (simp add: dbInv_def metaOk_def store_simps)
    ultimately show ?thesis
      using d assms(3) by (auto simp: store_simps not_le)
  qed
  from all show "dbInv db'" "c = int (length (goneThrough t db))" "n = sum_list (map cr_n (goneThrough t db))"
    "pendingCount db' = pendingCount db - c" "pendingSum db' = pendingSum db - n"
    "metaInt True db' ''evicted_readings'' =
       metaInt True db ''evicted_readings'' + (if key = ''evicted_readings'' then n else 0)"
    "db_chunk db' = filter (\<lambda>r. t < cr_seq r) (db_chunk db)" "db_sequence db' = db_sequence db"
    by auto
qed

lemma deleteThrough_err: "deleteThrough io t key db = (Inl e, db') \<Longrightarrow> db' = db \<and> \<not> io"
  by (auto simp: deleteThrough_def Let_def split: if_splits)

lemma ack_ok:
  assumes "storeInv s"
  shows "storeInv (snd (ack io ioB t s))"
    and "fst (ack io ioB t s) = None \<Longrightarrow>
      accounted (snd (ack io ioB t s)) = accounted s - sum_list (map cr_n (goneThrough t (st_db s))) \<and>
      db_chunk (st_db (snd (ack io ioB t s))) = filter (\<lambda>r. t < cr_seq r) (db_chunk (st_db s))"
    and "fst (ack io ioB t s) \<noteq> None \<Longrightarrow> snd (ack io ioB t s) = s"
proof -
  obtain res db' where d: "deleteThrough io t '''' (st_db s) = (res, db')" by fastforce
  have all: "storeInv (snd (ack io ioB t s)) \<and>
    (fst (ack io ioB t s) = None \<longrightarrow>
      accounted (snd (ack io ioB t s)) = accounted s - sum_list (map cr_n (goneThrough t (st_db s))) \<and>
      db_chunk (st_db (snd (ack io ioB t s))) = filter (\<lambda>r. t < cr_seq r) (db_chunk (st_db s))) \<and>
    (fst (ack io ioB t s) \<noteq> None \<longrightarrow> snd (ack io ioB t s) = s)"
  proof (cases res)
    case (Inl e)
    with d assms show ?thesis by (simp add: ack_def deleteThrough_err [OF d [unfolded Inl]])
  next
    case (Inr p)
    obtain c n where p: "p = (c, n)" by fastforce
    have inv: "dbInv (st_db s)" using assms by (simp add: storeInv_def)
    note spec = deleteThrough_spec [OF inv d [unfolded Inr p]]
    show ?thesis
      using assms spec by (simp add: ack_def d Inr p storeInv_def unflushedOk_def accounted_def store_simps)
  qed
  from all show "storeInv (snd (ack io ioB t s))"
    and "fst (ack io ioB t s) = None \<Longrightarrow>
      accounted (snd (ack io ioB t s)) = accounted s - sum_list (map cr_n (goneThrough t (st_db s))) \<and>
      db_chunk (st_db (snd (ack io ioB t s))) = filter (\<lambda>r. t < cr_seq r) (db_chunk (st_db s))"
    and "fst (ack io ioB t s) \<noteq> None \<Longrightarrow> snd (ack io ioB t s) = s"
    by auto
qed

lemma append_reading_ok:
  "storeInv (append_reading r s) = storeInv s" "accounted (append_reading r s) = accounted s + 1"
  by (simp_all add: append_reading_def storeInv_def unflushedOk_def accounted_def)

lemma mkPending_n [store_simps]: "pc_n (mkPending rs data) = int (length rs)"
  by (simp add: mkPending_def split_def Let_def)

lemma flushPrepare_sel [store_simps]:
  "st_db (flushPrepare deflate s) = st_db s" "st_opts (flushPrepare deflate s) = st_opts s"
  "st_buf (flushPrepare deflate s) = []"
  "st_pendingChunks (flushPrepare deflate s) = st_pendingChunks s"
  "st_pendingReadings (flushPrepare deflate s) = st_pendingReadings s"
  "st_evicted (flushPrepare deflate s) = st_evicted s"
  "st_appended (flushPrepare deflate s) = st_appended s"
  by (simp_all add: flushPrepare_def Let_def split: sum.splits)

lemma flushPrepare_ok:
  "storeInv (flushPrepare deflate s) = storeInv s"
  "unflushedOk s \<Longrightarrow> unflushedOk (flushPrepare deflate s)"
  "accounted (flushPrepare deflate s) = accounted s"
  by (auto simp: storeInv_def unflushedOk_def accounted_def flushPrepare_def Let_def store_simps
      split: sum.splits)

lemma flushFailed_ok:
  shows "storeInv s \<Longrightarrow> storeInv (flushFailed s)" "accounted (flushFailed s) = accounted s"
    "unflushedOk s \<Longrightarrow> unflushedOk (flushFailed s)" "st_db (flushFailed s) = st_db s"
proof -
  let ?k = "nat (int (length (st_unflushed s)) - opt_MaxUnflushedChunks (st_opts s))"
  have "sum_list (map pc_n (take ?k (st_unflushed s))) + sum_list (map pc_n (drop ?k (st_unflushed s)))
      = sum_list (map pc_n (st_unflushed s))"
    by (metis append_take_drop_id map_append sum_list_append)
  then show "accounted (flushFailed s) = accounted s"
    by (simp add: accounted_def flushFailed_def Let_def)
  show u: "unflushedOk s \<Longrightarrow> unflushedOk (flushFailed s)"
    by (auto simp: unflushedOk_def flushFailed_def Let_def list_all_iff dest: in_set_dropD)
  then show "storeInv s \<Longrightarrow> storeInv (flushFailed s)"
    by (auto simp: storeInv_def) (simp_all add: flushFailed_def Let_def)
  show "st_db (flushFailed s) = st_db s" by (simp add: flushFailed_def Let_def)
qed

lemma fold_countWritten_sel [store_simps]:
  "st_db (fold countWritten cs s) = st_db s" "st_opts (fold countWritten cs s) = st_opts s"
  "st_buf (fold countWritten cs s) = st_buf s" "st_unflushed (fold countWritten cs s) = st_unflushed s"
  "st_evicted (fold countWritten cs s) = st_evicted s"
  "st_dropped (fold countWritten cs s) = st_dropped s"
  "st_appended (fold countWritten cs s) = st_appended s"
  "st_pendingChunks (fold countWritten cs s) = st_pendingChunks s + int (length cs)"
  "st_pendingReadings (fold countWritten cs s) = st_pendingReadings s + sum_list (map pc_n cs)"
  by (induction cs arbitrary: s) (simp_all add: countWritten_def)

lemma flush_cases:
  assumes "flush deflate io s = (res, s')"
  obtains (empty) "st_unflushed (flushPrepare deflate s) = []" "res = None" "s' = flushPrepare deflate s"
  | (failed) "\<not> io" "res = Some (WriteChunks SqlError)" "s' = flushFailed (flushPrepare deflate s)"
  | (written) db where "io" "res = None"
      "insertChunks True (st_unflushed (flushPrepare deflate s)) (st_db s) = Inr db"
      "s' = fold countWritten (st_unflushed (flushPrepare deflate s))
              ((flushPrepare deflate s)\<lparr>st_db := db, st_unflushed := []\<rparr>)"
  using assms
  by (cases io) (auto simp: flush_def Let_def insertChunks_def flushWritten_def store_simps split: if_splits)

lemma flush_ok:
  assumes "storeInv s"
  shows "storeInv (snd (flush deflate io s)) \<and> accounted (snd (flush deflate io s)) = accounted s"
proof -
  let ?p = "flushPrepare deflate s"
  obtain res s' where f: "flush deflate io s = (res, s')" by fastforce
  then show ?thesis
  proof (cases rule: flush_cases)
    case empty
    with f assms show ?thesis by (simp add: flushPrepare_ok)
  next
    case failed
    with f assms show ?thesis by (simp add: flushPrepare_ok flushFailed_ok)
  next
    case (written db)
    have "dbInv (st_db s)" "list_all (\<lambda>c. 0 < pc_n c) (st_unflushed ?p)"
      using assms flushPrepare_ok(2) [of s deflate] by (auto simp: storeInv_def unflushedOk_def)
    note ins = insertChunks_dbInv [OF this written(3)]
    have a: "accounted ?p = accounted s" by (rule flushPrepare_ok)
    show ?thesis
      using assms ins a
      by (simp add: f written(4) storeInv_def unflushedOk_def accounted_def store_simps)
  qed
qed

lemma discard_ok:
  assumes "storeInv s" "r \<in> set (db_chunk (st_db s))"
  shows "storeInv (snd (discard io ioB (cr_seq r) (cr_n r) s))"
    and "accounted (snd (discard io ioB (cr_seq r) (cr_n r) s)) = accounted s"
    and "db_chunk (st_db (snd (discard io ioB (cr_seq r) (cr_n r) s))) =
      (if io then filter (\<lambda>x. cr_seq x \<noteq> cr_seq r) (db_chunk (st_db s)) else db_chunk (st_db s))"
    and "fst (discard io ioB (cr_seq r) (cr_n r) s) = (if io then None else Some SqlError)"
proof -
  have inv: "dbInv (st_db s)" using assms(1) by (simp add: storeInv_def)
  then have one: "filter (\<lambda>x. cr_seq x = cr_seq r) (db_chunk (st_db s)) = [r]"
    using assms(2) by (intro filter_seq_unique) (auto simp: dbInv_def)
  let ?db' = "addMeta ''pending_readings'' (- cr_n r) (addMeta ''pending_chunks'' (- 1)
     ((st_db s)\<lparr>db_chunk := filter (\<lambda>x. cr_seq x \<noteq> cr_seq r) (db_chunk (st_db s))\<rparr>))"
  have d: "dbInv ?db'" "pendingCount ?db' = pendingCount (st_db s) - 1"
    "pendingSum ?db' = pendingSum (st_db s) - cr_n r"
    "metaInt True ?db' ''evicted_readings'' = metaInt True (st_db s) ''evicted_readings''"
    "db_chunk ?db' = filter (\<lambda>x. cr_seq x \<noteq> cr_seq r) (db_chunk (st_db s))"
    using delete_rows_dbInv [OF inv, where P = "\<lambda>x. cr_seq x = cr_seq r" and db' = ?db'] one
    by simp_all
  have e: "discard io ioB (cr_seq r) (cr_n r) s = (if io then (None, refreshBounds ioB
       (s\<lparr>st_db := ?db', st_pendingChunks := st_pendingChunks s - 1,
          st_pendingReadings := st_pendingReadings s - cr_n r, st_dropped := st_dropped s + cr_n r\<rparr>))
     else (Some SqlError, s))"
    using assms(2) by (auto simp: discard_def Let_def)
  show "storeInv (snd (discard io ioB (cr_seq r) (cr_n r) s))"
    "accounted (snd (discard io ioB (cr_seq r) (cr_n r) s)) = accounted s"
    "db_chunk (st_db (snd (discard io ioB (cr_seq r) (cr_n r) s))) =
      (if io then filter (\<lambda>x. cr_seq x \<noteq> cr_seq r) (db_chunk (st_db s)) else db_chunk (st_db s))"
    "fst (discard io ioB (cr_seq r) (cr_n r) s) = (if io then None else Some SqlError)"
    using assms(1) d by (simp_all add: e storeInv_def unflushedOk_def accounted_def refresh_inv
        refreshBounds_sel)
qed

subsection \<open>Batches\<close>

lemma scanRows_prefix: "\<exists>rest. rs = scanRows m t rs @ rest"
  by (induction m t rs rule: scanRows.induct) auto

lemma scanRows_nonempty: "rs \<noteq> [] \<Longrightarrow> scanRows m t rs \<noteq> []"
  by (cases rs) auto

lemma scanRows_enough:
  "rs = scanRows m t rs \<or> m \<le> t + sum_list (map cr_n (scanRows m t rs))"
  by (induction m t rs rule: scanRows.induct) (auto simp: algebra_simps)

lemma scanRows_minimal:
  assumes "scanRows m t rs = xs @ [r]" "xs \<noteq> []"
  shows "t + sum_list (map cr_n xs) < m"
  using assms
proof (induction m t rs arbitrary: xs rule: scanRows.induct)
  case (2 m t x rs)
  show ?case
  proof (cases "m \<le> t + cr_n x")
    case True
    then show ?thesis using "2.prems" by auto
  next
    case False
    with "2.prems" obtain ys where ys: "xs = x # ys" "scanRows m (t + cr_n x) rs = ys @ [r]"
      by (auto simp: Cons_eq_append_conv)
    show ?thesis
    proof (cases "ys = []")
      case True
      with False ys show ?thesis by simp
    next
      case ne: False
      with "2.IH" [OF False ys(2)] ys(1) show ?thesis by (simp add: algebra_simps)
    qed
  qed
qed simp

fun goodChunks :: "(byte list \<Rightarrow> byte list option) \<Rightarrow> chunk_row list \<Rightarrow> chunk list" where
  "goodChunks inflate [] = []"
| "goodChunks inflate (r # rs) =
     (case decodeChunk inflate (cr_data r) of
        Inl e \<Rightarrow> goodChunks inflate rs
      | Inr readings \<Rightarrow> \<lparr>ck_Seq = cr_seq r, ck_Readings = readings\<rparr> # goodChunks inflate rs)"

definition corrupt :: "(byte list \<Rightarrow> byte list option) \<Rightarrow> chunk_row \<Rightarrow> bool" where
  "corrupt inflate r \<longleftrightarrow> (\<exists>e. decodeChunk inflate (cr_data r) = Inl e)"

lemma goodChunks_filter:
  "(\<And>r. r \<in> set rs \<Longrightarrow> \<not> P r \<Longrightarrow> corrupt inflate r) \<Longrightarrow>
     goodChunks inflate (filter P rs) = goodChunks inflate rs"
proof (induction rs)
  case (Cons a rs)
  then have "goodChunks inflate (filter P rs) = goodChunks inflate rs" by simp
  moreover have "\<not> P a \<Longrightarrow> corrupt inflate a" using Cons.prems by simp
  ultimately show ?case by (auto simp: corrupt_def cong: sum.case_cong)
qed simp

lemma good_without_corrupt:
  assumes "storeInv s" "r \<in> set (db_chunk (st_db s))" "corrupt inflate r"
  shows "goodChunks inflate (filter (\<lambda>x. cr_seq x \<noteq> cr_seq r) (db_chunk (st_db s))) =
    goodChunks inflate (db_chunk (st_db s))"
proof (rule goodChunks_filter)
  fix x assume x: "x \<in> set (db_chunk (st_db s))" "\<not> cr_seq x \<noteq> cr_seq r"
  have "distinct (map cr_seq (db_chunk (st_db s)))"
    using assms(1) by (auto simp: storeInv_def dbInv_def tableOk_def strict_sorted_iff)
  with x assms(2) have "x = r" by (auto simp: distinct_map inj_on_def)
  with assms(3) show "corrupt inflate x" by simp
qed

lemma decodeRows_ok:
  assumes "storeInv s" "set rs \<subseteq> set (db_chunk (st_db s))" "distinct (map cr_seq rs)"
    and "decodeRows inflate dio bio rs s = (res, s')"
  shows "storeInv s' \<and> accounted s' = accounted s \<and>
    goodChunks inflate (db_chunk (st_db s')) = goodChunks inflate (db_chunk (st_db s)) \<and>
    (\<forall>cs. res = Inr cs \<longrightarrow> cs = goodChunks inflate rs \<and>
       db_chunk (st_db s') = filter (\<lambda>x. cr_seq x \<notin> cr_seq ` {r \<in> set rs. corrupt inflate r}) (db_chunk (st_db s)))"
  using assms
proof (induction rs arbitrary: s res s')
  case (Cons r rs)
  have fresh: "cr_seq r \<notin> cr_seq ` set rs" using Cons.prems(3) by auto
  show ?case
  proof (cases "decodeChunk inflate (cr_data r)")
    case (Inl e)
    let ?d = "discard (dio (cr_seq r)) (bio (cr_seq r)) (cr_seq r) (cr_n r) s"
    have r: "r \<in> set (db_chunk (st_db s))" using Cons.prems(2) by simp
    note d = discard_ok [OF Cons.prems(1) r, of "dio (cr_seq r)" "bio (cr_seq r)"]
    show ?thesis
    proof (cases "dio (cr_seq r)")
      case True
      then have "set rs \<subseteq> set (db_chunk (st_db (snd ?d)))"
        using Cons.prems(2) d(3) fresh by (auto simp: image_iff)
      moreover have "decodeRows inflate dio bio rs (snd ?d) = (res, s')"
        using Cons.prems(4) True d(4) Inl by (cases ?d) auto
      ultimately have "storeInv s' \<and> accounted s' = accounted (snd ?d) \<and>
        goodChunks inflate (db_chunk (st_db s')) = goodChunks inflate (db_chunk (st_db (snd ?d))) \<and>
        (\<forall>cs. res = Inr cs \<longrightarrow> cs = goodChunks inflate rs \<and> db_chunk (st_db s') =
          filter (\<lambda>x. cr_seq x \<notin> cr_seq ` {r \<in> set rs. corrupt inflate r}) (db_chunk (st_db (snd ?d))))"
        using Cons.IH [OF d(1)] Cons.prems(3) by simp
      moreover have "{x \<in> set (r # rs). corrupt inflate x} = insert r {x \<in> set rs. corrupt inflate x}"
        using Inl by (auto simp: corrupt_def)
      moreover have "goodChunks inflate (db_chunk (st_db (snd ?d))) = goodChunks inflate (db_chunk (st_db s))"
        unfolding d(3) using good_without_corrupt [OF Cons.prems(1) r] Inl by (auto simp: corrupt_def)
      ultimately show ?thesis using d True Inl by (auto intro!: filter_cong)
    next
      case False
      then have "res = Inl SqlError" "s' = snd ?d"
        using Cons.prems(4) d(4) Inl by (cases ?d, auto)+
      with d False show ?thesis by simp
    qed
  next
    case (Inr readings)
    obtain res1 s1 where e: "decodeRows inflate dio bio rs s = (res1, s1)" by fastforce
    have "{x \<in> set (r # rs). corrupt inflate x} = {x \<in> set rs. corrupt inflate x}"
      using Inr by (auto simp: corrupt_def)
    with Cons.IH [OF Cons.prems(1) _ _ e] Cons.prems Inr e show ?thesis
      by (cases res1) auto
  qed
qed auto

lemma scan_table:
  assumes "storeInv s"
  shows "set (scanRows m t (take k (db_chunk (st_db s)))) \<subseteq> set (db_chunk (st_db s))"
    and "distinct (map cr_seq (scanRows m t (take k (db_chunk (st_db s)))))"
proof -
  obtain rest where r: "take k (db_chunk (st_db s)) = scanRows m t (take k (db_chunk (st_db s))) @ rest"
    using scanRows_prefix by blast
  then show "set (scanRows m t (take k (db_chunk (st_db s)))) \<subseteq> set (db_chunk (st_db s))"
    by (metis Un_upper1 in_set_takeD set_append subset_eq)
  have "distinct (map cr_seq (take k (db_chunk (st_db s))))"
    using assms by (auto simp: storeInv_def dbInv_def tableOk_def strict_sorted_iff take_map [symmetric])
  with r show "distinct (map cr_seq (scanRows m t (take k (db_chunk (st_db s)))))"
    by (metis distinct_append map_append)
qed

lemma readBatch_ok:
  assumes "storeInv s" "readBatch inflate io dio bio m s = (res, s')"
  shows "storeInv s' \<and> accounted s' = accounted s \<and>
    goodChunks inflate (db_chunk (st_db s')) = goodChunks inflate (db_chunk (st_db s)) \<and>
    (\<forall>cs. res = Inr cs \<longrightarrow>
       (let rs = scanRows m 0 (take readBatchScanLimit (db_chunk (st_db s))) in
        cs = goodChunks inflate rs \<and> db_chunk (st_db s') =
          filter (\<lambda>x. cr_seq x \<notin> cr_seq ` {r \<in> set rs. corrupt inflate r}) (db_chunk (st_db s))))"
proof (cases io)
  case True
  then have "decodeRows inflate dio bio (scanRows m 0 (take readBatchScanLimit (db_chunk (st_db s)))) s =
      (res, s')"
    using assms(2) by (simp add: readBatch_def)
  from decodeRows_ok [OF assms(1) scan_table [OF assms(1)] this] show ?thesis by (simp add: Let_def)
next
  case False
  with assms show ?thesis by (auto simp: readBatch_def)
qed

lemma storeInv_emptyStore: "storeInv (emptyStore freshDb opts)"
  by (simp add: inv_defs emptyStore_def freshDb_def metaInt_def)

lemma sampleStore_ok:
  "storeInv sampleStore" "chunkable (st_buf sampleStore)" "st_unflushed sampleStore = []"
  "st_buf sampleStore = [sampleReading]"
  by (simp_all add: sampleStore_def append_reading_ok storeInv_emptyStore)
    (simp_all add: append_reading_def emptyStore_def chunkable_def idsNonneg_def sampleReading_def
      milliInRange_def nanosPerMilli_def recordBound_def)

end
