(* ===== verification/Capacity.thy ===== *)
theory Capacity
  imports QueueStore
begin

text \<open>
  Size limits of the queue, \<^verbatim>\<open>src/internal/queue/capacity.go\<close>: the storage levels shown to
  the operator, and the maintenance pass that evicts the oldest chunks when \<^verbatim>\<open>queue.db\<close>
  exceeds its limit or the volume runs short of free space.

  The arithmetic on sizes is the code's: doubles for the estimate, and a conversion back to
  \<^verbatim>\<open>int64\<close> whose result for a value out of range Go leaves to the platform (the argument
  \<open>cvt\<close>). The PRAGMA statements that compact the file do not change its contents; the page
  count they leave is an input.

  The results: a pass evicts a non-empty prefix of the table of at most
  \<^verbatim>\<open>maxEvictChunksPerPass\<close> chunks, only when a limit is exceeded; evicted readings are
  counted, so that the store's accounts still balance, and at most
  \<^verbatim>\<open>maxEvictPassesPerTick\<close> passes run.
\<close>

datatype storageLevel = StorageNormal | StorageWarning | StorageCritical | StorageFull

definition classifyStorageLevel :: "float64 \<Rightarrow> float64 \<Rightarrow> storageLevel" where
  "classifyStorageLevel usedPercent fullPercent =
     (if f64_le fullPercent usedPercent then StorageFull
      else if f64_le (f64_of_int 90) usedPercent then StorageCritical
      else if f64_le (f64_of_int 70) usedPercent then StorageWarning
      else StorageNormal)"

definition maxEvictPassesPerTick :: nat where "maxEvictPassesPerTick = 5"

definition toInt64 :: "(float64 \<Rightarrow> int) \<Rightarrow> float64 \<Rightarrow> int" where
  "toInt64 cvt v = (case f64_to_int64 v of Some i \<Rightarrow> i | None \<Rightarrow> cvt v)"

definition wrap64 :: "int \<Rightarrow> int" where
  "wrap64 i = sint (word_of_int i :: 64 word)"

text \<open>\<open>du\<close> is what \<^verbatim>\<open>DiskUsage\<close> returns, the used and total bytes or \<open>None\<close> for an error.\<close>

definition excessBytes :: "(float64 \<Rightarrow> int) \<Rightarrow> (uint64 \<times> uint64) option \<Rightarrow> store \<Rightarrow> int" where
  "excessBytes cvt du s =
     (let excess = st_dbBytes s - opt_MaxBytes (st_opts s) in
      if opt_DiskUsage (st_opts s)
      then (case du of
              None \<Rightarrow> excess
            | Some (used, totl) \<Rightarrow>
                (if totl > 0
                 then let allowed = f64_div (f64_mul (f64_of_int (uint totl))
                            (f64_sub (f64_of_int 100) (opt_MinFreePercent (st_opts s)))) (f64_of_int 100)
                      in max excess (toInt64 cvt (f64_sub (f64_of_int (uint used)) allowed))
                 else excess))
      else excess)"

definition compact :: "(int \<times> int) option \<Rightarrow> store \<Rightarrow> store" where
  "compact pragma s = refreshSize pragma s"

record evict_io =
  ev_query :: bool
  ev_tx :: bool
  ev_bounds :: bool
  ev_disk :: "(uint64 \<times> uint64) option"
  ev_size :: "(int \<times> int) option"

text \<open>How many chunks one pass evicts, from the excess, the pending chunks and the file size.\<close>

definition evictCount :: "(float64 \<Rightarrow> int) \<Rightarrow> int \<Rightarrow> int \<Rightarrow> int \<Rightarrow> int" where
  "evictCount cvt excess chunks siz =
     (let avg = f64_div (f64_of_int siz) (f64_of_int chunks);
          avg = (if f64_le avg (f64_of_int 0) then f64_of_int 1 else avg)
      in min (wrap64 (toInt64 cvt (f64_ceil (f64_div (f64_of_int excess) avg)) + 1))
           (min maxEvictChunksPerPass chunks))"

text \<open>\<^verbatim>\<open>SELECT seq FROM chunk ORDER BY seq LIMIT 1 OFFSET off\<close>; SQLite reads a negative offset as 0.\<close>

definition seqAtOffset :: "int \<Rightarrow> queue_db \<Rightarrow> int option" where
  "seqAtOffset off db =
     (let i = nat off in if i < length (db_chunk db) then Some (cr_seq (db_chunk db ! i)) else None)"

definition evictOnce :: "(float64 \<Rightarrow> int) \<Rightarrow> evict_io \<Rightarrow> store \<Rightarrow> bool \<times> store" where
  "evictOnce cvt io s =
     (let excess = excessBytes cvt (ev_disk io) s; chunks = st_pendingChunks s; siz = st_dbBytes s in
      if excess \<le> 0 then (False, s)
      else if chunks \<le> 0 then (False, s)
      else let k = evictCount cvt excess chunks siz in
        (case (if ev_query io then seqAtOffset (k - 1) (st_db s) else None) of
           None \<Rightarrow> (False, s)
         | Some cutSeq \<Rightarrow>
             (case deleteThrough (ev_tx io) cutSeq ''evicted_readings'' (st_db s) of
                (Inl e, db) \<Rightarrow> (False, s\<lparr>st_db := db\<rparr>)
              | (Inr (evChunks, evReadings), db) \<Rightarrow>
                  (evChunks > 0, compact (ev_size io) (refreshBounds (ev_bounds io)
                     (s\<lparr>st_db := db, st_pendingChunks := st_pendingChunks s - evChunks,
                        st_pendingReadings := st_pendingReadings s - evReadings,
                        st_evicted := st_evicted s + evReadings\<rparr>))))))"

fun evictLoop :: "(float64 \<Rightarrow> int) \<Rightarrow> (nat \<Rightarrow> evict_io) \<Rightarrow> nat \<Rightarrow> nat \<Rightarrow> store \<Rightarrow> store" where
  "evictLoop cvt io 0 i s = s"
| "evictLoop cvt io (Suc n) i s =
     (case evictOnce cvt (io i) s of
        (False, s) \<Rightarrow> s
      | (True, s) \<Rightarrow> evictLoop cvt io n (Suc i) s)"

definition maintain :: "(float64 \<Rightarrow> int) \<Rightarrow> (int \<times> int) option \<Rightarrow> (nat \<Rightarrow> evict_io) \<Rightarrow> store \<Rightarrow> store" where
  "maintain cvt pragma io s = evictLoop cvt io maxEvictPassesPerTick 0 (compact pragma s)"

text \<open>A store of 8 KiB at most, with one chunk of three readings, whose file has three 4 KiB pages.\<close>

definition overfullStore :: store where
  "overfullStore = (emptyStore
     \<lparr>db_chunk = [\<lparr>cr_seq = 4, cr_first_ts = 1, cr_last_ts = 2, cr_n = 3, cr_data = []\<rparr>], db_sequence = 4,
      db_meta = [''pending_chunks'' \<mapsto> 1, ''pending_readings'' \<mapsto> 3], db_stream_id = None\<rparr>
     (withDefaults (zeroOptions\<lparr>opt_MaxBytes := 8192\<rparr>)))\<lparr>st_pendingChunks := 1, st_pendingReadings := 3\<rparr>"

definition goodEvict :: "nat \<Rightarrow> evict_io" where
  "goodEvict i = \<lparr>ev_query = True, ev_tx = True, ev_bounds = True, ev_disk = None, ev_size = Some (2, 4096)\<rparr>"

section \<open>Lemmas\<close>

lemma compact_simps [store_simps]:
  "storeInv (compact p s) = storeInv s" "accounted (compact p s) = accounted s"
  "st_db (compact p s) = st_db s"
  by (simp_all add: compact_def store_simps)

lemma evictCount_le:
  "evictCount cvt excess chunks siz \<le> maxEvictChunksPerPass" "evictCount cvt excess chunks siz \<le> chunks"
  by (auto simp: evictCount_def Let_def)

lemma sorted_filter_take:
  fixes f :: "'a \<Rightarrow> int"
  assumes "sorted_wrt (<) (map f xs)" "i < length xs"
  shows "filter (\<lambda>x. f x \<le> f (xs ! i)) xs = take (Suc i) xs"
    and "filter (\<lambda>x. f (xs ! i) < f x) xs = drop (Suc i) xs"
proof -
  have a: "f x \<le> f (xs ! i)" if x: "x \<in> set (take (Suc i) xs)" for x
  proof -
    from x obtain j where "j < length xs" "j \<le> i" "x = xs ! j"
      by (auto simp: in_set_conv_nth less_Suc_eq_le)
    then show ?thesis
      using assms by (cases "j = i") (auto simp: sorted_wrt_iff_nth_less less_imp_le)
  qed
  have b: "f (xs ! i) < f x" if x: "x \<in> set (drop (Suc i) xs)" for x
  proof -
    from x obtain j where "j < length xs - Suc i" "x = xs ! (Suc i + j)"
      by (auto simp: in_set_conv_nth)
    then show ?thesis using assms by (auto simp: sorted_wrt_iff_nth_less)
  qed
  have "filter P xs = filter P (take (Suc i) xs) @ filter P (drop (Suc i) xs)" for P
    by (metis append_take_drop_id filter_append)
  moreover have "filter (\<lambda>x. f x \<le> f (xs ! i)) (drop (Suc i) xs) = []"
    "filter (\<lambda>x. f x \<le> f (xs ! i)) (take (Suc i) xs) = take (Suc i) xs"
    "filter (\<lambda>x. f (xs ! i) < f x) (drop (Suc i) xs) = drop (Suc i) xs"
    "filter (\<lambda>x. f (xs ! i) < f x) (take (Suc i) xs) = []"
    using a b by (force simp: filter_empty_conv filter_id_conv)+
  ultimately show "filter (\<lambda>x. f x \<le> f (xs ! i)) xs = take (Suc i) xs"
    and "filter (\<lambda>x. f (xs ! i) < f x) xs = drop (Suc i) xs" by simp_all
qed

text \<open>One pass: nothing happens, or a non-empty prefix goes.\<close>

lemma evictOnce_spec:
  assumes "storeInv s" "evictOnce cvt io s = (b, s')"
  shows "storeInv s' \<and> accounted s' = accounted s \<and>
    (\<not> b \<and> s' = s \<or>
     b \<and> 0 < excessBytes cvt (ev_disk io) s \<and>
       (\<exists>k. 0 < k \<and> int k \<le> maxEvictChunksPerPass \<and> k \<le> length (db_chunk (st_db s)) \<and>
          db_chunk (st_db s') = drop k (db_chunk (st_db s)) \<and>
          st_evicted s' = st_evicted s + sum_list (map cr_n (take k (db_chunk (st_db s))))))"
proof -
  let ?k = "evictCount cvt (excessBytes cvt (ev_disk io) s) (st_pendingChunks s) (st_dbBytes s)"
  let ?i = "nat (?k - 1)" and ?rows = "db_chunk (st_db s)"
  show ?thesis
  proof (cases "b \<or> s' \<noteq> s")
    case False
    then show ?thesis using assms(1) by auto
  next
    case True
    have inv: "dbInv (st_db s)" and srt: "sorted_wrt (<) (map cr_seq ?rows)"
      using assms(1) by (auto simp: storeInv_def dbInv_def tableOk_def)
    from True assms(2) obtain res db' where ex: "0 < excessBytes cvt (ev_disk io) s"
      and ch: "0 < st_pendingChunks s" and i: "?i < length ?rows"
      and d: "deleteThrough (ev_tx io) (cr_seq (?rows ! ?i)) ''evicted_readings'' (st_db s) = (res, db')"
      by (auto simp: evictOnce_def Let_def seqAtOffset_def split: if_splits prod.splits)
    show ?thesis
    proof (cases res)
      case (Inl e)
      with True assms(2) d ex ch i deleteThrough_err [OF d [unfolded Inl]] show ?thesis
        by (auto simp: evictOnce_def Let_def seqAtOffset_def split: if_splits)
    next
      case (Inr p)
      obtain c n where p: "p = (c, n)" by fastforce
      note spec = deleteThrough_spec [OF inv d [unfolded Inr p], simplified]
      have gone: "goneThrough (cr_seq (?rows ! ?i)) (st_db s) = take (Suc ?i) ?rows"
        using sorted_filter_take [OF srt i] by (simp add: goneThrough_def)
      have c: "c = int (Suc ?i)" using spec(2) gone i by simp
      have s': "b" "s' = compact (ev_size io) (refreshBounds (ev_bounds io)
                     (s\<lparr>st_db := db', st_pendingChunks := st_pendingChunks s - c,
                        st_pendingReadings := st_pendingReadings s - n,
                        st_evicted := st_evicted s + n\<rparr>))"
        using True assms(2) d ex ch i c Inr p
        by (auto simp: evictOnce_def Let_def seqAtOffset_def split: if_splits)
      have "0 < Suc ?i" "int (Suc ?i) \<le> maxEvictChunksPerPass" "Suc ?i \<le> length ?rows"
        using evictCount_le(1) [of cvt "excessBytes cvt (ev_disk io) s" "st_pendingChunks s" "st_dbBytes s"] i
        by (auto simp: maxEvictChunksPerPass_def)
      moreover have "db_chunk (st_db s') = drop (Suc ?i) ?rows"
        using spec(7) sorted_filter_take [OF srt i] by (simp add: s' store_simps)
      moreover have "st_evicted s' = st_evicted s + sum_list (map cr_n (take (Suc ?i) ?rows))"
        using spec(3) gone by (simp add: s' compact_def store_simps)
      moreover have "storeInv s' \<and> accounted s' = accounted s"
        using assms(1) spec
        by (simp add: s' storeInv_def unflushedOk_def accounted_def store_simps compact_def)
      ultimately show ?thesis using s' ex by blast
    qed
  qed
qed

lemma evictLoop_spec:
  assumes "storeInv s"
  shows "storeInv (evictLoop cvt io n i s) \<and> accounted (evictLoop cvt io n i s) = accounted s \<and>
    (\<exists>k. int k \<le> int n * maxEvictChunksPerPass \<and>
       db_chunk (st_db (evictLoop cvt io n i s)) = drop k (db_chunk (st_db s)) \<and>
       st_evicted (evictLoop cvt io n i s) = st_evicted s + sum_list (map cr_n (take k (db_chunk (st_db s)))))"
  using assms
proof (induction n arbitrary: i s)
  case 0
  then show ?case by (auto intro: exI [of _ 0])
next
  case (Suc n)
  obtain b s1 where e: "evictOnce cvt (io i) s = (b, s1)" by fastforce
  note one = evictOnce_spec [OF Suc.prems e]
  show ?case
  proof (cases b)
    case False
    with one e Suc.prems show ?thesis
      by (auto intro!: exI [of _ 0] simp: maxEvictChunksPerPass_def)
  next
    case True
    with one obtain k where k: "int k \<le> maxEvictChunksPerPass" "k \<le> length (db_chunk (st_db s))"
      "db_chunk (st_db s1) = drop k (db_chunk (st_db s))"
      "st_evicted s1 = st_evicted s + sum_list (map cr_n (take k (db_chunk (st_db s))))"
      by auto
    from one have "storeInv s1" by simp
    from Suc.IH [OF this, of "Suc i"] obtain j where j: "int j \<le> int n * maxEvictChunksPerPass"
      "db_chunk (st_db (evictLoop cvt io n (Suc i) s1)) = drop j (db_chunk (st_db s1))"
      "st_evicted (evictLoop cvt io n (Suc i) s1) =
         st_evicted s1 + sum_list (map cr_n (take j (db_chunk (st_db s1))))"
      "storeInv (evictLoop cvt io n (Suc i) s1)" "accounted (evictLoop cvt io n (Suc i) s1) = accounted s1"
      by auto
    have "sum_list (map cr_n (take k (db_chunk (st_db s)))) + sum_list (map cr_n (take j (drop k (db_chunk (st_db s)))))
        = sum_list (map cr_n (take (k + j) (db_chunk (st_db s))))"
      by (simp add: take_add)
    with k j one e True show ?thesis
      by (intro conjI exI [of _ "k + j"]) (auto simp: algebra_simps)
  qed
qed

lemma maintain_spec:
  assumes "storeInv s"
  shows "storeInv (maintain cvt pragma io s) \<and> accounted (maintain cvt pragma io s) = accounted s \<and>
    (\<exists>k. k \<le> 100000 \<and> db_chunk (st_db (maintain cvt pragma io s)) = drop k (db_chunk (st_db s)) \<and>
       st_evicted (maintain cvt pragma io s) =
         st_evicted s + sum_list (map cr_n (take k (db_chunk (st_db s))))) \<and>
    (excessBytes cvt (ev_disk (io 0)) (compact pragma s) \<le> 0 \<longrightarrow> maintain cvt pragma io s = compact pragma s)"
proof -
  have "storeInv (compact pragma s)" using assms by (simp add: store_simps)
  from evictLoop_spec [OF this, of cvt io maxEvictPassesPerTick 0]
  have "storeInv (maintain cvt pragma io s) \<and> accounted (maintain cvt pragma io s) = accounted s \<and>
    (\<exists>k. k \<le> 100000 \<and> db_chunk (st_db (maintain cvt pragma io s)) = drop k (db_chunk (st_db s)) \<and>
       st_evicted (maintain cvt pragma io s) =
         st_evicted s + sum_list (map cr_n (take k (db_chunk (st_db s)))))"
    by (auto simp: maintain_def store_simps maxEvictPassesPerTick_def maxEvictChunksPerPass_def compact_def)
  moreover have "maintain cvt pragma io s = compact pragma s"
    if "excessBytes cvt (ev_disk (io 0)) (compact pragma s) \<le> 0"
    using that by (simp add: maintain_def maxEvictPassesPerTick_def evictOnce_def Let_def numeral_eq_Suc)
  ultimately show ?thesis by blast
qed

text \<open>
  C15: eviction. From a state that satisfies the store's invariant, a maintenance pass, whatever the
  disk reports and whichever statements fail, keeps the invariant and the number of readings
  accounted for; it deletes a prefix of the table (the oldest chunks), at most
  \<^verbatim>\<open>maxEvictPassesPerTick * maxEvictChunksPerPass\<close> chunks, and counts exactly their readings
  as evicted; and it deletes nothing unless the file is over its limit or the disk too full.
\<close>

theorem maintain_evicts_prefix:
  assumes "storeInv s"
  shows "storeInv (maintain cvt pragma io s) \<and> accounted (maintain cvt pragma io s) = accounted s \<and>
    (\<exists>k. k \<le> 100000 \<and> db_chunk (st_db (maintain cvt pragma io s)) = drop k (db_chunk (st_db s)) \<and>
       st_evicted (maintain cvt pragma io s) =
         st_evicted s + sum_list (map cr_n (take k (db_chunk (st_db s))))) \<and>
    (excessBytes cvt (ev_disk (io 0)) (compact pragma s) \<le> 0 \<longrightarrow> maintain cvt pragma io s = compact pragma s)"
  by (rule maintain_spec [OF assms])

theorem maintain_evicts_prefix_witness:
  "storeInv (maintain (\<lambda>_. 0) (Some (3, 4096)) goodEvict overfullStore) \<and>
   db_chunk (st_db (maintain (\<lambda>_. 0) (Some (3, 4096)) goodEvict overfullStore)) = [] \<and>
   st_evicted (maintain (\<lambda>_. 0) (Some (3, 4096)) goodEvict overfullStore) = 3"
proof -
  let ?m = "maintain (\<lambda>_. 0) (Some (3, 4096)) goodEvict overfullStore"
  have inv: "storeInv overfullStore"
    by (simp add: overfullStore_def emptyStore_def inv_defs metaInt_def)
  have k: "evictCount (\<lambda>_. 0) 4096 1 12288 \<le> 1"
    using evictCount_le(2) [of "\<lambda>_. 0" 4096 1 12288] by simp
  have gone: "db_chunk (st_db ?m) = []"
    by (simp add: maintain_def maxEvictPassesPerTick_def numeral_eq_Suc evictOnce_def Let_def)
      (simp add: overfullStore_def emptyStore_def withDefaults_def zeroOptions_def compact_def refreshSize_def goodEvict_def
        evictOnce_def excessBytes_def seqAtOffset_def k deleteThrough_def Let_def addMeta_def refreshBounds_def)
  obtain j where "db_chunk (st_db ?m) = drop j (db_chunk (st_db overfullStore))"
    "st_evicted ?m = st_evicted overfullStore + sum_list (map cr_n (take j (db_chunk (st_db overfullStore))))"
    using maintain_evicts_prefix [OF inv] by blast
  with gone have "st_evicted ?m = 3"
    by (cases j) (simp_all add: overfullStore_def emptyStore_def)
  with gone maintain_evicts_prefix [OF inv] show ?thesis by blast
qed


section \<open>The maintenance loop\<close>

text \<open>\<^verbatim>\<open>RunMaintenance\<close>: once at the start and once per tick, with what each pass finds.\<close>

definition runMaintenance :: "(float64 \<Rightarrow> int) \<Rightarrow> ((int \<times> int) option \<times> (nat \<Rightarrow> evict_io)) list \<Rightarrow> store \<Rightarrow> store" where
  "runMaintenance cvt passes s = fold (\<lambda>(pragma, io). maintain cvt pragma io) passes s"

text \<open>However often it runs, what is gone is a prefix of what was there, and it is counted.\<close>

lemma runMaintenance_prefix:
  assumes "storeInv s"
  shows "storeInv (runMaintenance cvt passes s) \<and> accounted (runMaintenance cvt passes s) = accounted s \<and>
    (\<exists>k. db_chunk (st_db (runMaintenance cvt passes s)) = drop k (db_chunk (st_db s)) \<and>
       st_evicted (runMaintenance cvt passes s) = st_evicted s + sum_list (map cr_n (take k (db_chunk (st_db s)))))"
  using assms
proof (induction passes rule: rev_induct)
  case Nil
  then show ?case by (auto simp: runMaintenance_def intro: exI [of _ 0])
next
  case (snoc pass passes)
  obtain pragma io where pass: "pass = (pragma, io)" by (cases pass)
  let ?r = "runMaintenance cvt passes s" and ?rows = "db_chunk (st_db s)"
  obtain k where k: "storeInv ?r" "accounted ?r = accounted s" "db_chunk (st_db ?r) = drop k ?rows"
    "st_evicted ?r = st_evicted s + sum_list (map cr_n (take k ?rows))"
    using snoc by blast
  obtain j where j: "storeInv (maintain cvt pragma io ?r)" "accounted (maintain cvt pragma io ?r) = accounted ?r"
    "db_chunk (st_db (maintain cvt pragma io ?r)) = drop j (drop k ?rows)"
    "st_evicted (maintain cvt pragma io ?r) = st_evicted ?r + sum_list (map cr_n (take j (drop k ?rows)))"
    using maintain_spec [OF k(1), of cvt pragma io] k(3) by auto
  have "take (k + j) ?rows = take k ?rows @ take j (drop k ?rows)" by (rule take_add)
  then show ?case
    using k j by (intro conjI exI [of _ "k + j"]) (simp_all add: runMaintenance_def pass add.commute)
qed

section \<open>Storage levels\<close>

text \<open>The levels in the order of the page.\<close>

definition levelRank :: "storageLevel \<Rightarrow> nat" where
  "levelRank l = (case l of StorageNormal \<Rightarrow> 0 | StorageWarning \<Rightarrow> 1 | StorageCritical \<Rightarrow> 2 | StorageFull \<Rightarrow> 3)"

instantiation storageLevel :: linorder
begin

definition less_eq_storageLevel :: "storageLevel \<Rightarrow> storageLevel \<Rightarrow> bool" where
  "less_eq_storageLevel a b \<longleftrightarrow> levelRank a \<le> levelRank b"

definition less_storageLevel :: "storageLevel \<Rightarrow> storageLevel \<Rightarrow> bool" where
  "less_storageLevel a b \<longleftrightarrow> levelRank a < levelRank b"

instance
  by standard (auto simp: less_eq_storageLevel_def less_storageLevel_def levelRank_def split: storageLevel.splits)

end

text \<open>A fuller disk never shows a lower level, whatever the threshold, NaN included.\<close>

lemma classifyStorageLevel_mono:
  "f64_le a b \<Longrightarrow> classifyStorageLevel a full \<le> classifyStorageLevel b full"
  by (auto simp: classifyStorageLevel_def less_eq_storageLevel_def levelRank_def f64_le_def)

end
