(* ===== verification/QueueSpec.thy ===== *)
theory QueueSpec
  imports Capacity
begin

text \<open>
  What the queue promises. The readings a store holds, in the order they were appended, form an
  abstract first-in first-out queue (\<open>contents\<close>); every operation of \<^verbatim>\<open>store.go\<close> refines
  an operation on that list. The interface the forwarder sees (\<^verbatim>\<open>forwarder.Source\<close>) is the
  locale \<open>fifo_source\<close>, interpreted here on the store.
\<close>

section \<open>The abstract queue\<close>

definition blobReadings :: "(byte list \<Rightarrow> byte list option) \<Rightarrow> byte list \<Rightarrow> reading list" where
  "blobReadings inflate blob = (case decodeChunk inflate blob of Inl e \<Rightarrow> [] | Inr rs \<Rightarrow> rs)"

definition tableReadings :: "(byte list \<Rightarrow> byte list option) \<Rightarrow> chunk_row list \<Rightarrow> reading list" where
  "tableReadings inflate rows = concat (map (\<lambda>r. blobReadings inflate (cr_data r)) rows)"

definition contents :: "(byte list \<Rightarrow> byte list option) \<Rightarrow> store \<Rightarrow> reading list" where
  "contents inflate s =
     tableReadings inflate (db_chunk (st_db s)) @
     concat (map (\<lambda>c. blobReadings inflate (pc_data c)) (st_unflushed s)) @
     map truncReading (st_buf s)"

definition chunksOf :: "(byte list \<Rightarrow> byte list option) \<Rightarrow> store \<Rightarrow> chunk list" where
  "chunksOf inflate s = goodChunks inflate (db_chunk (st_db s))"

lemma tableReadings_simps [store_simps]:
  "tableReadings inflate [] = []"
  "tableReadings inflate (xs @ ys) = tableReadings inflate xs @ tableReadings inflate ys"
  by (simp_all add: tableReadings_def)

lemma tableReadings_rowsOf [store_simps]:
  "tableReadings inflate (rowsOf q cs) = concat (map (\<lambda>c. blobReadings inflate (pc_data c)) cs)"
  by (induction cs arbitrary: q) (simp_all add: tableReadings_def)

lemma goodChunks_append [store_simps]:
  "goodChunks inflate (xs @ ys) = goodChunks inflate xs @ goodChunks inflate ys"
  by (induction xs) (auto split: sum.splits)

lemma goodChunks_filter_seq [store_simps]:
  "goodChunks inflate (filter (\<lambda>r. P (cr_seq r)) rs) = filter (\<lambda>c. P (ck_Seq c)) (goodChunks inflate rs)"
  by (induction rs) (auto split: sum.splits)

lemma goodChunks_seqs: "set (map ck_Seq (goodChunks inflate rs)) \<subseteq> set (map cr_seq rs)"
  by (induction rs) (auto split: sum.splits)

lemma goodChunks_sorted:
  "sorted_wrt (<) (map cr_seq rs) \<Longrightarrow> sorted_wrt (<) (map ck_Seq (goodChunks inflate rs))"
proof (induction rs)
  case (Cons r rs)
  then show ?case using goodChunks_seqs [of inflate rs] by (fastforce split: sum.splits)
qed simp

lemma goodChunks_readings:
  "concat (map ck_Readings (goodChunks inflate rs)) = tableReadings inflate rs"
  by (induction rs) (auto simp: tableReadings_def blobReadings_def split: sum.splits)

lemma sorted_filter_split:
  "sorted_wrt (<) (map f xs) \<Longrightarrow> filter (\<lambda>x. f x \<le> t) xs @ filter (\<lambda>x. t < f x) xs = xs"
  for f :: "'a \<Rightarrow> int"
proof (induction xs)
  case (Cons x xs)
  have "filter (\<lambda>y. f y \<le> t) xs = [] \<and> filter (\<lambda>y. t < f y) xs = xs" if "t < f x"
    using Cons.prems that by (fastforce simp: filter_empty_conv filter_id_conv)
  with Cons show ?case by auto
qed simp

lemma sorted_last: "sorted_wrt (<) (map f xs) \<Longrightarrow> x \<in> set xs \<Longrightarrow> f x \<le> f (last xs)"
  for f :: "'a \<Rightarrow> int"
  by (induction xs) (auto simp: less_imp_le)

lemma discard_streamID [store_simps]: "st_streamID (snd (discard io b q n s)) = st_streamID s"
  by (simp add: discard_def Let_def store_simps)

lemma decodeRows_streamID: "st_streamID (snd (decodeRows inflate dio bio rs s)) = st_streamID s"
proof (induction rs arbitrary: s)
  case (Cons r rs)
  have "st_streamID (snd (discard (dio (cr_seq r)) (bio (cr_seq r)) (cr_seq r) (cr_n r) s)) = st_streamID s"
    by (rule discard_streamID)
  with Cons show ?case
    by (auto split: sum.splits prod.splits option.splits) (metis snd_conv)+
qed simp

section \<open>The forwarder's view\<close>

text \<open>
  \<^verbatim>\<open>forwarder.Source\<close>: \<open>chunks\<close> is the sequence of readable pending chunks. Reading returns
  the beginning of it and changes nothing that is visible; acknowledging through \<open>t\<close> removes exactly
  the chunks up to \<open>t\<close>, or fails and changes nothing. The argument \<open>'io\<close> of an operation is the
  outcome of the database calls it makes.
\<close>

locale fifo_source =
  fixes inv :: "'s \<Rightarrow> bool"
    and chunks :: "'s \<Rightarrow> chunk list"
    and streamID :: "'s \<Rightarrow> string"
    and read :: "'io \<Rightarrow> int \<Rightarrow> 's \<Rightarrow> (queue_err + chunk list) \<times> 's"
    and ackThrough :: "'io \<Rightarrow> int \<Rightarrow> 's \<Rightarrow> queue_err option \<times> 's"
  assumes seq_sorted: "inv s \<Longrightarrow> sorted_wrt (<) (map ck_Seq (chunks s))"
    and read_same: "inv s \<Longrightarrow> read io m s = (res, s') \<Longrightarrow>
      inv s' \<and> chunks s' = chunks s \<and> streamID s' = streamID s"
    and read_prefix: "inv s \<Longrightarrow> read io m s = (Inr cs, s') \<Longrightarrow> \<exists>rest. chunks s = cs @ rest"
    and ack_removes: "inv s \<Longrightarrow> ackThrough io t s = (None, s') \<Longrightarrow>
      inv s' \<and> chunks s' = filter (\<lambda>c. t < ck_Seq c) (chunks s) \<and> streamID s' = streamID s"
    and ack_fails: "inv s \<Longrightarrow> ackThrough io t s = (Some e, s') \<Longrightarrow> s' = s"
begin

text \<open>Acknowledging the last sequence number of a batch removes the batch and nothing else.\<close>

lemma ack_batch:
  assumes "inv s" "chunks s = cs @ rest" "cs \<noteq> []"
    and "ackThrough io (ck_Seq (last cs)) s = (None, s')"
  shows "chunks s' = rest"
proof -
  have srt: "sorted_wrt (<) (map ck_Seq cs @ map ck_Seq rest)"
    using seq_sorted [OF assms(1)] assms(2) by simp
  have "ck_Seq c \<le> ck_Seq (last cs)" if "c \<in> set cs" for c
    using srt that by (intro sorted_last) (auto simp: sorted_wrt_append)
  moreover have "ck_Seq (last cs) < ck_Seq c" if "c \<in> set rest" for c
    using srt that assms(3) by (simp add: sorted_wrt_append)
  ultimately have "filter (\<lambda>c. ck_Seq (last cs) < ck_Seq c) (cs @ rest) = rest"
    by (simp add: filter_empty_conv filter_id_conv not_less)
  with ack_removes [OF assms(1,4)] assms(2) show ?thesis by simp
qed

end

record source_io =
  sio_read :: bool
  sio_discard :: "int \<Rightarrow> bool"
  sio_bounds :: "int \<Rightarrow> bool"
  sio_ack :: bool
  sio_ackBounds :: bool

definition sourceRead :: "(byte list \<Rightarrow> byte list option) \<Rightarrow> source_io \<Rightarrow> int \<Rightarrow> store \<Rightarrow>
    (queue_err + chunk list) \<times> store" where
  "sourceRead inflate io m s = readBatch inflate (sio_read io) (sio_discard io) (sio_bounds io) m s"

definition sourceAck :: "source_io \<Rightarrow> int \<Rightarrow> store \<Rightarrow> queue_err option \<times> store" where
  "sourceAck io t s = ack (sio_ack io) (sio_ackBounds io) t s"

lemma readBatch_streamID: "st_streamID (snd (readBatch inflate io dio bio m s)) = st_streamID s"
  by (simp add: readBatch_def decodeRows_streamID)

lemma ack_streamID: "st_streamID (snd (ack io b t s)) = st_streamID s"
  by (auto simp: ack_def store_simps split: prod.splits sum.splits)

lemma discard_memory:
  "st_unflushed (snd (discard io b q n s)) = st_unflushed s \<and> st_buf (snd (discard io b q n s)) = st_buf s"
  by (simp add: discard_def Let_def store_simps)

lemma decodeRows_memory:
  "st_unflushed (snd (decodeRows inflate dio bio rs s)) = st_unflushed s \<and>
   st_buf (snd (decodeRows inflate dio bio rs s)) = st_buf s"
proof (induction rs arbitrary: s)
  case (Cons r rs)
  with discard_memory [of "dio (cr_seq r)" "bio (cr_seq r)" "cr_seq r" "cr_n r" s] show ?case
    by (auto split: sum.splits prod.splits option.splits) (metis snd_conv)+
qed simp

lemma readBatch_memory:
  "st_unflushed (snd (readBatch inflate io dio bio m s)) = st_unflushed s \<and>
   st_buf (snd (readBatch inflate io dio bio m s)) = st_buf s"
  by (simp add: readBatch_def decodeRows_memory)

lemma ack_memory:
  "st_unflushed (snd (ack io b t s)) = st_unflushed s \<and> st_buf (snd (ack io b t s)) = st_buf s"
  by (auto simp: ack_def store_simps split: prod.splits sum.splits)

interpretation queue: fifo_source storeInv "chunksOf inflate" st_streamID "sourceRead inflate" sourceAck
  for inflate
proof
  fix s :: store
  assume inv: "storeInv s"
  show "sorted_wrt (<) (map ck_Seq (chunksOf inflate s))"
    using inv by (simp add: chunksOf_def goodChunks_sorted storeInv_def dbInv_def tableOk_def)
  fix io m res s'
  assume r: "sourceRead inflate io m s = (res, s')"
  then have rb: "readBatch inflate (sio_read io) (sio_discard io) (sio_bounds io) m s = (res, s')"
    by (simp add: sourceRead_def)
  show "storeInv s' \<and> chunksOf inflate s' = chunksOf inflate s \<and> st_streamID s' = st_streamID s"
    using readBatch_ok [OF inv rb] readBatch_streamID [of inflate "sio_read io" "sio_discard io" "sio_bounds io" m s]
    by (simp add: chunksOf_def rb)
next
  fix s :: store and io m cs s'
  assume inv: "storeInv s" and "sourceRead inflate io m s = (Inr cs, s')"
  then have rb: "readBatch inflate (sio_read io) (sio_discard io) (sio_bounds io) m s = (Inr cs, s')"
    by (simp add: sourceRead_def)
  let ?rs = "scanRows m 0 (take readBatchScanLimit (db_chunk (st_db s)))"
  obtain rest where "take readBatchScanLimit (db_chunk (st_db s)) = ?rs @ rest"
    using scanRows_prefix by blast
  then have "db_chunk (st_db s) = ?rs @ rest @ drop readBatchScanLimit (db_chunk (st_db s))"
    by (metis append.assoc append_take_drop_id)
  then have "chunksOf inflate s = goodChunks inflate ?rs @
      goodChunks inflate (rest @ drop readBatchScanLimit (db_chunk (st_db s)))"
    unfolding chunksOf_def by (metis goodChunks_append)
  moreover have "cs = goodChunks inflate ?rs" using readBatch_ok [OF inv rb] by (simp add: Let_def)
  ultimately show "\<exists>rest. chunksOf inflate s = cs @ rest" by blast
next
  fix s :: store and io t s'
  assume inv: "storeInv s" and a: "sourceAck io t s = (None, s')"
  from a show "storeInv s' \<and> chunksOf inflate s' = filter (\<lambda>c. t < ck_Seq c) (chunksOf inflate s) \<and>
      st_streamID s' = st_streamID s"
    using ack_ok [OF inv, of "sio_ack io" "sio_ackBounds io" t]
      ack_streamID [of "sio_ack io" "sio_ackBounds io" t s]
    by (simp add: sourceAck_def chunksOf_def store_simps)
next
  fix s :: store and io t e s'
  assume inv: "storeInv s" and a: "sourceAck io t s = (Some e, s')"
  then show "s' = s"
    using ack_ok(3) [OF inv, of "sio_ack io" "sio_ackBounds io" t] by (simp add: sourceAck_def)
qed

section \<open>Refinement\<close>

lemma blobReadings_encode:
  assumes "\<And>xs. inflate (deflate xs) = Some xs" "chunkable rs" "encodeChunk deflate rs = Inr blob"
  shows "blobReadings inflate blob = map truncReading rs"
proof -
  have "flate deflate inflate" using assms(1) by unfold_locales
  from flate.decode_encode [OF this assms(2)] assms(3) show ?thesis by (auto simp: blobReadings_def)
qed

lemma chunkable_encodes: "chunkable rs \<Longrightarrow> \<exists>blob. encodeChunk deflate rs = Inr blob"
  using decodeRaw_encodeRaw [of rs] by (auto simp: encodeChunk_def)

lemma flushPrepare_contents:
  assumes "\<And>xs. inflate (deflate xs) = Some xs" "chunkable (st_buf s)"
  shows "contents inflate (flushPrepare deflate s) = contents inflate s"
    and "length (st_unflushed (flushPrepare deflate s)) \<le> Suc (length (st_unflushed s))"
proof -
  obtain blob where "encodeChunk deflate (st_buf s) = Inr blob"
    using chunkable_encodes [OF assms(2)] by blast
  moreover from this have "blobReadings inflate blob = map truncReading (st_buf s)"
    by (intro blobReadings_encode [where inflate = inflate and deflate = deflate, OF assms(1,2)])
  moreover have "pc_data (mkPending (st_buf s) blob) = blob"
    by (simp add: mkPending_def Let_def split_def)
  ultimately show "contents inflate (flushPrepare deflate s) = contents inflate s"
    and "length (st_unflushed (flushPrepare deflate s)) \<le> Suc (length (st_unflushed s))"
    by (auto simp: contents_def flushPrepare_def Let_def)
qed

lemma flush_contents:
  assumes "\<And>xs. inflate (deflate xs) = Some xs" "chunkable (st_buf s)" "storeInv s"
    and "io \<or> int (length (st_unflushed s)) < opt_MaxUnflushedChunks (st_opts s)"
  shows "contents inflate (snd (flush deflate io s)) = contents inflate s"
proof -
  let ?p = "flushPrepare deflate s"
  note prep = flushPrepare_contents [where inflate = inflate and deflate = deflate, OF assms(1,2)]
  obtain res s' where f: "flush deflate io s = (res, s')" by fastforce
  then show ?thesis
  proof (cases rule: flush_cases)
    case empty
    then show ?thesis using f prep by simp
  next
    case failed
    have "flushFailed ?p = ?p"
      using prep(2) assms(4) failed(1) by (simp add: flushFailed_def Let_def store_simps)
    then show ?thesis using f failed prep by simp
  next
    case (written db)
    have inv: "dbInv (st_db s)" "list_all (\<lambda>c. 0 < pc_n c) (st_unflushed ?p)"
      using assms(3) flushPrepare_ok(2) [of s deflate] by (auto simp: storeInv_def unflushedOk_def)
    note ins = insertChunks_dbInv [OF inv written(3)]
    show ?thesis
      using prep(1) ins(2) by (simp add: f written(4) contents_def store_simps)
  qed
qed

text \<open>Reading a batch shows the front and changes nothing; acknowledging removes the front.\<close>

lemma readBatch_contents:
  assumes inv: "storeInv s" and r: "readBatch inflate io dio bio m s = (Inr cs, s')"
  shows "contents inflate s' = contents inflate s"
    and "\<exists>later. contents inflate s = concat (map ck_Readings cs) @ later"
proof -
  define sio where "sio = \<lparr>sio_read = io, sio_discard = dio, sio_bounds = bio, sio_ack = True,
    sio_ackBounds = True\<rparr>"
  have src: "sourceRead inflate sio m s = (Inr cs, s')" using r by (simp add: sourceRead_def sio_def)
  have same: "chunksOf inflate s' = chunksOf inflate s"
    using queue.read_same [OF inv src] by simp
  moreover have keep: "st_unflushed s' = st_unflushed s \<and> st_buf s' = st_buf s"
    using readBatch_memory [of inflate io dio bio m s] r by simp
  ultimately show "contents inflate s' = contents inflate s"
    by (simp add: contents_def chunksOf_def flip: goodChunks_readings)
  from queue.read_prefix [OF inv src] obtain rest where "chunksOf inflate s = cs @ rest" by blast
  then have "tableReadings inflate (db_chunk (st_db s)) =
      concat (map ck_Readings cs) @ concat (map ck_Readings rest)"
    by (metis chunksOf_def concat_append goodChunks_readings map_append)
  then show "\<exists>later. contents inflate s = concat (map ck_Readings cs) @ later"
    by (simp add: contents_def)
qed

lemma ack_contents:
  assumes inv: "storeInv s" and a: "ack io ioB t s = (None, s')"
  shows "contents inflate s =
    concat (map ck_Readings (filter (\<lambda>c. ck_Seq c \<le> t) (chunksOf inflate s))) @ contents inflate s'"
proof -
  have rows: "db_chunk (st_db s') = filter (\<lambda>r. t < cr_seq r) (db_chunk (st_db s))"
    using ack_ok(2) [OF inv, of io ioB t] a by simp
  have "sorted_wrt (<) (map cr_seq (db_chunk (st_db s)))"
    using inv by (simp add: storeInv_def dbInv_def tableOk_def)
  from sorted_filter_split [OF this, of t]
  have "tableReadings inflate (db_chunk (st_db s)) =
      tableReadings inflate (filter (\<lambda>r. cr_seq r \<le> t) (db_chunk (st_db s))) @
      tableReadings inflate (db_chunk (st_db s'))"
    by (metis rows tableReadings_simps(2))
  moreover have "st_unflushed s' = st_unflushed s \<and> st_buf s' = st_buf s"
    using ack_memory [of io ioB t s] a by simp
  ultimately show ?thesis
    using goodChunks_filter_seq [of inflate "\<lambda>q. q \<le> t" "db_chunk (st_db s)"]
    by (simp add: contents_def chunksOf_def flip: goodChunks_readings)
qed

text \<open>
  C2: the queue is first-in first-out. Under the DEFLATE contract and for readings that fit the
  chunk format, appending adds the reading (at the millisecond precision the format keeps) at the
  end; a flush that succeeds, or fails while the in-memory backlog is below its bound, changes
  nothing; a batch read holds the first readings and reading changes nothing; and a successful
  acknowledgement removes exactly the readings of the chunks up to its sequence number, from the
  front.
\<close>

theorem queue_refines_fifo:
  assumes flate: "\<And>xs. inflate (deflate xs) = Some xs"
    and inv: "storeInv s" and buf: "chunkable (st_buf s)"
  shows "contents inflate (append_reading r s) = contents inflate s @ [truncReading r] \<and>
    (io \<or> int (length (st_unflushed s)) < opt_MaxUnflushedChunks (st_opts s) \<longrightarrow>
       contents inflate (snd (flush deflate io s)) = contents inflate s) \<and>
    (\<forall>cs s'. readBatch inflate io dio bio m s = (Inr cs, s') \<longrightarrow>
       contents inflate s' = contents inflate s \<and>
       (\<exists>later. contents inflate s = concat (map ck_Readings cs) @ later)) \<and>
    (\<forall>s'. ack io ioB t s = (None, s') \<longrightarrow>
       contents inflate s =
         concat (map ck_Readings (filter (\<lambda>c. ck_Seq c \<le> t) (chunksOf inflate s))) @ contents inflate s')"
proof (intro conjI allI impI)
  show "contents inflate (append_reading r s) = contents inflate s @ [truncReading r]"
    by (simp add: contents_def append_reading_def)
  show "contents inflate (snd (flush deflate io s)) = contents inflate s"
    if "io \<or> int (length (st_unflushed s)) < opt_MaxUnflushedChunks (st_opts s)"
    using flate buf inv that by (rule flush_contents)
qed (fact readBatch_contents [OF inv] ack_contents [OF inv])+

theorem queue_refines_fifo_witness:
  "contents storedInflate (append_reading sampleReading sampleStore) =
     [truncReading sampleReading, truncReading sampleReading] \<and>
   contents storedInflate (snd (flush storedDeflate True sampleStore)) = [truncReading sampleReading]"
proof -
  have "contents storedInflate sampleStore = [truncReading sampleReading]"
    by (simp add: contents_def sampleStore_ok(3,4))
      (simp add: sampleStore_def append_reading_def emptyStore_def freshDb_def tableReadings_def)
  with queue_refines_fifo [where inflate = storedInflate and deflate = storedDeflate
      and s = sampleStore and io = True, OF storedInflate_storedDeflate sampleStore_ok(1,2)]
  show ?thesis by simp
qed

lemma readBatch_prefix:
  assumes inv: "storeInv s" and ok: "list_all (\<lambda>r. \<not> corrupt inflate r) (db_chunk (st_db s))"
  shows "\<exists>k. readBatch inflate True dio bio m s = (Inr (goodChunks inflate (take k (db_chunk (st_db s)))), s) \<and>
    k \<le> readBatchScanLimit \<and> (k = 0 \<longrightarrow> db_chunk (st_db s) = []) \<and>
    (1 < k \<longrightarrow> sum_list (map cr_n (take (k - 1) (db_chunk (st_db s)))) < m) \<and>
    (sum_list (map cr_n (take k (db_chunk (st_db s)))) < m \<longrightarrow>
       k = min readBatchScanLimit (length (db_chunk (st_db s))))"
proof -
  let ?rows = "db_chunk (st_db s)"
  define rs where "rs = scanRows m 0 (take readBatchScanLimit ?rows)"
  define k where "k = length rs"
  obtain rest where rest: "take readBatchScanLimit ?rows = rs @ rest"
    unfolding rs_def using scanRows_prefix by blast
  have k: "k \<le> readBatchScanLimit" using arg_cong [OF rest, of length] by (simp add: k_def)
  have "rs = take k (take readBatchScanLimit ?rows)" by (simp add: rest k_def)
  then have rs: "take k ?rows = rs" using k by (simp add: min_absorb1)
  have "decodeRows inflate dio bio xs s = (Inr (goodChunks inflate xs), s)"
    if "list_all (\<lambda>r. \<not> corrupt inflate r) xs" for xs
    using that by (induction xs) (auto simp: corrupt_def split: sum.splits)
  moreover have "list_all (\<lambda>r. \<not> corrupt inflate r) rs"
    using ok unfolding rs [symmetric] by (auto simp: list_all_iff dest: in_set_takeD)
  ultimately have r: "readBatch inflate True dio bio m s = (Inr (goodChunks inflate (take k ?rows)), s)"
    unfolding rs by (simp add: readBatch_def flip: rs_def)
  have z: "k = 0 \<longrightarrow> ?rows = []"
    using scanRows_nonempty [of "take readBatchScanLimit ?rows" m 0]
    unfolding k_def rs_def [symmetric] by (auto simp: readBatchScanLimit_def)
  have mini: "sum_list (map cr_n (take (k - 1) ?rows)) < m" if "1 < k"
  proof -
    have "rs \<noteq> []" using that by (auto simp: k_def)
    then have x: "scanRows m 0 (take readBatchScanLimit ?rows) = butlast rs @ [last rs]"
      by (simp flip: rs_def)
    have "length (butlast rs) = k - 1" by (simp add: k_def)
    then have ne: "butlast rs \<noteq> []" using that by (metis list.size(3) not_less_zero zero_less_diff)
    have "take (k - 1) ?rows = take (k - 1) (take k ?rows)" by simp
    also have "\<dots> = butlast rs" unfolding rs by (simp add: k_def butlast_conv_take)
    finally show ?thesis using scanRows_minimal [OF x ne] by simp
  qed
  have lst: "k = min readBatchScanLimit (length ?rows)" if "sum_list (map cr_n (take k ?rows)) < m"
    using scanRows_enough [of "take readBatchScanLimit ?rows" m 0] that
    unfolding rs rs_def [symmetric] by (metis add_0 k_def length_take min.commute not_less)
  show ?thesis
    by (rule exI [of _ k], intro conjI impI) (fact r, fact k, use z in blast, erule mini, erule lst)
qed

lemma flush_single:
  assumes "st_buf s = [r]" "st_unflushed s = []" "db_chunk (st_db s) = []" "db_sequence (st_db s) = 0"
    and "encodeChunk deflate [r] = Inr blob"
  shows "\<exists>row. db_chunk (st_db (snd (flush deflate True s))) = [row] \<and> cr_seq row = 1 \<and> cr_n row = 1 \<and>
    cr_data row = blob"
proof -
  have p: "st_unflushed (flushPrepare deflate s) = [mkPending [r] blob]"
    using assms by (simp add: flushPrepare_def Let_def)
  have d: "pc_data (mkPending [r] blob) = blob" by (simp add: mkPending_def)
  have "insertChunks True [mkPending [r] blob] (st_db s) = Inr db \<Longrightarrow>
      db_chunk db = rowsOf 0 [mkPending [r] blob]" for db
    using assms(3,4) by (auto simp: insertChunks_def store_simps insertRows_eq)
  then have "db_chunk (st_db (snd (flush deflate True s))) = rowsOf 0 [mkPending [r] blob]"
    by (simp add: flush_def Let_def p flushWritten_def countWritten_def flushPrepare_sel split: sum.splits)
      (simp add: insertChunks_def)
  with d show ?thesis by (simp add: mkPending_n)
qed

lemma flushed_sample:
  defines "s \<equiv> snd (flush storedDeflate True sampleStore)"
  shows "storeInv s" "\<exists>r. db_chunk (st_db s) = [r] \<and> cr_seq r = 1 \<and> cr_n r = 1 \<and>
      decodeChunk storedInflate (cr_data r) = Inr [truncReading sampleReading]"
proof -
  show "storeInv s" unfolding s_def using flush_ok [OF sampleStore_ok(1)] by blast
  obtain blob where b: "encodeChunk storedDeflate [sampleReading] = Inr blob"
    "decodeChunk storedInflate blob = Inr [truncReading sampleReading]"
    using stored.decode_encode [of "[sampleReading]"] sampleStore_ok(2,4) by auto
  have d: "db_chunk (st_db sampleStore) = []" "db_sequence (st_db sampleStore) = 0"
    by (simp_all add: sampleStore_def append_reading_def emptyStore_def freshDb_def)
  show "\<exists>r. db_chunk (st_db s) = [r] \<and> cr_seq r = 1 \<and> cr_n r = 1 \<and>
      decodeChunk storedInflate (cr_data r) = Inr [truncReading sampleReading]"
    unfolding s_def using flush_single [OF sampleStore_ok(4,3) d b(1)] b(2) by auto
qed

text \<open>
  What a batch holds. When the query succeeds and every scanned chunk can be decoded,
  \<^verbatim>\<open>ReadBatch\<close> changes nothing and returns, in sequence order, the decoded rows of a prefix of
  the table; the prefix is empty only if the table is; it stops as soon as the readings reach
  \<open>maxReadings\<close> (dropping its last chunk leaves fewer than \<open>maxReadings\<close>), and it falls short of
  \<open>maxReadings\<close> only when the whole table, or the 500-row scan window, is exhausted.
\<close>

theorem readBatch_window:
  assumes inv: "storeInv s" and ok: "list_all (\<lambda>r. \<not> corrupt inflate r) (db_chunk (st_db s))"
  shows "\<exists>k. readBatch inflate True dio bio m s = (Inr (goodChunks inflate (take k (db_chunk (st_db s)))), s) \<and>
    k \<le> readBatchScanLimit \<and> (k = 0 \<longrightarrow> db_chunk (st_db s) = []) \<and>
    (1 < k \<longrightarrow> sum_list (map cr_n (take (k - 1) (db_chunk (st_db s)))) < m) \<and>
    (sum_list (map cr_n (take k (db_chunk (st_db s)))) < m \<longrightarrow>
       k = min readBatchScanLimit (length (db_chunk (st_db s))))"
  by (rule readBatch_prefix [OF assms])

theorem readBatch_window_witness:
  "fst (readBatch storedInflate True (\<lambda>_. True) (\<lambda>_. True) 2000 (snd (flush storedDeflate True sampleStore))) =
     Inr [\<lparr>ck_Seq = 1, ck_Readings = [truncReading sampleReading]\<rparr>]"
proof -
  let ?s = "snd (flush storedDeflate True sampleStore)"
  obtain r where r: "db_chunk (st_db ?s) = [r]" "cr_seq r = 1" "cr_n r = 1"
      "decodeChunk storedInflate (cr_data r) = Inr [truncReading sampleReading]"
    using flushed_sample(2) by blast
  then have "list_all (\<lambda>r. \<not> corrupt storedInflate r) (db_chunk (st_db ?s))" by (simp add: corrupt_def)
  from readBatch_window [OF flushed_sample(1) this, of "\<lambda>_. True" "\<lambda>_. True" 2000] obtain k
    where k: "readBatch storedInflate True (\<lambda>_. True) (\<lambda>_. True) 2000 ?s =
        (Inr (goodChunks storedInflate (take k (db_chunk (st_db ?s)))), ?s)"
      and fin: "sum_list (map cr_n (take k (db_chunk (st_db ?s)))) < 2000 \<longrightarrow>
        k = min readBatchScanLimit (length (db_chunk (st_db ?s)))"
    by (elim exE conjE)
  have "sum_list (map cr_n (take k [r])) < 2000" by (cases k) (simp_all add: r(3))
  with fin have "k = 1" by (simp add: r(1) readBatchScanLimit_def)
  with k show ?thesis by (simp only: r(1) fst_conv) (simp add: r(2,4))
qed

end
