(* ===== verification/Forwarder.thy ===== *)
theory Forwarder
  imports QueueSpec
begin

text \<open>
  The sending half of Store & Forward, \<^verbatim>\<open>src/internal/forwarder\<close>: the wire format
  (\<^verbatim>\<open>wire.go\<close>), the retry schedule (\<^verbatim>\<open>backoff.go\<close>), the connectivity status
  (\<^verbatim>\<open>status.go\<close>), one dispatch and the loop around it (\<^verbatim>\<open>forwarder.go\<close>), and the HTTP
  transport (\<^verbatim>\<open>httpadapter.go\<close>).

  The queue is used through the interface \<open>fifo_source\<close>; the transport through
  \<open>acking_adapter\<close>, the promise of \<^verbatim>\<open>forwarder.Adapter\<close>: a send reports success only when
  the server holds the message. A JSON body is represented by the message it encodes; encoding fails
  exactly when a value is not finite, as \<^verbatim>\<open>encoding/json\<close> does. The world a transport talks
  to is a state of type \<open>'w\<close>.

  The results: a dispatch removes chunks from the queue only after they were sent and acknowledged,
  from the front and without gaps; while the server accepts, repeated dispatches drain the queue;
  the retry schedule; and a chunk holding a value that JSON cannot represent blocks the queue.
\<close>

section \<open>Wire format\<close>

record wireReading =
  wr_DeviceID :: int64
  wr_DatapointID :: int64
  wr_Timestamp :: string
  wr_Value :: "float64 option"
  wr_Quality :: string

record wireChunk =
  wc_Seq :: int
  wc_Readings :: "wireReading list"

record message =
  m_GatewayID :: string
  m_StreamID :: string
  m_FromSeq :: int
  m_ToSeq :: int
  m_Chunks :: "wireChunk list"

record wireAck =
  a_StreamID :: string
  a_ToSeq :: int
  a_Error :: string

text \<open>
  \<^verbatim>\<open>Time.Format\<close> with the layout \<^verbatim>\<open>2006-01-02T15:04:05.000Z07:00\<close> for a UTC
  instant: the civil date of a day number (days since 1970-01-01) in the proleptic Gregorian
  calendar, and the time of day to the millisecond.
\<close>

definition civilDate :: "int \<Rightarrow> int \<times> int \<times> int" where
  "civilDate days =
     (let z = days + 719468;
          era = z div 146097;
          doe = z - era * 146097;
          yoe = (doe - doe div 1460 + doe div 36524 - doe div 146096) div 365;
          doy = doe - (365 * yoe + yoe div 4 - yoe div 100);
          mp = (5 * doy + 2) div 153;
          d = doy - (153 * mp + 2) div 5 + 1;
          m = (if mp < 10 then mp + 3 else mp - 9)
      in (yoe + era * 400 + (if m \<le> 2 then 1 else 0), m, d))"

fun digits :: "nat \<Rightarrow> nat \<Rightarrow> string" where
  "digits 0 n = []"
| "digits (Suc k) n = digits k (n div 10) @ [char_of (48 + n mod 10)]"

definition formatWireTime :: "gotime \<Rightarrow> string" where
  "formatWireTime t =
     (let ms = t div nanosPerMilli;
          (y, m, d) = civilDate (ms div 86400000);
          tod = nat (ms mod 86400000)
      in digits 4 (nat y) @ ''-'' @ digits 2 (nat m) @ ''-'' @ digits 2 (nat d) @ ''T'' @
         digits 2 (tod div 3600000) @ '':'' @ digits 2 (tod div 60000 mod 60) @ '':'' @
         digits 2 (tod div 1000 mod 60) @ ''.'' @ digits 3 (tod mod 1000) @ ''Z'')"

definition wireReadingOf :: "reading \<Rightarrow> wireReading" where
  "wireReadingOf r =
     \<lparr>wr_DeviceID = rd_DeviceID r, wr_DatapointID = rd_DatapointID r,
      wr_Timestamp = formatWireTime (rd_At r), wr_Value = rd_Value r, wr_Quality = rd_Quality r\<rparr>"

definition wireChunkOf :: "chunk \<Rightarrow> wireChunk" where
  "wireChunkOf c = \<lparr>wc_Seq = ck_Seq c, wc_Readings = map wireReadingOf (ck_Readings c)\<rparr>"

definition buildMessage :: "string \<Rightarrow> string \<Rightarrow> chunk list \<Rightarrow> message" where
  "buildMessage gatewayID streamID chunks =
     \<lparr>m_GatewayID = gatewayID, m_StreamID = streamID, m_FromSeq = ck_Seq (hd chunks),
      m_ToSeq = ck_Seq (last chunks), m_Chunks = map wireChunkOf chunks\<rparr>"

definition readingCount :: "message \<Rightarrow> nat" where
  "readingCount m = sum_list (map (\<lambda>c. length (wc_Readings c)) (m_Chunks m))"

text \<open>\<^verbatim>\<open>json.Marshal\<close> of a message.\<close>

definition jsonValueOk :: "wireReading \<Rightarrow> bool" where
  "jsonValueOk r = (case wr_Value r of None \<Rightarrow> True | Some v \<Rightarrow> f64_finite v)"

definition jsonMarshal :: "message \<Rightarrow> string + message" where
  "jsonMarshal m =
     (if list_all (\<lambda>c. list_all jsonValueOk (wc_Readings c)) (m_Chunks m) then Inr m
      else Inl ''json: unsupported value'')"

section \<open>Retry schedule and status\<close>

definition backoffDuration :: "int \<Rightarrow> duration" where
  "backoffDuration retryCount =
     (let retryCount = (if retryCount < 1 then 1 else retryCount);
          maxBackoff = 60 * nanosPerSecond;
          shift = retryCount - 1
      in if shift > 6 then maxBackoff
         else let d = 2 ^ nat shift * nanosPerSecond
              in if d > maxBackoff then maxBackoff else d)"

record fwd_status =
  fs_Connected :: bool
  fs_LastError :: string
  fs_LastSuccessAt :: "gotime option"
  fs_LastAttemptAt :: "gotime option"

definition recordSuccess :: "gotime \<Rightarrow> fwd_status \<Rightarrow> fwd_status" where
  "recordSuccess now st =
     st\<lparr>fs_Connected := True, fs_LastError := '''', fs_LastSuccessAt := Some now,
        fs_LastAttemptAt := Some now\<rparr>"

definition recordFailure :: "gotime \<Rightarrow> string \<Rightarrow> fwd_status \<Rightarrow> fwd_status" where
  "recordFailure now err st =
     st\<lparr>fs_Connected := False, fs_LastError := err, fs_LastAttemptAt := Some now\<rparr>"

section \<open>The forwarder\<close>

record fwd_config =
  fc_GatewayID :: string
  fc_MaxReadingsPerMessage :: int
  fc_PollInterval :: duration

definition newForwarderConfig :: "fwd_config \<Rightarrow> fwd_config" where
  "newForwarderConfig cfg =
     cfg\<lparr>fc_MaxReadingsPerMessage :=
           (if fc_MaxReadingsPerMessage cfg \<le> 0 then 2000 else fc_MaxReadingsPerMessage cfg),
         fc_PollInterval := (if fc_PollInterval cfg \<le> 0 then nanosPerSecond else fc_PollInterval cfg)\<rparr>"

datatype fwd_err = ReadFailed queue_err | SendFailed string | AckFailed queue_err

type_synonym ('io, 's) reader = "'io \<Rightarrow> int \<Rightarrow> 's \<Rightarrow> (queue_err + chunk list) \<times> 's"
type_synonym ('io, 's) acker = "'io \<Rightarrow> int \<Rightarrow> 's \<Rightarrow> queue_err option \<times> 's"
type_synonym 'w sender = "message \<Rightarrow> 'w \<Rightarrow> string option \<times> 'w"

record ('s, 'w) forwarder =
  f_src :: 's
  f_world :: 'w
  f_status :: fwd_status

definition dispatchOnce :: "('s \<Rightarrow> string) \<Rightarrow> ('io, 's) reader \<Rightarrow> ('io, 's) acker \<Rightarrow> 'w sender \<Rightarrow>
    fwd_config \<Rightarrow> 'io \<Rightarrow> gotime \<Rightarrow> ('s, 'w) forwarder \<Rightarrow> (bool \<times> fwd_err option) \<times> ('s, 'w) forwarder" where
  "dispatchOnce streamID read ackThrough send cfg io now f =
     (case read io (fc_MaxReadingsPerMessage cfg) (f_src f) of
        (Inl e, s) \<Rightarrow> ((False, Some (ReadFailed e)), f\<lparr>f_src := s\<rparr>)
      | (Inr chunks, s) \<Rightarrow>
          (if chunks = [] then ((False, None), f\<lparr>f_src := s\<rparr>)
           else let msg = buildMessage (fc_GatewayID cfg) (streamID s) chunks in
             (case send msg (f_world f) of
                (Some err, w) \<Rightarrow>
                  ((False, Some (SendFailed err)),
                   f\<lparr>f_src := s, f_world := w, f_status := recordFailure now err (f_status f)\<rparr>)
              | (None, w) \<Rightarrow>
                  (let f = f\<lparr>f_world := w, f_status := recordSuccess now (f_status f)\<rparr> in
                   case ackThrough io (m_ToSeq msg) s of
                     (Some e, s) \<Rightarrow> ((False, Some (AckFailed e)), f\<lparr>f_src := s\<rparr>)
                   | (None, s) \<Rightarrow> ((True, None), f\<lparr>f_src := s\<rparr>)))))"

text \<open>One iteration of \<^verbatim>\<open>Run\<close>: the new failure count, the time to wait, and the state.\<close>

definition runIteration :: "('s \<Rightarrow> string) \<Rightarrow> ('io, 's) reader \<Rightarrow> ('io, 's) acker \<Rightarrow> 'w sender \<Rightarrow>
    fwd_config \<Rightarrow> 'io \<Rightarrow> gotime \<Rightarrow> int \<times> ('s, 'w) forwarder \<Rightarrow> (int \<times> duration) \<times> ('s, 'w) forwarder" where
  "runIteration streamID read ackThrough send cfg io now p =
     (case p of (failures, f) \<Rightarrow>
       (case dispatchOnce streamID read ackThrough send cfg io now f of
          ((sent, err), f) \<Rightarrow>
            (if err \<noteq> None then ((failures + 1, backoffDuration (failures + 1)), f)
             else if sent then ((0, 0), f)
             else ((0, fc_PollInterval cfg), f))))"

fun runLoop :: "('s \<Rightarrow> string) \<Rightarrow> ('io, 's) reader \<Rightarrow> ('io, 's) acker \<Rightarrow> 'w sender \<Rightarrow>
    fwd_config \<Rightarrow> ('io \<times> gotime) list \<Rightarrow> int \<times> ('s, 'w) forwarder \<Rightarrow> int \<times> ('s, 'w) forwarder" where
  "runLoop streamID read ackThrough send cfg [] p = p"
| "runLoop streamID read ackThrough send cfg ((io, now) # es) p =
     (case runIteration streamID read ackThrough send cfg io now p of
        ((failures, wait), f) \<Rightarrow> runLoop streamID read ackThrough send cfg es (failures, f))"

section \<open>The HTTP transport\<close>

text \<open>\<open>post\<close> is \<^verbatim>\<open>http.Client.Do\<close> on the request: an error, or the status of the response.\<close>

definition httpSend :: "(message \<Rightarrow> 'w \<Rightarrow> (string + int) \<times> 'w) \<Rightarrow> 'w sender" where
  "httpSend post msg w =
     (case jsonMarshal msg of
        Inl e \<Rightarrow> (Some (''marshal message: '' @ e), w)
      | Inr body \<Rightarrow>
          (case post body w of
             (Inl e, w) \<Rightarrow> (Some e, w)
           | (Inr statusCode, w) \<Rightarrow>
               (if statusCode < 200 \<or> statusCode \<ge> 300 then (Some ''server returned status'', w)
                else (None, w))))"

section \<open>The adapter's promise\<close>

text \<open>
  \<^verbatim>\<open>forwarder.Adapter\<close>: \<open>holds w g sid q\<close> says that the server reached through \<open>w\<close> has stored
  chunk \<open>q\<close> of stream \<open>sid\<close> of gateway \<open>g\<close>, \<open>published w\<close> are the messages that may still be on
  their way (a transport that matches acknowledgements by sequence number can be answered for an
  earlier attempt), and \<open>ok\<close> is the transport's own invariant. A send that reports success has every
  chunk stored, provided the earlier messages it can be confused with cover it; no send makes the
  server forget; a send puts at most its own message on the way.
\<close>

definition covers :: "message \<Rightarrow> message \<Rightarrow> bool" where
  "covers m' m \<longleftrightarrow> m_GatewayID m' = m_GatewayID m \<and> wc_Seq ` set (m_Chunks m) \<subseteq> wc_Seq ` set (m_Chunks m')"

definition confusable :: "message \<Rightarrow> message \<Rightarrow> bool" where
  "confusable m' m \<longleftrightarrow> m_ToSeq m' = m_ToSeq m \<and> (m_StreamID m' = m_StreamID m \<or> m_StreamID m' = [])"

locale acking_adapter =
  fixes send :: "'w sender" and holds :: "'w \<Rightarrow> string \<Rightarrow> string \<Rightarrow> int \<Rightarrow> bool"
    and published :: "'w \<Rightarrow> message set" and ok :: "'w \<Rightarrow> bool"
  assumes ack_stored: "ok w \<Longrightarrow>
      (\<And>m'. m' \<in> published w \<Longrightarrow> confusable m' m \<Longrightarrow> covers m' m \<and> m_StreamID m' = m_StreamID m) \<Longrightarrow>
      send m w = (None, w') \<Longrightarrow> c \<in> set (m_Chunks m) \<Longrightarrow> holds w' (m_GatewayID m) (m_StreamID m) (wc_Seq c)"
    and keeps: "ok w \<Longrightarrow> send m w = (r, w') \<Longrightarrow> holds w g sid q \<Longrightarrow> holds w' g sid q"
    and stays_ok: "ok w \<Longrightarrow> send m w = (r, w') \<Longrightarrow> ok w'"
    and published_grows: "send m w = (r, w') \<Longrightarrow> published w' \<subseteq> insert m (published w)"

context fifo_source
begin

text \<open>What one dispatch does to the queue and to the world, whatever the transport.\<close>

lemma dispatch_cases:
  assumes "inv (f_src f)"
    and "dispatchOnce streamID read ackThrough send cfg io now f = ((sent, err), f')"
  shows "inv (f_src f') \<and> streamID (f_src f') = streamID (f_src f) \<and>
    (if sent then err = None \<and>
       (\<exists>cs rest. cs \<noteq> [] \<and> chunks (f_src f) = cs @ rest \<and> chunks (f_src f') = rest \<and>
          send (buildMessage (fc_GatewayID cfg) (streamID (f_src f)) cs) (f_world f) = (None, f_world f'))
     else chunks (f_src f') = chunks (f_src f) \<and>
       (f_world f' = f_world f \<or>
        (\<exists>cs rest r. cs \<noteq> [] \<and> chunks (f_src f) = cs @ rest \<and>
          send (buildMessage (fc_GatewayID cfg) (streamID (f_src f)) cs) (f_world f) = (r, f_world f'))))"
proof -
  obtain res s where r: "read io (fc_MaxReadingsPerMessage cfg) (f_src f) = (res, s)" by fastforce
  note same = read_same [OF assms(1) r]
  show ?thesis
  proof (cases "\<exists>cs. res = Inr cs \<and> cs \<noteq> []")
    case False
    then show ?thesis
      using assms(2) r same by (cases res) (auto simp: dispatchOnce_def)
  next
    case True
    then obtain cs where cs: "res = Inr cs" "cs \<noteq> []" by blast
    obtain rest where rest: "chunks (f_src f) = cs @ rest"
      using read_prefix [OF assms(1)] r cs(1) by blast
    let ?msg = "buildMessage (fc_GatewayID cfg) (streamID s) cs"
    obtain sr w where snd: "send ?msg (f_world f) = (sr, w)" by fastforce
    show ?thesis
    proof (cases sr)
      case (Some e)
      then show ?thesis using assms(2) r cs snd same rest
        by (auto simp: dispatchOnce_def Let_def)
    next
      case None
      obtain ar s2 where a: "ackThrough io (ck_Seq (last cs)) s = (ar, s2)" by fastforce
      have inv: "inv s" and ch: "chunks s = cs @ rest" using same rest by auto
      show ?thesis
      proof (cases ar)
        case (Some e)
        have "s2 = s" using ack_fails [OF inv a [unfolded Some]] .
        with Some show ?thesis
          using assms(2) r cs snd same None a rest
          by (auto simp: dispatchOnce_def Let_def buildMessage_def)
      next
        case ar: None
        have "chunks s2 = rest" using ack_batch [OF inv ch cs(2)] a ar by simp
        moreover have "inv s2 \<and> streamID s2 = streamID s" using ack_removes [OF inv] a ar by blast
        ultimately show ?thesis
          using assms(2) r cs snd same None a ar rest
          by (auto simp: dispatchOnce_def Let_def buildMessage_def)
      qed
    qed
  qed
qed

text \<open>A transport that cannot send the oldest chunk leaves the queue as it is.\<close>

lemma dispatch_blocked:
  assumes "inv (f_src f)" "chunks (f_src f) = c # rest"
    and "\<And>cs w. send (buildMessage (fc_GatewayID cfg) (streamID (f_src f)) (c # cs)) w = (Some e, w)"
    and "dispatchOnce streamID read ackThrough send cfg io now f = ((sent, err), f')"
  shows "\<not> sent \<and> chunks (f_src f') = chunks (f_src f) \<and> f_world f' = f_world f"
proof -
  note d = dispatch_cases [OF assms(1,4)]
  have head: "send (buildMessage (fc_GatewayID cfg) (streamID (f_src f)) cs) w = (Some e, w)"
    if "cs \<noteq> []" "chunks (f_src f) = cs @ rest'" for cs rest' w
    using that assms(2,3) by (cases cs) auto
  have "\<not> sent" using d head by (auto split: if_splits)
  with d head show ?thesis by auto
qed

end

section \<open>Properties\<close>

text \<open>The forwarder on the gateway's queue.\<close>

definition queueDispatch :: "(byte list \<Rightarrow> byte list option) \<Rightarrow> 'w sender \<Rightarrow> fwd_config \<Rightarrow> source_io \<Rightarrow>
    gotime \<Rightarrow> (store, 'w) forwarder \<Rightarrow> (bool \<times> fwd_err option) \<times> (store, 'w) forwarder" where
  "queueDispatch inflate send cfg io now f =
     dispatchOnce st_streamID (sourceRead inflate) sourceAck send cfg io now f"

text \<open>
  C5: data leaves the queue only after it was acknowledged. On a store that satisfies its
  invariant, with any transport and whatever database calls fail, one dispatch either leaves the
  pending chunks as they are, or it sent exactly the oldest chunks as one message, the transport
  reported the acknowledgement, and precisely those chunks were removed from the front: nothing is
  skipped, reordered or removed unsent. It reports \<^verbatim>\<open>sent\<close> only in the second case.
\<close>

theorem dispatch_removes_only_acknowledged:
  assumes "storeInv (f_src f)"
    and "queueDispatch inflate send cfg io now f = ((sent, err), f')"
  shows "storeInv (f_src f') \<and> st_streamID (f_src f') = st_streamID (f_src f) \<and>
    (if sent then err = None \<and>
       (\<exists>cs rest. cs \<noteq> [] \<and> chunksOf inflate (f_src f) = cs @ rest \<and> chunksOf inflate (f_src f') = rest \<and>
          send (buildMessage (fc_GatewayID cfg) (st_streamID (f_src f)) cs) (f_world f) = (None, f_world f'))
     else chunksOf inflate (f_src f') = chunksOf inflate (f_src f))"
  using queue.dispatch_cases [OF assms(1) assms(2) [unfolded queueDispatch_def]] by auto

lemma dispatch_progress:
  assumes inv: "storeInv (f_src f)" and ok: "list_all (\<lambda>r. \<not> corrupt inflate r) (db_chunk (st_db (f_src f)))"
    and ne: "db_chunk (st_db (f_src f)) \<noteq> []"
    and io: "sio_read io" "sio_ack io" and snd: "\<And>m w. fst (send m w) = None"
  shows "\<exists>f'. queueDispatch inflate send cfg io now f = ((True, None), f') \<and> storeInv (f_src f') \<and>
    (\<exists>k > 0. db_chunk (st_db (f_src f')) = drop k (db_chunk (st_db (f_src f))))"
proof -
  let ?s = "f_src f" and ?rows = "db_chunk (st_db (f_src f))"
  from readBatch_prefix [OF inv ok] obtain k where
    rb: "readBatch inflate True (sio_discard io) (sio_bounds io) (fc_MaxReadingsPerMessage cfg) ?s =
      (Inr (goodChunks inflate (take k ?rows)), ?s)" and k: "0 < k"
    using ne by (metis gr0I)
  let ?cs = "goodChunks inflate (take k ?rows)"
  have all: "map ck_Seq (goodChunks inflate rs) = map cr_seq rs" if "list_all (\<lambda>r. \<not> corrupt inflate r) rs" for rs
    using that by (induction rs) (auto simp: corrupt_def split: sum.splits)
  have okk: "list_all (\<lambda>r. \<not> corrupt inflate r) (take k ?rows)"
    using ok by (auto simp: list_all_iff dest: in_set_takeD)
  have tk: "take k ?rows \<noteq> []" using ne k by simp
  then have cs: "?cs \<noteq> []" using all [OF okk] by force
  have last: "ck_Seq (last ?cs) = cr_seq (last (take k ?rows))"
    using all [OF okk] cs tk by (metis last_map)
  define i where "i = min k (length ?rows) - 1"
  have m: "0 < min k (length ?rows)" using ne k by simp
  have i: "i < length ?rows" using m unfolding i_def by linarith
  have li: "last (take k ?rows) = ?rows ! i"
  proof -
    have "i < k" using m unfolding i_def by linarith
    then show ?thesis using tk by (simp add: last_conv_nth i_def min.commute)
  qed
  let ?a = "ack True (sio_ackBounds io) (ck_Seq (last ?cs)) ?s"
  have srt: "sorted_wrt (<) (map cr_seq ?rows)"
    using inv by (simp add: storeInv_def dbInv_def tableOk_def)
  have a: "fst ?a = None"
    by (auto simp: ack_def deleteThrough_def Let_def split: prod.splits sum.splits)
  then have "db_chunk (st_db (snd ?a)) = drop (Suc i) ?rows"
    using ack_ok(2) [OF inv a] sorted_filter_take(2) [OF srt i] last li by simp
  moreover have "storeInv (snd ?a)" by (rule ack_ok(1) [OF inv])
  moreover obtain w where w: "send (buildMessage (fc_GatewayID cfg) (st_streamID ?s) ?cs) (f_world f) = (None, w)"
    using snd by (metis prod.collapse)
  ultimately show ?thesis
    using a cs io rb
    by (intro exI [of _ "f\<lparr>f_world := w, f_status := recordSuccess now (f_status f), f_src := snd ?a\<rparr>"])
      (auto simp: queueDispatch_def dispatchOnce_def sourceRead_def sourceAck_def Let_def
        buildMessage_def split: prod.splits intro!: exI [of _ "Suc i"])
qed

fun dispatches :: "(byte list \<Rightarrow> byte list option) \<Rightarrow> 'w sender \<Rightarrow> fwd_config \<Rightarrow> source_io \<Rightarrow> gotime \<Rightarrow>
    nat \<Rightarrow> (store, 'w) forwarder \<Rightarrow> (store, 'w) forwarder" where
  "dispatches inflate send cfg io now 0 f = f"
| "dispatches inflate send cfg io now (Suc n) f =
     dispatches inflate send cfg io now n (snd (queueDispatch inflate send cfg io now f))"

text \<open>
  C17: the backlog drains. When the database calls succeed, every pending chunk can be decoded and
  the transport acknowledges every message, each dispatch on a non-empty queue reports
  \<^verbatim>\<open>sent\<close> and removes at least one chunk; so as many dispatches as there are chunks empty
  the queue.
\<close>

theorem backlog_drains:
  assumes "storeInv (f_src f)" "list_all (\<lambda>r. \<not> corrupt inflate r) (db_chunk (st_db (f_src f)))"
    and "sio_read io" "sio_ack io" and "\<And>m w. fst (send m w) = None"
    and "length (db_chunk (st_db (f_src f))) \<le> n"
  shows "db_chunk (st_db (f_src (dispatches inflate send cfg io now n f))) = []"
  using assms
proof (induction n arbitrary: f)
  case (Suc n)
  show ?case
  proof (cases "db_chunk (st_db (f_src f)) = []")
    case True
    have "dispatches inflate send cfg io now m g = g"
      if "storeInv (f_src g)" "db_chunk (st_db (f_src g)) = []" for m g
    proof -
      have "readBatch inflate True (sio_discard io) (sio_bounds io) k (f_src g) = (Inr [], f_src g)" for k
        by (simp add: readBatch_def that(2))
      then have "queueDispatch inflate send cfg io now g = ((False, None), g)"
        using Suc.prems(3) by (simp add: queueDispatch_def dispatchOnce_def sourceRead_def)
      then show ?thesis by (induction m) simp_all
    qed
    from this [OF Suc.prems(1) True, of "Suc n"] True show ?thesis by simp
  next
    case False
    from dispatch_progress [OF Suc.prems(1,2) False Suc.prems(3,4), of send cfg now] Suc.prems(5) obtain f' k where
      f': "queueDispatch inflate send cfg io now f = ((True, None), f')" "storeInv (f_src f')" and
      k: "0 < k" "db_chunk (st_db (f_src f')) = drop k (db_chunk (st_db (f_src f)))" by blast
    have "list_all (\<lambda>r. \<not> corrupt inflate r) (db_chunk (st_db (f_src f')))"
      using Suc.prems(2) k by (auto simp: list_all_iff dest: in_set_dropD)
    moreover have "length (db_chunk (st_db (f_src f'))) \<le> n" using Suc.prems(6) k by simp
    ultimately show ?thesis using Suc.IH [OF f'(2) _ Suc.prems(3,4)] Suc.prems(5) f'(1) by simp
  qed
qed simp

text \<open>A forwarder over the flushed sample store, with a transport that counts its messages.\<close>

definition countingSend :: "nat sender" where
  "countingSend m w = (None, w + 1)"

definition sampleForwarder :: "(store, nat) forwarder" where
  "sampleForwarder = \<lparr>f_src = snd (flush storedDeflate True sampleStore), f_world = 0,
     f_status = \<lparr>fs_Connected = False, fs_LastError = '''', fs_LastSuccessAt = None,
       fs_LastAttemptAt = None\<rparr>\<rparr>"

definition okIO :: source_io where
  "okIO = \<lparr>sio_read = True, sio_discard = \<lambda>_. True, sio_bounds = \<lambda>_. True, sio_ack = True,
     sio_ackBounds = True\<rparr>"

definition sampleConfig :: fwd_config where
  "sampleConfig = newForwarderConfig
     \<lparr>fc_GatewayID = ''GW-001'', fc_MaxReadingsPerMessage = 0, fc_PollInterval = 0\<rparr>"

lemma sampleForwarder_ok:
  "storeInv (f_src sampleForwarder)" "db_chunk (st_db (f_src sampleForwarder)) \<noteq> []"
  "list_all (\<lambda>r. \<not> corrupt storedInflate r) (db_chunk (st_db (f_src sampleForwarder)))"
  "chunksOf storedInflate (f_src sampleForwarder) = [\<lparr>ck_Seq = 1, ck_Readings = [truncReading sampleReading]\<rparr>]"
  "length (db_chunk (st_db (f_src sampleForwarder))) = 1" "f_world sampleForwarder = 0"
  using flushed_sample by (auto simp: sampleForwarder_def corrupt_def chunksOf_def)

lemma sampleForwarder_dispatch:
  "\<exists>f'. queueDispatch storedInflate countingSend sampleConfig okIO 5 sampleForwarder = ((True, None), f')"
  using dispatch_progress [OF sampleForwarder_ok(1,3,2), of okIO countingSend sampleConfig 5]
  by (auto simp: okIO_def countingSend_def)

theorem dispatch_removes_only_acknowledged_witness:
  "\<exists>f'. queueDispatch storedInflate countingSend sampleConfig okIO 5 sampleForwarder = ((True, None), f') \<and>
     chunksOf storedInflate (f_src f') = [] \<and> f_world f' = 1"
proof -
  obtain f' where f': "queueDispatch storedInflate countingSend sampleConfig okIO 5 sampleForwarder = ((True, None), f')"
    using sampleForwarder_dispatch by blast
  from dispatch_removes_only_acknowledged [OF sampleForwarder_ok(1) f']
  obtain cs rest where "cs \<noteq> []" "chunksOf storedInflate (f_src sampleForwarder) = cs @ rest"
    "chunksOf storedInflate (f_src f') = rest" "(None, f_world f') = countingSend (buildMessage (fc_GatewayID sampleConfig)
        (st_streamID (f_src sampleForwarder)) cs) (f_world sampleForwarder)"
    by auto
  then have "chunksOf storedInflate (f_src f') = [] \<and> f_world f' = 1"
    by (cases cs) (auto simp: sampleForwarder_ok countingSend_def)
  with f' show ?thesis by blast
qed

theorem backlog_drains_witness:
  "db_chunk (st_db (f_src (dispatches storedInflate countingSend sampleConfig okIO 5 1 sampleForwarder))) = []"
  by (rule backlog_drains [OF sampleForwarder_ok(1,3)])
    (simp_all add: okIO_def countingSend_def sampleForwarder_ok(5))

lemma backoff_shift:
  "backoffDuration n = (if n \<le> 1 then nanosPerSecond
     else if n \<le> 6 then 2 ^ nat (n - 1) * nanosPerSecond else 60 * nanosPerSecond)"
proof -
  have "n = 2 \<or> n = 3 \<or> n = 4 \<or> n = 5 \<or> n = 6 \<or> n = 7 \<or> n \<le> 1 \<or> 8 \<le> n" by presburger
  then show ?thesis by (auto simp: backoffDuration_def Let_def nanosPerSecond_def)
qed

text \<open>
  The retry schedule. The wait after the \<open>n\<close>-th consecutive failure is \<open>2 ^ (n - 1)\<close> seconds up to
  a ceiling of 60 seconds (so 1, 2, 4, 8, 16, 32, 60, 60, \<dots>), for every \<open>n\<close> between 1 and 60 seconds
  and never decreasing.
\<close>

theorem backoff_schedule:
  "(1 \<le> n \<longrightarrow> backoffDuration n = min (60 * nanosPerSecond) (2 ^ nat (n - 1) * nanosPerSecond)) \<and>
   nanosPerSecond \<le> backoffDuration n \<and> backoffDuration n \<le> 60 * nanosPerSecond \<and>
   backoffDuration n \<le> backoffDuration (n + 1)"
proof (intro conjI impI)
  show "backoffDuration n = min (60 * nanosPerSecond) (2 ^ nat (n - 1) * nanosPerSecond)" if "1 \<le> n"
  proof (cases "n \<le> 6")
    case True
    then have "n = 1 \<or> n = 2 \<or> n = 3 \<or> n = 4 \<or> n = 5 \<or> n = 6" using that by presburger
    then show ?thesis by (auto simp: backoff_shift nanosPerSecond_def)
  next
    case False
    then have "(2 :: int) ^ 6 \<le> 2 ^ nat (n - 1)" by (intro power_increasing) auto
    with False show ?thesis by (simp add: backoff_shift nanosPerSecond_def)
  qed
  have "n \<le> 1 \<or> n = 2 \<or> n = 3 \<or> n = 4 \<or> n = 5 \<or> n = 6 \<or> 7 \<le> n" by presburger
  then show "nanosPerSecond \<le> backoffDuration n" "backoffDuration n \<le> 60 * nanosPerSecond"
    "backoffDuration n \<le> backoffDuration (n + 1)"
    by (auto simp: backoff_shift nanosPerSecond_def)
qed

theorem backoff_schedule_witness:
  "backoffDuration 4 = min (60 * nanosPerSecond) (8 * nanosPerSecond)"
  using backoff_schedule [of 4] by simp

lemma runLoop_blocked:
  assumes "storeInv (f_src f)" "chunksOf inflate (f_src f) = c # rest"
    and "\<And>cs w. send (buildMessage (fc_GatewayID cfg) (st_streamID (f_src f)) (c # cs)) w = (Some e, w)"
    and "runLoop st_streamID (sourceRead inflate) sourceAck send cfg es (failures, f) = (failures', f')"
  shows "chunksOf inflate (f_src f') = chunksOf inflate (f_src f) \<and> f_world f' = f_world f"
  using assms
proof (induction es arbitrary: f failures)
  case (Cons x es)
  obtain io now where x: "x = (io, now)" by fastforce
  obtain sent err f1 where d: "dispatchOnce st_streamID (sourceRead inflate) sourceAck send cfg io now f =
      ((sent, err), f1)" by (metis surj_pair)
  obtain n wt where it: "runIteration st_streamID (sourceRead inflate) sourceAck send cfg io now (failures, f) =
      ((n, wt), f1)"
    using d by (cases err; cases sent) (auto simp: runIteration_def)
  have one: "chunksOf inflate (f_src f1) = chunksOf inflate (f_src f) \<and> f_world f1 = f_world f"
    using queue.dispatch_blocked [OF Cons.prems(1,2,3) d] by blast
  have inv: "storeInv (f_src f1) \<and> st_streamID (f_src f1) = st_streamID (f_src f)"
    using queue.dispatch_cases [OF Cons.prems(1) d] by blast
  have "runLoop st_streamID (sourceRead inflate) sourceAck send cfg es (n, f1) = (failures', f')"
    using Cons.prems(4) by (simp add: x it)
  from Cons.IH [OF _ _ _ this] one inv Cons.prems(2,3) show ?case by simp
qed simp

lemma httpSend_unmarshalable:
  assumes "r \<in> set (ck_Readings c)" "rd_Value r = Some v" "\<not> f64_finite v"
  shows "httpSend post (buildMessage g sid (c # cs)) w = (Some ''marshal message: json: unsupported value'', w)"
  using assms by (auto simp: httpSend_def jsonMarshal_def buildMessage_def wireChunkOf_def wireReadingOf_def
      jsonValueOk_def list_all_iff)

text \<open>
  A value that is not finite blocks the queue. If the oldest pending chunk holds a reading whose
  value is NaN or infinite (which \<^verbatim>\<open>encoding/json\<close> refuses to encode), then the forwarding
  loop over the HTTP transport, for any number of iterations, at any times and with any outcome of
  the database calls, removes nothing from the queue and sends nothing at all: only eviction can
  get past that chunk.
\<close>

theorem nonfinite_value_blocks_queue:
  assumes "storeInv (f_src f)" "chunksOf inflate (f_src f) = c # rest"
    and "r \<in> set (ck_Readings c)" "rd_Value r = Some v" "\<not> f64_finite v"
    and "runLoop st_streamID (sourceRead inflate) sourceAck (httpSend post) cfg es (failures, f) = (failures', f')"
  shows "chunksOf inflate (f_src f') = chunksOf inflate (f_src f) \<and> f_world f' = f_world f"
  by (rule runLoop_blocked [OF assms(1,2) httpSend_unmarshalable [OF assms(3-5)] assms(6)])

definition nanReading :: reading where
  "nanReading = sampleReading\<lparr>rd_Value := Some 0x7FF8000000000000\<rparr>"

definition nanStore :: store where
  "nanStore = append_reading nanReading (emptyStore freshDb (withDefaults zeroOptions))"

definition nanForwarder :: "(store, nat) forwarder" where
  "nanForwarder = sampleForwarder\<lparr>f_src := snd (flush storedDeflate True nanStore)\<rparr>"

lemma nan_chunk:
  "storeInv (f_src nanForwarder)"
  "\<exists>q. chunksOf storedInflate (f_src nanForwarder) = [\<lparr>ck_Seq = q, ck_Readings = [truncReading nanReading]\<rparr>]"
proof -
  have i0: "storeInv nanStore" by (simp add: nanStore_def append_reading_ok storeInv_emptyStore)
  then show "storeInv (f_src nanForwarder)" using flush_ok by (simp add: nanForwarder_def)
  have buf: "st_buf nanStore = [nanReading]" "st_unflushed nanStore = []"
    "db_chunk (st_db nanStore) = []" "db_sequence (st_db nanStore) = 0"
    by (simp_all add: nanStore_def append_reading_def emptyStore_def freshDb_def)
  have c: "chunkable [nanReading]"
    by (simp add: chunkable_def idsNonneg_def nanReading_def sampleReading_def milliInRange_def
        nanosPerMilli_def recordBound_def)
  obtain blob where b: "encodeChunk storedDeflate [nanReading] = Inr blob"
    "decodeChunk storedInflate blob = Inr [truncReading nanReading]"
    using stored.decode_encode [OF c] by auto
  from flush_single [OF buf b(1)] b(2)
  show "\<exists>q. chunksOf storedInflate (f_src nanForwarder) = [\<lparr>ck_Seq = q, ck_Readings = [truncReading nanReading]\<rparr>]"
    by (auto simp: nanForwarder_def chunksOf_def)
qed

theorem nonfinite_value_blocks_queue_witness:
  "\<forall>es. f_world (snd (runLoop st_streamID (sourceRead storedInflate) sourceAck
       (httpSend (\<lambda>m w. (Inr 200, w + 1))) sampleConfig es (0, nanForwarder))) = 0"
proof
  fix es
  obtain q where q: "chunksOf storedInflate (f_src nanForwarder) = [\<lparr>ck_Seq = q, ck_Readings = [truncReading nanReading]\<rparr>]"
    using nan_chunk(2) by blast
  obtain n f' where r: "runLoop st_streamID (sourceRead storedInflate) sourceAck
       (httpSend (\<lambda>m w. (Inr 200, w + 1))) sampleConfig es (0, nanForwarder) = (n, f')" by fastforce
  have v: "rd_Value (truncReading nanReading) = Some 0x7FF8000000000000"
    by (simp add: truncReading_def nanReading_def)
  have "\<not> f64_finite 0x7FF8000000000000"
    by (simp add: f64_finite_def f64_mag_def f64_inf_mag_def)
  from nonfinite_value_blocks_queue [OF nan_chunk(1) q _ v this r]
  show "f_world (snd (runLoop st_streamID (sourceRead storedInflate) sourceAck
       (httpSend (\<lambda>m w. (Inr 200, w + 1))) sampleConfig es (0, nanForwarder))) = 0"
    unfolding r by (simp add: nanForwarder_def sampleForwarder_def)
qed

end
