(* ===== verification/ServerDemo.thy ===== *)
theory ServerDemo
  imports Forwarder
begin

text \<open>
  The receiving side, \<^verbatim>\<open>src/cmd/server-demo\<close>: the de-duplicating store
  (\<^verbatim>\<open>store.go\<close>), its settings (\<^verbatim>\<open>settings.go\<close>) and the processing of a message on
  both transports (\<^verbatim>\<open>server.go\<close>).

  The output writer (InfluxDB) is reduced to whether it is configured and whether a write succeeds.
  The results: ingesting a message again changes nothing but the duplicate counter; the readings of
  each chunk of a stream are stored and counted once, however often it arrives; a gap is reported exactly
  for the sequence numbers that are missing; and behind the HTTP transport the server fulfils the
  promise of \<open>acking_adapter\<close>, whatever requests and replies the network loses.
\<close>

section \<open>Data\<close>

record srvReading =
  sr_GatewayID :: string
  sr_StreamID :: string
  sr_Seq :: int
  sr_Reading :: wireReading

record gap =
  gp_GatewayID :: string
  gp_StreamID :: string
  gp_FromSeq :: int
  gp_ToSeq :: int
  gp_At :: gotime

record gatewayStats =
  gs_ID :: string
  gs_LastSeen :: gotime
  gs_Messages :: int
  gs_Readings :: int
  gs_DuplicateChunks :: int
  gs_Gaps :: int
  gs_MissingChunks :: int
  gs_Rejected :: int
  gs_LastError :: string
  gs_Streams :: "string \<rightharpoonup> int"

record datapointSeen =
  ds_GatewayID :: string
  ds_DeviceID :: int64
  ds_DatapointID :: int64
  ds_LastTS :: string
  ds_LastValue :: "float64 option"
  ds_LastQuality :: string

record srvStore =
  ss_out :: bool
  ss_seen :: "string \<times> string \<times> int \<Rightarrow> bool"
  ss_lastSeq :: "string \<times> string \<rightharpoonup> int"
  ss_received :: "srvReading list"
  ss_gateways :: "string \<rightharpoonup> gatewayStats"
  ss_datapoints :: "string \<times> int64 \<times> int64 \<rightharpoonup> datapointSeen"
  ss_gaps :: "gap list"

definition maxReceived :: nat where "maxReceived = 10000"

definition newStore :: "bool \<Rightarrow> srvStore" where
  "newStore out =
     \<lparr>ss_out = out, ss_seen = \<lambda>_. False, ss_lastSeq = Map.empty, ss_received = [],
      ss_gateways = Map.empty, ss_datapoints = Map.empty, ss_gaps = []\<rparr>"

definition gw :: "string \<Rightarrow> srvStore \<Rightarrow> gatewayStats" where
  "gw gid s =
     (case ss_gateways s gid of
        Some g \<Rightarrow> g
      | None \<Rightarrow> \<lparr>gs_ID = gid, gs_LastSeen = zeroTime, gs_Messages = 0, gs_Readings = 0, gs_DuplicateChunks = 0,
                 gs_Gaps = 0, gs_MissingChunks = 0, gs_Rejected = 0, gs_LastError = '''',
                 gs_Streams = Map.empty\<rparr>)"

definition updGw :: "string \<Rightarrow> (gatewayStats \<Rightarrow> gatewayStats) \<Rightarrow> srvStore \<Rightarrow> srvStore" where
  "updGw gid f s = s\<lparr>ss_gateways := (ss_gateways s)(gid \<mapsto> f (gw gid s))\<rparr>"

definition noteMessage :: "gotime \<Rightarrow> string \<Rightarrow> srvStore \<Rightarrow> srvStore" where
  "noteMessage now gid s =
     updGw gid (\<lambda>g. g\<lparr>gs_Messages := gs_Messages g + 1, gs_LastSeen := now\<rparr>) s"

definition noteRejected :: "string \<Rightarrow> string \<Rightarrow> srvStore \<Rightarrow> srvStore" where
  "noteRejected gid reason s =
     updGw gid (\<lambda>g. g\<lparr>gs_Rejected := gs_Rejected g + 1, gs_LastError := reason\<rparr>) s"

section \<open>Ingest\<close>

text \<open>The order of Go strings: by bytes.\<close>

fun strLe :: "string \<Rightarrow> string \<Rightarrow> bool" where
  "strLe [] t = True"
| "strLe (c # cs) [] = False"
| "strLe (c # cs) (d # ds) \<longleftrightarrow>
     (of_char c :: nat) < of_char d \<or> c = d \<and> strLe cs ds"

definition storeReading :: "string \<Rightarrow> string \<Rightarrow> int \<Rightarrow> wireReading \<Rightarrow> srvStore \<Rightarrow> srvStore" where
  "storeReading gid sid q r s =
     (let k = (gid, wr_DeviceID r, wr_DatapointID r);
          d = (case ss_datapoints s k of
                 Some d \<Rightarrow> d
               | None \<Rightarrow> \<lparr>ds_GatewayID = gid, ds_DeviceID = wr_DeviceID r, ds_DatapointID = wr_DatapointID r,
                          ds_LastTS = '''', ds_LastValue = None, ds_LastQuality = ''''\<rparr>);
          d = (if strLe (ds_LastTS d) (wr_Timestamp r)
               then d\<lparr>ds_LastTS := wr_Timestamp r, ds_LastValue := wr_Value r, ds_LastQuality := wr_Quality r\<rparr>
               else d)
      in s\<lparr>ss_received := ss_received s @
              [\<lparr>sr_GatewayID = gid, sr_StreamID = sid, sr_Seq = q, sr_Reading = r\<rparr>],
           ss_datapoints := (ss_datapoints s)(k \<mapsto> d)\<rparr>)"

definition noteGap :: "gotime \<Rightarrow> string \<Rightarrow> string \<Rightarrow> int \<Rightarrow> srvStore \<Rightarrow> srvStore" where
  "noteGap now gid sid q s =
     (case ss_lastSeq s (gid, sid) of
        Some lst \<Rightarrow>
          (if q > lst + 1
           then let gp = \<lparr>gp_GatewayID = gid, gp_StreamID = sid, gp_FromSeq = lst + 1, gp_ToSeq = q - 1, gp_At = now\<rparr>
                in (updGw gid (\<lambda>g. g\<lparr>gs_Gaps := gs_Gaps g + 1,
                       gs_MissingChunks := gs_MissingChunks g + (gp_ToSeq gp - gp_FromSeq gp + 1)\<rparr>) s)
                     \<lparr>ss_gaps := take 100 (gp # ss_gaps s)\<rparr>
           else s)
      | None \<Rightarrow> s)"

definition advanceSeq :: "string \<Rightarrow> string \<Rightarrow> int \<Rightarrow> srvStore \<Rightarrow> srvStore" where
  "advanceSeq gid sid q s =
     (if q > (case ss_lastSeq s (gid, sid) of Some l \<Rightarrow> l | None \<Rightarrow> 0)
      then updGw gid (\<lambda>g. g\<lparr>gs_Streams := (gs_Streams g)(sid \<mapsto> q)\<rparr>)
             (s\<lparr>ss_lastSeq := (ss_lastSeq s)((gid, sid) \<mapsto> q)\<rparr>)
      else s)"

definition storeChunk :: "gotime \<Rightarrow> string \<Rightarrow> string \<Rightarrow> wireChunk \<Rightarrow> srvStore \<Rightarrow> srvStore" where
  "storeChunk now gid sid c s =
     (let s = s\<lparr>ss_seen := (ss_seen s)((gid, sid, wc_Seq c) := True)\<rparr>;
          s = noteGap now gid sid (wc_Seq c) s;
          s = advanceSeq gid sid (wc_Seq c) s
      in fold (storeReading gid sid (wc_Seq c)) (wc_Readings c) s)"

text \<open>
  \<open>writeOk\<close> tells whether the output writer accepts the new chunks. The result is the number of new
  readings and of duplicate chunks, or an error with the duplicates.
\<close>

definition ingest :: "bool \<Rightarrow> gotime \<Rightarrow> message \<Rightarrow> srvStore \<Rightarrow> ((string \<times> nat) + (nat \<times> nat)) \<times> srvStore" where
  "ingest writeOk now m s =
     (let gid = m_GatewayID m; sid = m_StreamID m;
          fresh = filter (\<lambda>c. \<not> ss_seen s (gid, sid, wc_Seq c)) (m_Chunks m);
          dups = length (filter (\<lambda>c. ss_seen s (gid, sid, wc_Seq c)) (m_Chunks m));
          s = updGw gid (\<lambda>g. g\<lparr>gs_DuplicateChunks := gs_DuplicateChunks g + int dups\<rparr>) s
      in if ss_out s \<and> fresh \<noteq> [] \<and> \<not> writeOk
         then (Inl (''write failed'', dups),
               updGw gid (\<lambda>g. g\<lparr>gs_Rejected := gs_Rejected g + 1, gs_LastError := ''write failed''\<rparr>) s)
         else let s = fold (storeChunk now gid sid) fresh s;
                  accepted = sum_list (map (\<lambda>c. length (wc_Readings c)) fresh);
                  s = updGw gid (\<lambda>g. g\<lparr>gs_Readings := gs_Readings g + int accepted, gs_LastError := ''''\<rparr>) s;
                  s = s\<lparr>ss_received := keepLast maxReceived (ss_received s)\<rparr>
              in (Inr (accepted, dups), s))"

section \<open>Settings\<close>

definition faultNone :: string where "faultNone = ''none''"
definition faultDropAck :: string where "faultDropAck = ''drop_ack''"
definition faultErrorAck :: string where "faultErrorAck = ''error_ack''"
definition faultIgnore :: string where "faultIgnore = ''ignore''"

record gatewayEntry =
  ge_ID :: string
  ge_Name :: string

record datapointName =
  dn_GatewayID :: string
  dn_DeviceID :: int
  dn_DatapointID :: int
  dn_Name :: string
  dn_Unit :: string

record srvSettings =
  set_FaultMode :: string
  set_AckDelayMs :: int
  set_RejectUnknownGateways :: bool
  set_Gateways :: "gatewayEntry list"
  set_Datapoints :: "datapointName list"
  set_BrokerURL :: string
  set_DataTopic :: string
  set_Bucket :: string
  set_RetentionDays :: int

text \<open>\<^verbatim>\<open>strings.TrimSpace\<close> on ASCII strings.\<close>

definition isSpace :: "char \<Rightarrow> bool" where
  "isSpace c \<longleftrightarrow> (of_char c :: nat) \<in> {9, 10, 11, 12, 13, 32}"

definition trimSpace :: "string \<Rightarrow> string" where
  "trimSpace s = rev (dropWhile isSpace (rev (dropWhile isSpace s)))"

definition hasSuffix :: "string \<Rightarrow> string \<Rightarrow> bool" where
  "hasSuffix s suf \<longleftrightarrow> length suf \<le> length s \<and> drop (length s - length suf) s = suf"

fun gatewaysValid :: "string list \<Rightarrow> gatewayEntry list \<Rightarrow> string option" where
  "gatewaysValid seen [] = None"
| "gatewaysValid seen (g # gs) =
     (if trimSpace (ge_ID g) = '''' then Some ''every gateway needs an id''
      else if ge_ID g \<in> set seen then Some ''gateway is listed twice''
      else gatewaysValid (ge_ID g # seen) gs)"

text \<open>\<open>urlOk\<close> is \<^verbatim>\<open>url.Parse\<close> succeeding with a scheme and a host.\<close>

definition validateSettings :: "(string \<Rightarrow> bool) \<Rightarrow> srvSettings \<Rightarrow> string option" where
  "validateSettings urlOk s =
     (if set_FaultMode s \<notin> {faultNone, faultDropAck, faultErrorAck, faultIgnore}
      then Some ''fault.mode must be one of none, drop_ack, error_ack, ignore''
      else if set_AckDelayMs s < 0 \<or> set_AckDelayMs s > 120000
      then Some ''fault.ack_delay_ms must be 0-120000''
      else case gatewaysValid [] (set_Gateways s) of
             Some e \<Rightarrow> Some e
           | None \<Rightarrow>
               (if set_BrokerURL s \<noteq> '''' \<and> \<not> urlOk (set_BrokerURL s)
                then Some ''mqtt.broker_url is not a URL''
                else if \<not> hasSuffix (set_DataTopic s) ''/data''
                then Some ''mqtt.data_topic must end in /data''
                else if trimSpace (set_Bucket s) = '''' \<or> take 1 (set_Bucket s) = ''_''
                then Some ''influx.bucket must be set and must not start with _''
                else if set_RetentionDays s < 0
                then Some ''influx.retention_days must be 0 (forever) or more''
                else None))"

definition normalizeSettings :: "srvSettings \<Rightarrow> srvSettings" where
  "normalizeSettings s =
     s\<lparr>set_FaultMode := (if trimSpace (set_FaultMode s) = '''' then faultNone else trimSpace (set_FaultMode s)),
       set_Gateways := map (\<lambda>g. g\<lparr>ge_ID := trimSpace (ge_ID g), ge_Name := trimSpace (ge_Name g)\<rparr>) (set_Gateways s),
       set_Datapoints := filter (\<lambda>d. dn_Name d \<noteq> '''' \<or> dn_Unit d \<noteq> '''')
         (map (\<lambda>d. d\<lparr>dn_Name := trimSpace (dn_Name d), dn_Unit := trimSpace (dn_Unit d)\<rparr>) (set_Datapoints s)),
       set_BrokerURL := trimSpace (set_BrokerURL s),
       set_DataTopic := trimSpace (set_DataTopic s),
       set_Bucket := trimSpace (set_Bucket s)\<rparr>"

text \<open>\<^verbatim>\<open>settingsStore.set\<close>: \<open>saveOk\<close> tells whether writing the file succeeds.\<close>

definition setSettings :: "(string \<Rightarrow> bool) \<Rightarrow> bool \<Rightarrow> srvSettings \<Rightarrow> srvSettings \<Rightarrow> (string + srvSettings) \<times> srvSettings" where
  "setSettings urlOk saveOk s cur =
     (let s = normalizeSettings s in
      case validateSettings urlOk s of
        Some e \<Rightarrow> (Inl e, cur)
      | None \<Rightarrow> (if saveOk then (Inr s, s) else (Inl ''save failed'', cur)))"

fun gatewayName :: "gatewayEntry list \<Rightarrow> string \<Rightarrow> string option" where
  "gatewayName [] gid = None"
| "gatewayName (g # gs) gid = (if ge_ID g = gid then Some (ge_Name g) else gatewayName gs gid)"

section \<open>Processing\<close>

record srvResult =
  res_reply :: bool
  res_err :: string
  res_status :: int
  res_accepted :: nat
  res_dups :: nat

definition process :: "srvSettings \<Rightarrow> bool \<Rightarrow> gotime \<Rightarrow> message \<Rightarrow> srvStore \<Rightarrow> srvResult \<times> srvStore" where
  "process cfg writeOk now m s =
     (let gid = m_GatewayID m; s = noteMessage now gid s in
      if set_FaultMode cfg = faultIgnore
      then (\<lparr>res_reply = False, res_err = '''', res_status = 0, res_accepted = 0, res_dups = 0\<rparr>,
            noteRejected gid ''simulated: message ignored'' s)
      else if gatewayName (set_Gateways cfg) gid = None \<and> set_RejectUnknownGateways cfg
      then (\<lparr>res_reply = True, res_err = ''gateway '' @ gid @ '' is not registered on this server'',
              res_status = 403, res_accepted = 0, res_dups = 0\<rparr>,
            noteRejected gid ''gateway not registered'' s)
      else if set_FaultMode cfg = faultErrorAck
      then (\<lparr>res_reply = True, res_err = ''simulated server error'', res_status = 503, res_accepted = 0,
              res_dups = 0\<rparr>,
            noteRejected gid ''simulated: error ack'' s)
      else (case ingest writeOk now m s of
              (Inl (e, dups), s) \<Rightarrow>
                (\<lparr>res_reply = True, res_err = e, res_status = 503, res_accepted = 0, res_dups = dups\<rparr>, s)
            | (Inr (accepted, dups), s) \<Rightarrow>
                (if set_FaultMode cfg = faultDropAck
                 then (\<lparr>res_reply = False, res_err = '''', res_status = 0, res_accepted = accepted,
                         res_dups = dups\<rparr>, s)
                 else (\<lparr>res_reply = True, res_err = '''', res_status = 200, res_accepted = accepted,
                         res_dups = dups\<rparr>, s))))"

text \<open>\<^verbatim>\<open>handleIngest\<close>: no status means that the connection is dropped without a reply.\<close>

definition handleIngest :: "srvSettings \<Rightarrow> bool \<Rightarrow> gotime \<Rightarrow> message \<Rightarrow> srvStore \<Rightarrow> int option \<times> srvStore" where
  "handleIngest cfg writeOk now m s =
     (case process cfg writeOk now m s of
        (r, s) \<Rightarrow>
          (if \<not> res_reply r then (None, s)
           else if res_err r \<noteq> '''' then (Some (res_status r), s)
           else (Some 200, s)))"

text \<open>\<^verbatim>\<open>handleMQTT\<close>: the ack to publish, if any.\<close>

definition handleMQTT :: "srvSettings \<Rightarrow> bool \<Rightarrow> gotime \<Rightarrow> message \<Rightarrow> srvStore \<Rightarrow> wireAck option \<times> srvStore" where
  "handleMQTT cfg writeOk now m s =
     (case process cfg writeOk now m s of
        (r, s) \<Rightarrow>
          (if \<not> res_reply r then (None, s)
           else (Some \<lparr>a_StreamID = m_StreamID m, a_ToSeq = m_ToSeq m, a_Error = res_err r\<rparr>, s)))"

section \<open>What the server remembers\<close>

lemma seen_simps [simp]:
  "ss_seen (updGw g f s) = ss_seen s" "ss_seen (storeReading gid sid q r s) = ss_seen s"
  "ss_seen (noteGap now gid sid q s) = ss_seen s" "ss_seen (advanceSeq gid sid q s) = ss_seen s"
  "ss_seen (noteMessage now gid s) = ss_seen s" "ss_seen (noteRejected gid e s) = ss_seen s"
  by (simp_all add: updGw_def storeReading_def noteGap_def advanceSeq_def noteMessage_def
      noteRejected_def Let_def split: option.splits)

lemma seen_fold_storeReading [simp]:
  "ss_seen (fold (storeReading gid sid q) rs s) = ss_seen s"
  by (induction rs arbitrary: s) simp_all

lemma seen_storeChunk [simp]:
  "ss_seen (storeChunk now gid sid c s) = (ss_seen s)((gid, sid, wc_Seq c) := True)"
  by (simp add: storeChunk_def Let_def)

lemma seen_fold_storeChunk:
  "ss_seen (fold (storeChunk now gid sid) cs s) k \<longleftrightarrow>
     ss_seen s k \<or> (\<exists>c \<in> set cs. k = (gid, sid, wc_Seq c))"
  by (induction cs arbitrary: s) auto

lemma ingest_seen:
  assumes "ingest writeOk now m s = (res, s')"
  shows "ss_seen s k \<Longrightarrow> ss_seen s' k"
    and "\<exists>e. res = Inl e \<Longrightarrow> ss_seen s' = ss_seen s"
    and "\<exists>p. res = Inr p \<Longrightarrow> ss_seen s' k \<longleftrightarrow>
      ss_seen s k \<or> (\<exists>c \<in> set (m_Chunks m). k = (m_GatewayID m, m_StreamID m, wc_Seq c))"
  using assms
  by (auto simp: ingest_def Let_def seen_fold_storeChunk filter_empty_conv split: if_splits)

lemma process_seen:
  assumes "process cfg writeOk now m s = (r, s')"
  shows "ss_seen s k \<Longrightarrow> ss_seen s' k"
    and "res_reply r \<Longrightarrow> res_err r = '''' \<Longrightarrow> c \<in> set (m_Chunks m) \<Longrightarrow>
      ss_seen s' (m_GatewayID m, m_StreamID m, wc_Seq c)"
proof -
  have "(ss_seen s k \<longrightarrow> ss_seen s' k) \<and> (res_reply r \<and> res_err r = '''' \<and> c \<in> set (m_Chunks m) \<longrightarrow>
      ss_seen s' (m_GatewayID m, m_StreamID m, wc_Seq c))"
  proof (cases "set_FaultMode cfg = faultIgnore \<or>
      gatewayName (set_Gateways cfg) (m_GatewayID m) = None \<and> set_RejectUnknownGateways cfg \<or>
      set_FaultMode cfg = faultErrorAck")
    case True
    then show ?thesis using assms by (auto simp: process_def Let_def split: if_splits)
  next
    case False
    obtain res s1 where i: "ingest writeOk now m (noteMessage now (m_GatewayID m) s) = (res, s1)" by fastforce
    note seen = ingest_seen [OF i]
    show ?thesis
    proof (cases res)
      case (Inl e)
      have "fst e \<noteq> ''''" using i Inl by (auto simp: ingest_def Let_def split: if_splits)
      with Inl assms False i seen(1) [of k] show ?thesis
        by (auto simp: process_def Let_def split: prod.splits)
    next
      case (Inr p)
      with assms False i seen(1) [of k] seen(3) [of "(m_GatewayID m, m_StreamID m, wc_Seq c)"] show ?thesis
        by (auto simp: process_def Let_def split: prod.splits if_splits)
    qed
  qed
  then show "ss_seen s k \<Longrightarrow> ss_seen s' k"
    and "res_reply r \<Longrightarrow> res_err r = '''' \<Longrightarrow> c \<in> set (m_Chunks m) \<Longrightarrow>
      ss_seen s' (m_GatewayID m, m_StreamID m, wc_Seq c)" by auto
qed

section \<open>The server behind HTTP\<close>

text \<open>
  The world of the HTTP adapter: the server with its settings, and what the network does to the
  \<open>n\<close>-th request: whether it arrives, whether the reply comes back, and whether the output writer
  accepts the data, at what time.
\<close>

record net_event =
  ne_request :: bool
  ne_reply :: bool
  ne_writeOk :: bool
  ne_now :: gotime

record srvWorld =
  sw_store :: srvStore
  sw_cfg :: "nat \<Rightarrow> srvSettings"
  sw_net :: "nat \<Rightarrow> net_event"
  sw_count :: nat

definition serverPost :: "message \<Rightarrow> srvWorld \<Rightarrow> (string + int) \<times> srvWorld" where
  "serverPost m w =
     (let n = sw_count w; e = sw_net w n; w = w\<lparr>sw_count := n + 1\<rparr> in
      if \<not> ne_request e then (Inl ''request lost'', w)
      else case handleIngest (sw_cfg w n) (ne_writeOk e) (ne_now e) m (sw_store w) of
             (status, s) \<Rightarrow>
               (let w = w\<lparr>sw_store := s\<rparr> in
                case status of
                  None \<Rightarrow> (Inl ''EOF'', w)
                | Some code \<Rightarrow> (if ne_reply e then (Inr code, w) else (Inl ''reply lost'', w))))"

definition serverHolds :: "srvWorld \<Rightarrow> string \<Rightarrow> string \<Rightarrow> int \<Rightarrow> bool" where
  "serverHolds w g sid q = ss_seen (sw_store w) (g, sid, q)"

lemma handleIngest_seen:
  assumes "handleIngest cfg writeOk now m s = (status, s')"
  shows "ss_seen s k \<Longrightarrow> ss_seen s' k"
    and "status = Some code \<Longrightarrow> 200 \<le> code \<Longrightarrow> code < 300 \<Longrightarrow> c \<in> set (m_Chunks m) \<Longrightarrow>
      ss_seen s' (m_GatewayID m, m_StreamID m, wc_Seq c)"
proof -
  obtain r s1 where p: "process cfg writeOk now m s = (r, s1)" by fastforce
  have "res_err r \<noteq> '''' \<Longrightarrow> res_status r \<ge> 300"
    using p by (auto simp: process_def Let_def split: if_splits prod.splits sum.splits)
  with assms p process_seen [OF p] show "ss_seen s k \<Longrightarrow> ss_seen s' k"
    and "status = Some code \<Longrightarrow> 200 \<le> code \<Longrightarrow> code < 300 \<Longrightarrow> c \<in> set (m_Chunks m) \<Longrightarrow>
      ss_seen s' (m_GatewayID m, m_StreamID m, wc_Seq c)"
    by (auto simp: handleIngest_def split: if_splits)
qed

interpretation http_server: acking_adapter "httpSend serverPost" serverHolds "\<lambda>_. {}" "\<lambda>_. True"
proof
  fix m w w' c
  assume "httpSend serverPost m w = (None, w')" and c: "c \<in> set (m_Chunks m)"
  then obtain code s1 where "handleIngest (sw_cfg w (sw_count w)) (ne_writeOk (sw_net w (sw_count w)))
      (ne_now (sw_net w (sw_count w))) m (sw_store w) = (Some code, s1)"
    and "200 \<le> code" "code < 300" "sw_store w' = s1"
    by (auto simp: httpSend_def serverPost_def Let_def jsonMarshal_def split: sum.splits prod.splits
        if_splits option.splits)
  with handleIngest_seen(2) c show "serverHolds w' (m_GatewayID m) (m_StreamID m) (wc_Seq c)"
    by (simp add: serverHolds_def)
next
  fix m r w w' g sid q
  assume s: "httpSend serverPost m w = (r, w')" and h: "serverHolds w g sid q"
  have "sw_store w' = sw_store w \<or> (\<exists>status. handleIngest (sw_cfg w (sw_count w))
      (ne_writeOk (sw_net w (sw_count w))) (ne_now (sw_net w (sw_count w))) m (sw_store w) = (status, sw_store w'))"
    using s by (auto simp: httpSend_def serverPost_def Let_def jsonMarshal_def split: sum.splits prod.splits
        if_splits option.splits)
  then show "serverHolds w' g sid q" using h handleIngest_seen(1) by (auto simp: serverHolds_def)
qed simp_all

section \<open>Counting\<close>

lemma gw_updGw: "gw g (updGw gid f s) = (if g = gid then f (gw g s) else gw g s)"
  by (simp add: gw_def updGw_def)

lemma gw_other [simp]:
  "gw g (s\<lparr>ss_seen := a\<rparr>) = gw g s" "gw g (s\<lparr>ss_lastSeq := b\<rparr>) = gw g s"
  "gw g (s\<lparr>ss_received := c\<rparr>) = gw g s" "gw g (s\<lparr>ss_datapoints := d\<rparr>) = gw g s"
  "gw g (s\<lparr>ss_gaps := e\<rparr>) = gw g s" "gw g (storeReading gid sid q r s) = gw g s"
  by (simp_all add: gw_def storeReading_def Let_def)

lemma gw_fold_storeReading [simp]: "gw g (fold (storeReading gid sid q) rs s) = gw g s"
  by (induction rs arbitrary: s) simp_all

lemma readings_chunk [simp]: "gs_Readings (gw g (storeChunk now gid sid c s)) = gs_Readings (gw g s)"
  by (auto simp: storeChunk_def Let_def noteGap_def advanceSeq_def gw_updGw split: option.splits)

lemma readings_chunks [simp]:
  "gs_Readings (gw g (fold (storeChunk now gid sid) cs s)) = gs_Readings (gw g s)"
  by (induction cs arbitrary: s) simp_all

definition freshChunks :: "message \<Rightarrow> srvStore \<Rightarrow> wireChunk list" where
  "freshChunks m s = filter (\<lambda>c. \<not> ss_seen s (m_GatewayID m, m_StreamID m, wc_Seq c)) (m_Chunks m)"

lemma ingest_readings:
  assumes "ingest writeOk now m s = (res, s')"
  shows "gs_Readings (gw g s') = gs_Readings (gw g s) +
    (case res of Inl e \<Rightarrow> 0
     | Inr p \<Rightarrow> (if g = m_GatewayID m then int (sum_list (map (\<lambda>c. length (wc_Readings c)) (freshChunks m s))) else 0))"
  using assms by (auto simp: ingest_def Let_def gw_updGw freshChunks_def split: if_splits)

text \<open>A sequence of deliveries: each message with the outcome of its write and its time.\<close>

definition deliver :: "bool \<times> gotime \<times> message \<Rightarrow> srvStore \<Rightarrow> srvStore" where
  "deliver e s = (case e of (writeOk, now, m) \<Rightarrow> snd (ingest writeOk now m s))"

definition keysOf :: "message \<Rightarrow> (string \<times> string \<times> int) set" where
  "keysOf m = (\<lambda>c. (m_GatewayID m, m_StreamID m, wc_Seq c)) ` set (m_Chunks m)"

definition countedOnce :: "(string \<times> string \<times> int \<Rightarrow> nat) \<Rightarrow> srvStore \<Rightarrow> bool" where
  "countedOnce sz s \<longleftrightarrow> finite {k. ss_seen s k} \<and>
     (\<forall>g. gs_Readings (gw g s) = int (sum sz {k. ss_seen s k \<and> fst k = g}))"

lemma deliver_countedOnce:
  assumes "countedOnce sz s" "distinct (map wc_Seq (m_Chunks m))"
    and "\<And>c. c \<in> set (m_Chunks m) \<Longrightarrow> sz (m_GatewayID m, m_StreamID m, wc_Seq c) = length (wc_Readings c)"
  shows "countedOnce sz (deliver (writeOk, now, m) s)"
proof -
  obtain res s' where i: "ingest writeOk now m s = (res, s')" by fastforce
  show ?thesis
  proof (cases res)
    case (Inl e)
    with i assms(1) ingest_seen(2) [OF i] ingest_readings [OF i] show ?thesis
      by (simp add: countedOnce_def deliver_def)
  next
    case (Inr p)
    let ?key = "\<lambda>c. (m_GatewayID m, m_StreamID m, wc_Seq c)"
    let ?fresh = "freshChunks m s"
    have dis: "distinct (map ?key ?fresh)"
      using assms(2) by (auto simp: freshChunks_def distinct_map inj_on_def)
    have seen: "{k. ss_seen s' k} = {k. ss_seen s k} \<union> ?key ` set ?fresh"
      using ingest_seen(3) [OF i] Inr by (auto simp: freshChunks_def)
    have new: "{k. ss_seen s k} \<inter> ?key ` set ?fresh = {}" by (auto simp: freshChunks_def)
    have "sum sz (?key ` set ?fresh) = sum_list (map sz (map ?key ?fresh))"
      using dis by (simp add: sum_list_distinct_conv_sum_set del: map_map)
    also have "\<dots> = sum_list (map (\<lambda>c. length (wc_Readings c)) ?fresh)"
      using assms(3) by (auto simp: freshChunks_def intro!: arg_cong [of _ _ sum_list])
    finally have tot: "sum sz (?key ` set ?fresh) = sum_list (map (\<lambda>c. length (wc_Readings c)) ?fresh)" .
    have fin: "finite {k. ss_seen s k}" using assms(1) by (simp add: countedOnce_def)
    have "gs_Readings (gw g s') = int (sum sz {k. ss_seen s' k \<and> fst k = g})" for g
    proof -
      have split: "{k. ss_seen s' k \<and> fst k = g} = {k. ss_seen s k \<and> fst k = g} \<union>
          (if g = m_GatewayID m then ?key ` set ?fresh else {})"
        using seen by auto
      have "sum sz {k. ss_seen s' k \<and> fst k = g} = sum sz {k. ss_seen s k \<and> fst k = g} +
          sum sz (if g = m_GatewayID m then ?key ` set ?fresh else {})"
        unfolding split using fin new by (intro sum.union_disjoint) (auto intro: rev_finite_subset)
      with assms(1) ingest_readings [OF i, of g] Inr tot show ?thesis
        by (simp add: countedOnce_def del: of_nat_sum)
    qed
    with fin seen i show ?thesis by (simp add: countedOnce_def deliver_def)
  qed
qed

text \<open>
  The rows a chunk adds to the table of received readings. \<open>storedRows content s\<close>: the table is the
  tail of a history that has, for each chunk seen, its readings once and in order, and no other row.
\<close>

definition chunkRows :: "string \<Rightarrow> string \<Rightarrow> wireChunk \<Rightarrow> srvReading list" where
  "chunkRows gid sid c =
     map (\<lambda>r. \<lparr>sr_GatewayID = gid, sr_StreamID = sid, sr_Seq = wc_Seq c, sr_Reading = r\<rparr>) (wc_Readings c)"

definition receivedKey :: "srvReading \<Rightarrow> string \<times> string \<times> int" where
  "receivedKey r = (sr_GatewayID r, sr_StreamID r, sr_Seq r)"

definition rowsFor :: "string \<times> string \<times> int \<Rightarrow> srvReading list \<Rightarrow> wireReading list" where
  "rowsFor k rows = map sr_Reading (filter (\<lambda>r. receivedKey r = k) rows)"

definition storedRows :: "(string \<times> string \<times> int \<Rightarrow> wireReading list) \<Rightarrow> srvStore \<Rightarrow> bool" where
  "storedRows content s \<longleftrightarrow> (\<exists>history. ss_received s = keepLast maxReceived history \<and>
     (\<forall>k. rowsFor k history = (if ss_seen s k then content k else [])))"

lemma received_updGw [simp]: "ss_received (updGw g f s) = ss_received s"
  by (simp add: updGw_def)

lemma received_fold_storeReading:
  "ss_received (fold (storeReading gid sid q) rs s) =
     ss_received s @ map (\<lambda>r. \<lparr>sr_GatewayID = gid, sr_StreamID = sid, sr_Seq = q, sr_Reading = r\<rparr>) rs"
  by (induction rs arbitrary: s) (simp_all add: storeReading_def Let_def)

lemma received_fold_storeChunk:
  "ss_received (fold (storeChunk now gid sid) cs s) = ss_received s @ concat (map (chunkRows gid sid) cs)"
proof (induction cs arbitrary: s)
  case (Cons c cs)
  have "ss_received (noteGap now gid sid q t) = ss_received t" "ss_received (advanceSeq gid sid q t) = ss_received t"
    for q t by (simp_all add: noteGap_def advanceSeq_def updGw_def Let_def split: option.splits)
  then have "ss_received (storeChunk now gid sid c s) = ss_received s @ chunkRows gid sid c"
    by (simp add: storeChunk_def Let_def received_fold_storeReading chunkRows_def)
  with Cons show ?case by simp
qed simp

lemma ingest_received:
  assumes "ingest writeOk now m s = (res, s')"
  shows "ss_received s' = (case res of Inl e \<Rightarrow> ss_received s
     | Inr p \<Rightarrow> keepLast maxReceived
         (ss_received s @ concat (map (chunkRows (m_GatewayID m) (m_StreamID m)) (freshChunks m s))))"
  using assms
  by (auto simp: ingest_def Let_def received_fold_storeChunk freshChunks_def split: if_splits)

lemma out_storeChunk: "ss_out (fold (storeChunk now gid sid) cs s) = ss_out s"
proof (induction cs arbitrary: s)
  case (Cons c cs)
  have "ss_out (fold (storeReading gid sid q) rs t) = ss_out t" for q rs t
    by (induction rs arbitrary: t) (simp_all add: storeReading_def Let_def)
  then have "ss_out (storeChunk now gid sid c s) = ss_out s"
    by (simp add: storeChunk_def noteGap_def advanceSeq_def updGw_def Let_def split: option.splits)
  with Cons show ?case by simp
qed simp

text \<open>A message is stored unless it has a new chunk and the configured output writer refuses it.\<close>

lemma deliver_seen:
  "ss_out (deliver (writeOk, now, m) s) = ss_out s"
  "ss_seen (deliver (writeOk, now, m) s) k \<longleftrightarrow> ss_seen s k \<or> (writeOk \<or> \<not> ss_out s) \<and> k \<in> keysOf m"
proof -
  show "ss_out (deliver (writeOk, now, m) s) = ss_out s"
    by (simp add: deliver_def ingest_def Let_def out_storeChunk updGw_def)
  have "(\<exists>c. c \<in> set (m_Chunks m) \<and> \<not> ss_seen s (m_GatewayID m, m_StreamID m, wc_Seq c) \<and>
      k = (m_GatewayID m, m_StreamID m, wc_Seq c)) \<longleftrightarrow> \<not> ss_seen s k \<and> k \<in> keysOf m"
    by (auto simp: keysOf_def)
  then show "ss_seen (deliver (writeOk, now, m) s) k \<longleftrightarrow> ss_seen s k \<or> (writeOk \<or> \<not> ss_out s) \<and> k \<in> keysOf m"
    by (auto simp: deliver_def ingest_def Let_def seen_fold_storeChunk updGw_def filter_empty_conv keysOf_def)
qed

lemma rowsFor_append: "rowsFor k (xs @ ys) = rowsFor k xs @ rowsFor k ys"
  by (simp add: rowsFor_def)

lemma rowsFor_chunk:
  "rowsFor k (chunkRows gid sid c) = (if k = (gid, sid, wc_Seq c) then wc_Readings c else [])"
  by (auto simp: rowsFor_def chunkRows_def receivedKey_def filter_map comp_def)

lemma rowsFor_chunks:
  assumes "distinct (map wc_Seq cs)" "\<And>c. c \<in> set cs \<Longrightarrow> content (gid, sid, wc_Seq c) = wc_Readings c"
  shows "rowsFor k (concat (map (chunkRows gid sid) cs)) =
    (if k \<in> (\<lambda>c. (gid, sid, wc_Seq c)) ` set cs then content k else [])"
  using assms
proof (induction cs)
  case (Cons c cs)
  then have "rowsFor k (concat (map (chunkRows gid sid) cs)) =
    (if k \<in> (\<lambda>c. (gid, sid, wc_Seq c)) ` set cs then content k else [])" by auto
  with Cons.prems show ?case by (auto simp: rowsFor_append rowsFor_chunk)
qed (simp add: rowsFor_def)

lemma deliver_storedRows:
  assumes "storedRows content s" "distinct (map wc_Seq (m_Chunks m))"
    and "\<And>c. c \<in> set (m_Chunks m) \<Longrightarrow> content (m_GatewayID m, m_StreamID m, wc_Seq c) = wc_Readings c"
  shows "storedRows content (deliver (writeOk, now, m) s)"
proof -
  obtain res s' where i: "ingest writeOk now m s = (res, s')" by fastforce
  then have d: "deliver (writeOk, now, m) s = s'" by (simp add: deliver_def)
  show ?thesis
  proof (cases res)
    case (Inl e)
    with ingest_received [OF i] ingest_seen(2) [OF i] assms(1) show ?thesis by (simp add: storedRows_def d)
  next
    case (Inr p)
    let ?key = "\<lambda>c. (m_GatewayID m, m_StreamID m, wc_Seq c)"
    let ?new = "concat (map (chunkRows (m_GatewayID m) (m_StreamID m)) (freshChunks m s))"
    obtain history where h: "ss_received s = keepLast maxReceived history"
      "\<And>k. rowsFor k history = (if ss_seen s k then content k else [])"
      using assms(1) by (auto simp: storedRows_def)
    have "distinct (map wc_Seq (freshChunks m s))" using assms(2) by (simp add: freshChunks_def distinct_map_filter)
    then have new: "rowsFor k ?new = (if k \<in> ?key ` set (freshChunks m s) then content k else [])" for k
      using assms(3) by (intro rowsFor_chunks) (simp_all add: freshChunks_def)
    have "ss_seen s' k \<longleftrightarrow> ss_seen s k \<or> k \<in> ?key ` set (freshChunks m s)" for k
      using ingest_seen(3) [OF i] Inr by (auto simp: freshChunks_def)
    moreover have "k \<notin> ?key ` set (freshChunks m s)" if "ss_seen s k" for k
      using that by (auto simp: freshChunks_def)
    ultimately have "rowsFor k (history @ ?new) = (if ss_seen s' k then content k else [])" for k
      using h(2) [of k] new [of k] by (auto simp: rowsFor_append)
    moreover have "ss_received s' = keepLast maxReceived (history @ ?new)"
      using ingest_received [OF i] Inr h(1) by (simp add: keepLast_keepLast_append)
    ultimately show ?thesis unfolding storedRows_def d by blast
  qed
qed

lemma deliveries_stored:
  assumes "\<forall>(writeOk, now, m) \<in> set es. distinct (map wc_Seq (m_Chunks m)) \<and>
      (\<forall>c \<in> set (m_Chunks m). content (m_GatewayID m, m_StreamID m, wc_Seq c) = wc_Readings c)"
    and "countedOnce (\<lambda>k. length (content k)) s" "storedRows content s"
  shows "countedOnce (\<lambda>k. length (content k)) (fold deliver es s) \<and> storedRows content (fold deliver es s) \<and>
    (\<forall>k. ss_seen (fold deliver es s) k \<longleftrightarrow>
       ss_seen s k \<or> (\<exists>(writeOk, now, m) \<in> set es. (writeOk \<or> \<not> ss_out s) \<and> k \<in> keysOf m))"
  using assms
proof (induction es arbitrary: s)
  case (Cons e es)
  obtain writeOk now m where e: "e = (writeOk, now, m)" using prod_cases3 by blast
  have m: "distinct (map wc_Seq (m_Chunks m))"
    "\<And>c. c \<in> set (m_Chunks m) \<Longrightarrow> content (m_GatewayID m, m_StreamID m, wc_Seq c) = wc_Readings c"
    using Cons.prems(1) by (auto simp: e)
  have "countedOnce (\<lambda>k. length (content k)) (deliver e s)"
    unfolding e using m by (intro deliver_countedOnce [OF Cons.prems(2)]) simp_all
  moreover have "storedRows content (deliver e s)"
    unfolding e using m by (intro deliver_storedRows [OF Cons.prems(3)])
  ultimately show ?case
    using Cons.IH [of "deliver e s"] Cons.prems(1) by (auto simp: e deliver_seen)
qed simp

text \<open>
  C6: each chunk is stored and counted once. Let a server receive any sequence of messages, with
  re-deliveries, in any order, from any number of gateways and streams, some of them failing to be
  written. Suppose that no message lists a sequence number twice, and that a chunk (a gateway, a
  stream and a sequence number) carries the same readings \<open>content k\<close> in every message. Then the
  server has stored exactly the chunks of the messages whose write did not fail (with no output writer
  configured, of all messages); the table of received readings is the tail of 10000 rows of a history
  with the readings of each stored chunk once, in their order, and nothing else; and the readings
  counter of each gateway counts the readings of its stored chunks, each once.
\<close>

theorem ingest_stores_each_chunk_once:
  assumes "\<forall>(writeOk, now, m) \<in> set es. distinct (map wc_Seq (m_Chunks m)) \<and>
      (\<forall>c \<in> set (m_Chunks m). content (m_GatewayID m, m_StreamID m, wc_Seq c) = wc_Readings c)"
    and "s = fold deliver es (newStore out)"
  shows "(\<forall>k. ss_seen s k \<longleftrightarrow> (\<exists>(writeOk, now, m) \<in> set es. (writeOk \<or> \<not> out) \<and> k \<in> keysOf m)) \<and>
    (\<exists>history. ss_received s = keepLast maxReceived history \<and>
       (\<forall>k. rowsFor k history = (if ss_seen s k then content k else []))) \<and>
    (\<forall>g. gs_Readings (gw g s) = int (\<Sum>k \<in> {k. ss_seen s k \<and> fst k = g}. length (content k)))"
proof -
  have "countedOnce (\<lambda>k. length (content k)) (newStore out)"
    by (simp add: countedOnce_def newStore_def gw_def)
  moreover have "storedRows content (newStore out)"
    by (simp add: storedRows_def newStore_def keepLast_def rowsFor_def exI [of _ "[]"])
  ultimately have inv: "countedOnce (\<lambda>k. length (content k)) s" "storedRows content s"
    "\<And>k. ss_seen s k \<longleftrightarrow>
       ss_seen (newStore out) k \<or> (\<exists>(writeOk, now, m) \<in> set es. (writeOk \<or> \<not> ss_out (newStore out)) \<and> k \<in> keysOf m)"
    using deliveries_stored [OF assms(1), of "newStore out"] unfolding assms(2) by blast+
  have "ss_seen s k \<longleftrightarrow> (\<exists>(writeOk, now, m) \<in> set es. (writeOk \<or> \<not> out) \<and> k \<in> keysOf m)" for k
    using inv(3) [of k] by (simp add: newStore_def)
  with inv(1,2) show ?thesis unfolding countedOnce_def storedRows_def by blast
qed

definition sampleMessage :: message where
  "sampleMessage = buildMessage ''GW-001'' ''abc''
     [\<lparr>ck_Seq = 1, ck_Readings = [sampleReading, sampleReading]\<rparr>, \<lparr>ck_Seq = 4, ck_Readings = [sampleReading]\<rparr>]"

lemma sampleMessage_chunks:
  "map wc_Seq (m_Chunks sampleMessage) = [1, 4]" "m_GatewayID sampleMessage = ''GW-001''"
  "m_StreamID sampleMessage = ''abc''" "map (\<lambda>c. length (wc_Readings c)) (m_Chunks sampleMessage) = [2, 1]"
  by (simp_all add: sampleMessage_def buildMessage_def wireChunkOf_def)

theorem ingest_stores_each_chunk_once_witness:
  "\<exists>history. ss_received (fold deliver [(True, 0, sampleMessage), (False, 1, sampleMessage)] (newStore True)) =
       keepLast maxReceived history \<and>
     rowsFor (''GW-001'', ''abc'', 1) history = map wireReadingOf [sampleReading, sampleReading] \<and>
     rowsFor (''GW-001'', ''abc'', 2) history = []"
proof -
  let ?es = "[(True, 0, sampleMessage), (False, 1, sampleMessage)]"
  let ?content = "\<lambda>k :: string \<times> string \<times> int.
    map wireReadingOf (if snd (snd k) = 1 then [sampleReading, sampleReading] else [sampleReading])"
  have keys: "keysOf sampleMessage = {(''GW-001'', ''abc'', 1), (''GW-001'', ''abc'', 4)}"
    by (simp add: keysOf_def sampleMessage_def buildMessage_def wireChunkOf_def)
  define s where "s = fold deliver ?es (newStore True)"
  have "\<forall>(writeOk, now, m) \<in> set ?es. distinct (map wc_Seq (m_Chunks m)) \<and>
      (\<forall>c \<in> set (m_Chunks m). ?content (m_GatewayID m, m_StreamID m, wc_Seq c) = wc_Readings c)"
    by (simp add: sampleMessage_def buildMessage_def wireChunkOf_def)
  note stored = ingest_stores_each_chunk_once [OF this s_def]
  have "ss_seen s (''GW-001'', ''abc'', 1)" "\<not> ss_seen s (''GW-001'', ''abc'', 2)"
    using stored by (simp_all add: keys)
  moreover obtain history where "ss_received s = keepLast maxReceived history"
    "\<And>k. rowsFor k history = (if ss_seen s k then ?content k else [])" using stored by blast
  ultimately show ?thesis unfolding s_def [symmetric] by (intro exI [of _ history]) simp
qed

lemma keepLast_idem: "keepLast n (keepLast n xs) = keepLast n xs"
  using keepLast_keepLast_append [of n xs "[]"] by simp

lemma ingest_no_fresh:
  assumes "freshChunks m s = []"
  shows "ingest writeOk now m s =
    (Inr (0, length (m_Chunks m)),
     (updGw (m_GatewayID m) (\<lambda>g. g\<lparr>gs_LastError := ''''\<rparr>)
       (updGw (m_GatewayID m) (\<lambda>g. g\<lparr>gs_DuplicateChunks := gs_DuplicateChunks g + int (length (m_Chunks m))\<rparr>) s))
       \<lparr>ss_received := keepLast maxReceived (ss_received s)\<rparr>)"
proof -
  have "filter (\<lambda>c. ss_seen s (m_GatewayID m, m_StreamID m, wc_Seq c)) (m_Chunks m) = m_Chunks m"
    using assms by (auto simp: freshChunks_def filter_empty_conv)
  with assms show ?thesis
    by (simp add: ingest_def Let_def freshChunks_def updGw_def gw_def)
qed

lemma ingest_fresh_gone:
  assumes "ingest writeOk now m s = (Inr p, s1)"
  shows "freshChunks m s1 = []" "ss_received s1 = keepLast maxReceived (ss_received s1)"
  using ingest_seen(3) [OF assms] assms
  by (auto simp: freshChunks_def filter_empty_conv ingest_def Let_def keepLast_idem updGw_def
      split: if_splits)

text \<open>
  A re-delivered message has no effect. After a message was ingested, ingesting it again (a lost
  acknowledgement) succeeds with no new reading and all its chunks reported as duplicates, even if
  the output writer is failing; nothing but the gateway's duplicate counter (and its cleared error)
  changes.
\<close>

theorem ingest_again_is_harmless:
  assumes "ingest writeOk now m s = (Inr p, s1)"
  shows "\<exists>s2. ingest writeOk' now' m s1 = (Inr (0, length (m_Chunks m)), s2) \<and>
    ss_seen s2 = ss_seen s1 \<and> ss_received s2 = ss_received s1 \<and> ss_datapoints s2 = ss_datapoints s1 \<and>
    ss_lastSeq s2 = ss_lastSeq s1 \<and> ss_gaps s2 = ss_gaps s1 \<and>
    (\<forall>g. gw g s2 = (if g = m_GatewayID m
       then (gw g s1)\<lparr>gs_DuplicateChunks := gs_DuplicateChunks (gw g s1) + int (length (m_Chunks m)),
                      gs_LastError := ''''\<rparr>
       else gw g s1))"
  using ingest_no_fresh [OF ingest_fresh_gone(1) [OF assms]] ingest_fresh_gone(2) [OF assms]
  by (auto simp: gw_updGw) (simp_all add: updGw_def)

theorem ingest_again_is_harmless_witness:
  "\<exists>p s1 s2. ingest True 0 sampleMessage (newStore True) = (Inr p, s1) \<and>
     ingest False 1 sampleMessage s1 = (Inr (0, 2), s2) \<and> ss_received s2 = ss_received s1"
proof -
  obtain p s1 where i: "ingest True 0 sampleMessage (newStore True) = (Inr p, s1)"
    by (simp add: ingest_def Let_def)
  have "length (m_Chunks sampleMessage) = 2" by (simp add: sampleMessage_def buildMessage_def)
  with ingest_again_is_harmless [OF i, of False 1] i show ?thesis by auto
qed

section \<open>Gaps\<close>

definition missing :: "string \<Rightarrow> srvStore \<Rightarrow> int" where
  "missing gid s = gs_MissingChunks (gw gid s)"

lemma missing_readings [simp]: "missing g (fold (storeReading gid sid q) rs s) = missing g s"
  by (simp add: missing_def)

lemma lastSeq_readings [simp]: "ss_lastSeq (fold (storeReading gid sid q) rs s) = ss_lastSeq s"
  by (induction rs arbitrary: s) (simp_all add: storeReading_def Let_def)

lemma storeChunk_gap:
  assumes "ss_lastSeq s (gid, sid) = Some l" "l < wc_Seq c" "0 \<le> l"
  shows "missing gid (storeChunk now gid sid c s) = missing gid s + (wc_Seq c - l - 1)"
    and "ss_lastSeq (storeChunk now gid sid c s) (gid, sid) = Some (wc_Seq c)"
  using assms
  by (auto simp: storeChunk_def Let_def noteGap_def advanceSeq_def missing_def gw_updGw updGw_def [where f = "\<lambda>g. g\<lparr>gs_Streams := _ g\<rparr>"]
      split: option.splits)
    (auto simp: updGw_def gw_def)

lemma storeChunks_gap:
  assumes "ss_lastSeq s (gid, sid) = Some l" "0 \<le> l" "sorted_wrt (<) (l # map wc_Seq cs)"
  shows "missing gid (fold (storeChunk now gid sid) cs s) =
      missing gid s + (last (l # map wc_Seq cs) - l - int (length cs))"
    and "ss_lastSeq (fold (storeChunk now gid sid) cs s) (gid, sid) = Some (last (l # map wc_Seq cs))"
proof -
  have "missing gid (fold (storeChunk now gid sid) cs s) =
      missing gid s + (last (l # map wc_Seq cs) - l - int (length cs)) \<and>
    ss_lastSeq (fold (storeChunk now gid sid) cs s) (gid, sid) = Some (last (l # map wc_Seq cs))"
    using assms
  proof (induction cs arbitrary: s l)
    case (Cons c cs)
    have c: "l < wc_Seq c" using Cons.prems(3) by simp
    note one = storeChunk_gap [OF Cons.prems(1) c Cons.prems(2), of now]
    have "missing gid (fold (storeChunk now gid sid) cs (storeChunk now gid sid c s)) =
        missing gid (storeChunk now gid sid c s) + (last (wc_Seq c # map wc_Seq cs) - wc_Seq c - int (length cs)) \<and>
      ss_lastSeq (fold (storeChunk now gid sid) cs (storeChunk now gid sid c s)) (gid, sid) =
        Some (last (wc_Seq c # map wc_Seq cs))"
      using Cons.prems(2,3) c by (intro Cons.IH one(2)) auto
    with one(1) show ?case by simp
  qed simp
  then show "missing gid (fold (storeChunk now gid sid) cs s) =
      missing gid s + (last (l # map wc_Seq cs) - l - int (length cs))"
    and "ss_lastSeq (fold (storeChunk now gid sid) cs s) (gid, sid) = Some (last (l # map wc_Seq cs))"
    by auto
qed

text \<open>
  Gaps are measured exactly. When a stream's highest stored sequence number is \<open>l\<close> and a message
  brings new chunks, in increasing order and above \<open>l\<close>, its successful ingest moves the stream to the
  last of them and adds to the gateway's missing chunks precisely the sequence numbers skipped:
  those in between that are in neither.
\<close>

theorem ingest_measures_gaps:
  assumes "ingest writeOk now m s = (Inr p, s')" "ss_lastSeq s (m_GatewayID m, m_StreamID m) = Some l" "0 \<le> l"
    and "sorted_wrt (<) (l # map wc_Seq (freshChunks m s))"
  shows "ss_lastSeq s' (m_GatewayID m, m_StreamID m) = Some (last (l # map wc_Seq (freshChunks m s))) \<and>
    gs_MissingChunks (gw (m_GatewayID m) s') = gs_MissingChunks (gw (m_GatewayID m) s) +
      int (card ({l<..last (l # map wc_Seq (freshChunks m s))} - set (map wc_Seq (freshChunks m s))))"
proof -
  let ?gid = "m_GatewayID m" and ?sid = "m_StreamID m" and ?fresh = "freshChunks m s"
  let ?hi = "last (l # map wc_Seq ?fresh)"
  define s0 where "s0 = updGw ?gid (\<lambda>g. g\<lparr>gs_DuplicateChunks := gs_DuplicateChunks g +
    int (length (filter (\<lambda>c. ss_seen s (?gid, ?sid, wc_Seq c)) (m_Chunks m)))\<rparr>) s"
  have s0: "ss_lastSeq s0 (?gid, ?sid) = Some l" "missing ?gid s0 = missing ?gid s"
    using assms(2) by (simp_all add: s0_def missing_def gw_updGw) (simp add: updGw_def)
  have s': "missing ?gid s' = missing ?gid (fold (storeChunk now ?gid ?sid) ?fresh s0)"
    "ss_lastSeq s' = ss_lastSeq (fold (storeChunk now ?gid ?sid) ?fresh s0)"
    using assms(1)
    by (auto simp: ingest_def Let_def freshChunks_def s0_def missing_def gw_updGw split: if_splits)
      (simp_all add: updGw_def)
  note g = storeChunks_gap [OF s0(1) assms(3,4), of now]
  have sub: "set (map wc_Seq ?fresh) \<subseteq> {l<..?hi}"
  proof
    fix q assume q: "q \<in> set (map wc_Seq ?fresh)"
    then have "l < q" using assms(4) by auto
    moreover have "q \<le> ?hi"
      using sorted_last [of "\<lambda>x. x" "l # map wc_Seq ?fresh" q] assms(4) q by simp
    ultimately show "q \<in> {l<..?hi}" by simp
  qed
  have "distinct (map wc_Seq ?fresh)" using assms(4) by (simp add: strict_sorted_iff)
  then have cd: "card (set (map wc_Seq ?fresh)) = length ?fresh" by (metis distinct_card length_map)
  have le: "l \<le> ?hi" using sorted_last [of "\<lambda>x. x" "l # map wc_Seq ?fresh" l] assms(4) by simp
  have "length ?fresh \<le> nat (?hi - l)" using card_mono [OF _ sub] cd by simp
  moreover have "card ({l<..?hi} - set (map wc_Seq ?fresh)) = nat (?hi - l) - length ?fresh"
    using card_Diff_subset [OF _ sub] cd by simp
  ultimately have "int (card ({l<..?hi} - set (map wc_Seq ?fresh))) = ?hi - l - int (length ?fresh)"
    using le by (simp add: of_nat_diff)
  with g s' s0 show ?thesis by (simp add: missing_def)
qed

theorem ingest_measures_gaps_witness:
  "\<exists>p s'. ingest True 0 sampleMessage ((newStore False)\<lparr>ss_lastSeq := [(''GW-001'', ''abc'') \<mapsto> 0]\<rparr>) = (Inr p, s') \<and>
     gs_MissingChunks (gw ''GW-001'' s') = 2"
proof -
  let ?s = "(newStore False)\<lparr>ss_lastSeq := [(''GW-001'', ''abc'') \<mapsto> 0]\<rparr>"
  obtain p s' where i: "ingest True 0 sampleMessage ?s = (Inr p, s')"
    by (simp add: ingest_def Let_def)
  have f: "freshChunks sampleMessage ?s = m_Chunks sampleMessage"
    by (simp add: freshChunks_def newStore_def)
  have l: "ss_lastSeq ?s (m_GatewayID sampleMessage, m_StreamID sampleMessage) = Some 0"
    by (simp add: sampleMessage_chunks)
  have "{0<..4 :: int} - {1, 4} = {2, 3}" by auto
  then have c: "card ({0<..4 :: int} - {1, 4}) = 2" by simp
  from ingest_measures_gaps [OF i l]
  have "gs_MissingChunks (gw ''GW-001'' s') = gs_MissingChunks (gw ''GW-001'' ?s) + int (card ({0<..4 :: int} - {1, 4}))"
    by (simp add: f sampleMessage_chunks)
  with c i show ?thesis by (auto simp: newStore_def gw_def)
qed

section \<open>Settings\<close>

lemma dropWhile_trim: "dropWhile P (rev (dropWhile P (rev (dropWhile P s)))) = rev (dropWhile P (rev (dropWhile P s)))"
proof (cases "dropWhile P s")
  case (Cons c cs)
  then have "\<not> P c" by (metis dropWhile_eq_Cons_conv)
  with Cons show ?thesis by (simp add: dropWhile_append)
next
  case Nil
  show ?thesis by (simp only: Nil) simp
qed

lemma trimSpace_idem [simp]: "trimSpace (trimSpace s) = trimSpace s"
  by (simp add: trimSpace_def dropWhile_trim)

lemma normalizeSettings_idem: "normalizeSettings (normalizeSettings s) = normalizeSettings s"
proof -
  have f: "trimSpace faultNone = faultNone" "faultNone \<noteq> ''''"
    by (simp_all add: faultNone_def trimSpace_def isSpace_def of_char_def)
  then show ?thesis by (simp add: normalizeSettings_def o_def filter_map_idem)
qed

text \<open>
  Settings are accepted whole or not at all. \<^verbatim>\<open>set\<close> either keeps the current settings and
  reports an error, or installs the normalised settings, which pass validation, are unchanged by
  normalising again, and are what it returns.
\<close>

theorem setSettings_atomic:
  "case setSettings urlOk saveOk s cur of
     (Inl e, cur') \<Rightarrow> cur' = cur
   | (Inr s', cur') \<Rightarrow> cur' = s' \<and> s' = normalizeSettings s \<and> validateSettings urlOk s' = None \<and>
       normalizeSettings s' = s'"
  by (auto simp: setSettings_def Let_def normalizeSettings_idem split: option.splits)

end
