(* ===== verification/Delivery.thy ===== *)
theory Delivery
  imports ServerDemo
begin

text \<open>
  Queue, forwarder and server together. The locale joins the two interfaces the forwarder relies on,
  a first-in first-out source and a transport that acknowledges only stored data, and shows once for
  both transports what the forwarding loop delivers: the chunks that have left the queue are exactly
  a prefix of what was pending, and the server holds every one of them.
\<close>

text \<open>
  The messages that may still be on their way fit the queue: those of its stream come from this
  gateway and hold every pending chunk up to their last sequence number; none lacks a stream id unless the queue does.
\<close>

definition historyFits :: "string \<Rightarrow> string \<Rightarrow> chunk list \<Rightarrow> message set \<Rightarrow> bool" where
  "historyFits gid sid cs ms \<longleftrightarrow>
     (\<forall>m \<in> ms. (m_StreamID m = [] \<longrightarrow> sid = []) \<and> (m_StreamID m = sid \<longrightarrow> m_GatewayID m = gid \<and>
        (\<forall>c \<in> set cs. ck_Seq c \<le> m_ToSeq m \<longrightarrow> ck_Seq c \<in> wc_Seq ` set (m_Chunks m))))"

lemma historyFits_covers:
  assumes "historyFits gid sid (cs @ rest) ms" "cs \<noteq> []" "sorted_wrt (<) (map ck_Seq (cs @ rest))"
    and "m' \<in> ms" "confusable m' (buildMessage gid sid cs)"
  shows "covers m' (buildMessage gid sid cs) \<and> m_StreamID m' = sid"
proof -
  have sid: "m_StreamID m' = sid" and last: "m_ToSeq m' = ck_Seq (last cs)"
    using assms by (auto simp: historyFits_def confusable_def buildMessage_def)
  have "ck_Seq c \<le> ck_Seq (last cs)" if "c \<in> set cs" for c
    using assms(3) that by (intro sorted_last) (auto simp: sorted_wrt_append)
  then have "ck_Seq ` set cs \<subseteq> wc_Seq ` set (m_Chunks m')"
    using assms(1,4) sid last by (fastforce simp: historyFits_def)
  moreover have "wc_Seq ` set (m_Chunks (buildMessage gid sid cs)) = ck_Seq ` set cs"
    by (simp add: buildMessage_def wireChunkOf_def image_image)
  moreover have "m_GatewayID m' = gid" using assms(1,4) sid by (auto simp: historyFits_def)
  ultimately show ?thesis using sid by (simp add: covers_def buildMessage_def)
qed

lemma historyFits_grows:
  assumes "historyFits gid sid (cs @ rest) ms" "cs \<noteq> []" "sorted_wrt (<) (map ck_Seq (cs @ rest))"
    and "ms' \<subseteq> insert (buildMessage gid sid cs) ms"
  shows "historyFits gid sid (cs @ rest) ms'"
proof -
  have "ck_Seq (last cs) < ck_Seq c" if "c \<in> set rest" for c
    using assms(2,3) that by (simp add: sorted_wrt_append)
  then have "ck_Seq c \<in> wc_Seq ` set (m_Chunks (buildMessage gid sid cs))"
    if "c \<in> set (cs @ rest)" "ck_Seq c \<le> ck_Seq (last cs)" for c
    using that by (force simp: buildMessage_def wireChunkOf_def image_image)
  then have "historyFits gid sid (cs @ rest) (insert (buildMessage gid sid cs) ms)"
    using assms(1) by (simp add: historyFits_def) (simp add: buildMessage_def)
  then show ?thesis using assms(4) by (auto simp: historyFits_def)
qed

lemma historyFits_suffix: "historyFits gid sid (pre @ cs) ms \<Longrightarrow> historyFits gid sid cs ms"
  by (simp add: historyFits_def)

locale delivery =
  fifo_source inv chunks streamID read ackThrough + acking_adapter send holds published ok
  for inv :: "'s \<Rightarrow> bool" and chunks :: "'s \<Rightarrow> chunk list" and streamID :: "'s \<Rightarrow> string"
    and read :: "'io \<Rightarrow> int \<Rightarrow> 's \<Rightarrow> (queue_err + chunk list) \<times> 's"
    and ackThrough :: "'io \<Rightarrow> int \<Rightarrow> 's \<Rightarrow> queue_err option \<times> 's"
    and send :: "'w sender" and holds :: "'w \<Rightarrow> string \<Rightarrow> string \<Rightarrow> int \<Rightarrow> bool"
    and published :: "'w \<Rightarrow> message set" and ok :: "'w \<Rightarrow> bool"
begin

lemma dispatch_delivers:
  assumes inv: "inv (f_src f)" and ok: "ok (f_world f)"
    and fits: "historyFits (fc_GatewayID cfg) (streamID (f_src f)) (chunks (f_src f)) (published (f_world f))"
    and d: "dispatchOnce streamID read ackThrough send cfg io now f = ((sent, err), f')"
  shows "ok (f_world f') \<and>
    historyFits (fc_GatewayID cfg) (streamID (f_src f)) (chunks (f_src f')) (published (f_world f')) \<and>
    (\<exists>pre. chunks (f_src f) = pre @ chunks (f_src f') \<and>
      (\<forall>c \<in> set pre. holds (f_world f') (fc_GatewayID cfg) (streamID (f_src f)) (ck_Seq c))) \<and>
    (\<forall>g sid q. holds (f_world f) g sid q \<longrightarrow> holds (f_world f') g sid q)"
proof -
  let ?gid = "fc_GatewayID cfg" and ?sid = "streamID (f_src f)"
  note c = dispatch_cases [OF inv d]
  consider (idle) "\<not> sent" "chunks (f_src f') = chunks (f_src f)" "f_world f' = f_world f"
    | (tried) cs rest r where "cs \<noteq> []" "chunks (f_src f) = cs @ rest"
        "send (buildMessage ?gid ?sid cs) (f_world f) = (r, f_world f')"
        "sent \<longrightarrow> chunks (f_src f') = rest \<and> r = None" "\<not> sent \<longrightarrow> chunks (f_src f') = cs @ rest"
    using c by (cases sent) auto
  then show ?thesis
  proof cases
    case idle
    then show ?thesis using fits ok by (intro conjI exI [of _ "[]"]) auto
  next
    case tried
    note s = tried(3)
    have srt: "sorted_wrt (<) (map ck_Seq (cs @ rest))" using seq_sorted [OF inv] tried(2) by simp
    have fits': "historyFits ?gid ?sid (cs @ rest) (published (f_world f))" using fits tried(2) by simp
    have grown: "historyFits ?gid ?sid (cs @ rest) (published (f_world f'))"
      by (rule historyFits_grows [OF fits' tried(1) srt published_grows [OF s]])
    have held: "holds (f_world f') ?gid ?sid (ck_Seq c)" if "sent" "c \<in> set cs" for c
    proof -
      have r: "r = None" using tried(4) that by simp
      have "holds (f_world f') (m_GatewayID (buildMessage ?gid ?sid cs)) (m_StreamID (buildMessage ?gid ?sid cs))
          (wc_Seq (wireChunkOf c))"
        by (rule ack_stored [OF ok _ s [unfolded r]])
          (use historyFits_covers [OF fits' tried(1) srt] that in \<open>auto simp: buildMessage_def\<close>)
      then show ?thesis by (simp add: buildMessage_def wireChunkOf_def)
    qed
    show ?thesis
    proof (cases sent)
      case True
      then show ?thesis using tried held grown stays_ok [OF ok s] keeps [OF ok s] historyFits_suffix [of ?gid ?sid cs rest]
        by (intro conjI exI [of _ cs]) auto
    next
      case False
      then show ?thesis using tried grown stays_ok [OF ok s] keeps [OF ok s]
        by (intro conjI exI [of _ "[]"]) auto
    qed
  qed
qed

lemma loop_delivers:
  assumes "inv (f_src f)" "ok (f_world f)"
    and "historyFits (fc_GatewayID cfg) (streamID (f_src f)) (chunks (f_src f)) (published (f_world f))"
    and "runLoop streamID read ackThrough send cfg es (failures, f) = (failures', f')"
  shows "inv (f_src f') \<and> ok (f_world f') \<and> streamID (f_src f') = streamID (f_src f) \<and>
    historyFits (fc_GatewayID cfg) (streamID (f_src f)) (chunks (f_src f')) (published (f_world f')) \<and>
    (\<exists>pre. chunks (f_src f) = pre @ chunks (f_src f') \<and>
      (\<forall>c \<in> set pre. holds (f_world f') (fc_GatewayID cfg) (streamID (f_src f)) (ck_Seq c))) \<and>
    (\<forall>g sid q. holds (f_world f) g sid q \<longrightarrow> holds (f_world f') g sid q)"
  using assms
proof (induction es arbitrary: f failures)
  case Nil
  then show ?case by simp
next
  case (Cons x es)
  obtain io now where x: "x = (io, now)" by fastforce
  obtain sent err f1 where d: "dispatchOnce streamID read ackThrough send cfg io now f = ((sent, err), f1)"
    by (metis surj_pair)
  obtain n where n: "runLoop streamID read ackThrough send cfg es (n, f1) = (failures', f')"
    using Cons.prems(4) d by (cases err; cases sent) (auto simp: x runIteration_def)
  have i: "inv (f_src f1)" "streamID (f_src f1) = streamID (f_src f)"
    using dispatch_cases [OF Cons.prems(1) d] by blast+
  note one = dispatch_delivers [OF Cons.prems(1-3) d]
  then obtain p1 where p1: "chunks (f_src f) = p1 @ chunks (f_src f1)"
    "\<forall>c \<in> set p1. holds (f_world f1) (fc_GatewayID cfg) (streamID (f_src f)) (ck_Seq c)" by blast
  have ih: "inv (f_src f') \<and> ok (f_world f') \<and> streamID (f_src f') = streamID (f_src f1) \<and>
    historyFits (fc_GatewayID cfg) (streamID (f_src f1)) (chunks (f_src f')) (published (f_world f')) \<and>
    (\<exists>pre. chunks (f_src f1) = pre @ chunks (f_src f') \<and>
      (\<forall>c \<in> set pre. holds (f_world f') (fc_GatewayID cfg) (streamID (f_src f1)) (ck_Seq c))) \<and>
    (\<forall>g sid q. holds (f_world f1) g sid q \<longrightarrow> holds (f_world f') g sid q)"
    by (rule Cons.IH [OF i(1) _ _ n]) (use one i in auto)
  then obtain p2 where p2: "chunks (f_src f1) = p2 @ chunks (f_src f')"
    "\<forall>c \<in> set p2. holds (f_world f') (fc_GatewayID cfg) (streamID (f_src f1)) (ck_Seq c)" by blast
  have "\<forall>c \<in> set (p1 @ p2). holds (f_world f') (fc_GatewayID cfg) (streamID (f_src f)) (ck_Seq c)"
    using p1(2) p2(2) ih i(2) by auto
  with p1 p2 ih i(2) one show ?case by (intro conjI exI [of _ "p1 @ p2"]) auto
qed

end

interpretation http_delivery: delivery storeInv "chunksOf inflate" st_streamID "sourceRead inflate" sourceAck
    "httpSend serverPost" serverHolds "\<lambda>_. {}" "\<lambda>_. True"
  for inflate
  by unfold_locales

text \<open>
  C3: end-to-end delivery over HTTP. Run the forwarding loop of the gateway's queue against the
  demo server for any number of iterations, with database calls failing, requests and replies lost,
  the server refusing, or its settings changing at any point. The chunks that have left the queue are
  a prefix of what was pending, the server has stored each of them under the gateway's id and the
  queue's stream id, and it still holds everything it held before: nothing is lost on the way.
\<close>

theorem http_delivery_loses_nothing:
  assumes "storeInv (f_src f)"
    and "runLoop st_streamID (sourceRead inflate) sourceAck (httpSend serverPost) cfg es (failures, f) = (failures', f')"
  shows "storeInv (f_src f') \<and>
    (\<exists>pre. chunksOf inflate (f_src f) = pre @ chunksOf inflate (f_src f') \<and>
      (\<forall>c \<in> set pre. serverHolds (f_world f') (fc_GatewayID cfg) (st_streamID (f_src f)) (ck_Seq c))) \<and>
    (\<forall>g sid q. serverHolds (f_world f) g sid q \<longrightarrow> serverHolds (f_world f') g sid q)"
  using http_delivery.loop_delivers [OF assms(1) _ _ assms(2)]
  by (simp add: historyFits_def)

definition openSettings :: srvSettings where
  "openSettings = \<lparr>set_FaultMode = faultNone, set_AckDelayMs = 0, set_RejectUnknownGateways = False, set_Gateways = [],
     set_Datapoints = [], set_BrokerURL = [], set_DataTopic = ''gateway/+/data'', set_Bucket = ''data'',
     set_RetentionDays = 0\<rparr>"

definition sampleWorld :: srvWorld where
  "sampleWorld = \<lparr>sw_store = newStore False, sw_cfg = (\<lambda>_. openSettings),
     sw_net = (\<lambda>_. \<lparr>ne_request = True, ne_reply = True, ne_writeOk = True, ne_now = 0\<rparr>), sw_count = 0\<rparr>"

definition sampleDelivery :: "(store, srvWorld) forwarder" where
  "sampleDelivery = \<lparr>f_src = snd (flush storedDeflate True sampleStore), f_world = sampleWorld,
     f_status = \<lparr>fs_Connected = False, fs_LastError = [], fs_LastSuccessAt = None, fs_LastAttemptAt = None\<rparr>\<rparr>"

theorem http_delivery_loses_nothing_witness:
  "let f' = snd (runLoop st_streamID (sourceRead storedInflate) sourceAck (httpSend serverPost) sampleConfig
       [(okIO, 5), (okIO, 6)] (0, sampleDelivery)) in
   \<exists>pre. chunksOf storedInflate (f_src sampleDelivery) = pre @ chunksOf storedInflate (f_src f') \<and>
     (\<forall>c \<in> set pre. serverHolds (f_world f') (fc_GatewayID sampleConfig) (st_streamID (f_src sampleDelivery)) (ck_Seq c))"
proof -
  have i: "storeInv (f_src sampleDelivery)"
    using flushed_sample(1) by (simp add: sampleDelivery_def)
  obtain n f' where r: "runLoop st_streamID (sourceRead storedInflate) sourceAck (httpSend serverPost) sampleConfig
       [(okIO, 5), (okIO, 6)] (0, sampleDelivery) = (n, f')" by fastforce
  from http_delivery_loses_nothing [OF i r] show ?thesis unfolding r Let_def snd_conv by blast
qed

end
