(* ===== verification/Modbus.thy ===== *)
theory Modbus
  imports GoFloat "HOL-Library.Multiset"
begin

text \<open>
  The Modbus layer, \<^verbatim>\<open>src/internal/modbus\<close>: register decoding
  (\<^verbatim>\<open>decode.go\<close>), the classification of errors into qualities (\<^verbatim>\<open>quality.go\<close>),
  and the client interface with its retry loop (\<^verbatim>\<open>client.go\<close>, \<^verbatim>\<open>tcp.go\<close>).

  A client is a record of operations over a transport state, the arguments that stand for the
  goburrow library. Decoded values are the 64-bit patterns of \<^theory_text>\<open>GoFloat\<close>.
  The results: integer registers decode to exactly their two's complement value, \<^verbatim>\<open>FLOAT32\<close>
  and \<^verbatim>\<open>FLOAT64\<close> to the value of their pattern; a byte order only permutes the bytes; an
  error is never classified as \<^verbatim>\<open>GOOD\<close>; the retry loop makes at most one attempt more
  than it is told and reconnects before every attempt but the first.
\<close>

section \<open>Data types\<close>

type_synonym datatype_name = string

datatype decode_err =
    UnknownDataType string
  | WidthMismatch nat string nat
  | OrderWidth string nat
  | OrderChar char string

definition byteWidth :: "datatype_name \<Rightarrow> decode_err + nat" where
  "byteWidth d =
     (if d = ''INT16'' \<or> d = ''UINT16'' then Inr 2
      else if d = ''INT32'' \<or> d = ''UINT32'' \<or> d = ''FLOAT32'' then Inr 4
      else if d = ''FLOAT64'' then Inr 8
      else Inl (UnknownDataType d))"

definition registerCount :: "datatype_name \<Rightarrow> decode_err + uint16" where
  "registerCount d =
     (case byteWidth d of Inl e \<Rightarrow> Inl e | Inr width \<Rightarrow> Inr (word_of_nat (width div 2)))"

section \<open>Byte order\<close>

definition orderPos :: "char \<Rightarrow> int" where
  "orderPos c = int (of_char c) - int (of_char (CHR ''A''))"

fun reorderLoop :: "byte list \<Rightarrow> string \<Rightarrow> string \<Rightarrow> decode_err + byte list" where
  "reorderLoop raw order [] = Inr []"
| "reorderLoop raw order (c # cs) =
     (let pos = orderPos c in
      if pos < 0 \<or> pos \<ge> int (length raw) then Inl (OrderChar c order)
      else (case reorderLoop raw order cs of
              Inl e \<Rightarrow> Inl e
            | Inr out \<Rightarrow> Inr (raw ! nat pos # out)))"

definition reorder :: "byte list \<Rightarrow> string \<Rightarrow> decode_err + byte list" where
  "reorder raw order =
     (if order = '''' then Inr raw
      else if length order \<noteq> length raw then Inl (OrderWidth order (length raw))
      else reorderLoop raw order order)"

section \<open>Decoding\<close>

definition be :: "byte list \<Rightarrow> uint64" where
  "be bs = foldl (\<lambda>v x. push_bit 8 v OR ucast x) 0 bs"

definition decode :: "byte list \<Rightarrow> datatype_name \<Rightarrow> string \<Rightarrow> decode_err + float64" where
  "decode raw dt byteOrder =
     (case byteWidth dt of
        Inl e \<Rightarrow> Inl e
      | Inr width \<Rightarrow>
          (if length raw \<noteq> width then Inl (WidthMismatch width dt (length raw))
           else (case reorder raw byteOrder of
                   Inl e \<Rightarrow> Inl e
                 | Inr ordered \<Rightarrow>
                     (if dt = ''INT16'' then Inr (f64_of_int (sint (ucast (be ordered) :: 16 word)))
                      else if dt = ''UINT16'' then Inr (f64_of_int (uint (ucast (be ordered) :: 16 word)))
                      else if dt = ''INT32'' then Inr (f64_of_int (sint (ucast (be ordered) :: 32 word)))
                      else if dt = ''UINT32'' then Inr (f64_of_int (uint (ucast (be ordered) :: 32 word)))
                      else if dt = ''FLOAT32'' then Inr (f64_of_f32 (ucast (be ordered)))
                      else if dt = ''FLOAT64'' then Inr (be ordered)
                      else Inl (UnknownDataType dt)))))"

definition applyScale :: "float64 \<Rightarrow> float64 \<Rightarrow> float64 \<Rightarrow> float64" where
  "applyScale raw scale offset = f64_add (f64_mul raw scale) offset"

lemma applyScale_not_finite: "\<not> f64_finite v \<Longrightarrow> \<not> f64_finite (applyScale v scale offset)"
  unfolding applyScale_def by (intro f64_add_not_finite f64_mul_not_finite)

section \<open>Quality\<close>

text \<open>
  A Go error as \<^verbatim>\<open>QualityFromError\<close> looks at it: whether it wraps a
  \<^verbatim>\<open>net.Error\<close> whose \<^verbatim>\<open>Timeout()\<close> is true, \<^verbatim>\<open>net.ErrClosed\<close> or a
  \<^verbatim>\<open>*net.DNSError\<close>, and its message.
\<close>

record go_error =
  ge_timeout :: bool
  ge_closed :: bool
  ge_dns :: bool
  ge_msg :: string

datatype quality = Good | Timeout | CRCError | DeviceOffline | Invalid

definition qualityString :: "quality \<Rightarrow> string" where
  "qualityString q =
     (case q of Good \<Rightarrow> ''GOOD'' | Timeout \<Rightarrow> ''TIMEOUT'' | CRCError \<Rightarrow> ''CRC_ERROR''
      | DeviceOffline \<Rightarrow> ''DEVICE_OFFLINE'' | Invalid \<Rightarrow> ''INVALID'')"

definition lowerChar :: "char \<Rightarrow> char" where
  "lowerChar c = (let n = of_char c :: nat in if 65 \<le> n \<and> n \<le> 90 then char_of (n + 32) else c)"

definition toLower :: "string \<Rightarrow> string" where
  "toLower = map lowerChar"

fun hasPrefix :: "string \<Rightarrow> string \<Rightarrow> bool" where
  "hasPrefix [] s = True"
| "hasPrefix (p # ps) [] = False"
| "hasPrefix (p # ps) (c # s) = (p = c \<and> hasPrefix ps s)"

fun contains :: "string \<Rightarrow> string \<Rightarrow> bool" where
  "contains pat [] = hasPrefix pat []"
| "contains pat (c # s) = (hasPrefix pat (c # s) \<or> contains pat s)"

definition offlinePhrases :: "string list" where
  "offlinePhrases =
     [''connection refused'', ''actively refused'', ''no route to host'', ''host unreachable'',
      ''network unreachable'', ''broken pipe'', ''connection reset'', ''forcibly closed'',
      ''device or resource busy'', ''no such device'', ''cannot find the file specified'']"

definition qualityFromError :: "go_error option \<Rightarrow> quality" where
  "qualityFromError err =
     (case err of
        None \<Rightarrow> Good
      | Some e \<Rightarrow>
          (if ge_timeout e then Timeout
           else if ge_closed e then DeviceOffline
           else if ge_dns e then DeviceOffline
           else let msg = toLower (ge_msg e) in
             if contains ''crc'' msg then CRCError
             else if list_ex (\<lambda>p. contains p msg) offlinePhrases then DeviceOffline
             else Invalid))"

section \<open>Clients and retries\<close>

datatype functionCode = FuncReadCoils | FuncReadDiscreteInputs | FuncReadHoldingRegisters
  | FuncReadInputRegisters | OtherFunc byte

definition functionCodeOf :: "byte \<Rightarrow> functionCode" where
  "functionCodeOf b =
     (if b = 1 then FuncReadCoils else if b = 2 then FuncReadDiscreteInputs
      else if b = 3 then FuncReadHoldingRegisters else if b = 4 then FuncReadInputRegisters
      else OtherFunc b)"

record 's modbus_client =
  cl_Connect :: "'s \<Rightarrow> go_error option \<times> 's"
  cl_Close :: "'s \<Rightarrow> 's"
  cl_SetUnitID :: "byte \<Rightarrow> 's \<Rightarrow> 's"
  cl_Read :: "functionCode \<Rightarrow> uint16 \<Rightarrow> uint16 \<Rightarrow> 's \<Rightarrow> (go_error + byte list) \<times> 's"

text \<open>The read operations of the goburrow client, and the dispatch over them in \<^verbatim>\<open>tcp.go\<close>.\<close>

record 's goburrow =
  gb_ReadCoils :: "uint16 \<Rightarrow> uint16 \<Rightarrow> 's \<Rightarrow> (go_error + byte list) \<times> 's"
  gb_ReadDiscreteInputs :: "uint16 \<Rightarrow> uint16 \<Rightarrow> 's \<Rightarrow> (go_error + byte list) \<times> 's"
  gb_ReadHoldingRegisters :: "uint16 \<Rightarrow> uint16 \<Rightarrow> 's \<Rightarrow> (go_error + byte list) \<times> 's"
  gb_ReadInputRegisters :: "uint16 \<Rightarrow> uint16 \<Rightarrow> 's \<Rightarrow> (go_error + byte list) \<times> 's"

definition plainError :: "string \<Rightarrow> go_error" where
  "plainError m = \<lparr>ge_timeout = False, ge_closed = False, ge_dns = False, ge_msg = m\<rparr>"

definition readFunc ::
  "'s goburrow \<Rightarrow> functionCode \<Rightarrow> uint16 \<Rightarrow> uint16 \<Rightarrow> 's \<Rightarrow> (go_error + byte list) \<times> 's" where
  "readFunc c fc address quantity s =
     (case fc of
        FuncReadCoils \<Rightarrow> gb_ReadCoils c address quantity s
      | FuncReadDiscreteInputs \<Rightarrow> gb_ReadDiscreteInputs c address quantity s
      | FuncReadHoldingRegisters \<Rightarrow> gb_ReadHoldingRegisters c address quantity s
      | FuncReadInputRegisters \<Rightarrow> gb_ReadInputRegisters c address quantity s
      | OtherFunc b \<Rightarrow> (Inl (plainError ''modbus: unsupported function code''), s))"

text \<open>
  \<^verbatim>\<open>ReadWithRetry\<close>: \<open>k\<close> counts the attempts still allowed, \<open>attempt\<close> those
  made, and \<open>ctxErr\<close> is the context's error after the given attempt, if it is done by then.
  The result is the bytes or the error, the number of attempts and the transport's state.
\<close>

fun retryLoop :: "'s modbus_client \<Rightarrow> (nat \<Rightarrow> go_error option) \<Rightarrow> functionCode \<Rightarrow> uint16 \<Rightarrow> uint16 \<Rightarrow>
    nat \<Rightarrow> nat \<Rightarrow> nat \<Rightarrow> go_error option \<Rightarrow> 's \<Rightarrow> (go_error option + byte list) \<times> nat \<times> 's" where
  "retryLoop c ctxErr fc a q 0 attempt attempts lastErr s = (Inl lastErr, attempts, s)"
| "retryLoop c ctxErr fc a q (Suc k) attempt attempts lastErr s =
     (let attempts = attempt + 1;
          (connErr, s) =
            (if attempt > 0 then cl_Connect c (cl_Close c s) else (None, s))
      in case connErr of
           Some e \<Rightarrow> retryLoop c ctxErr fc a q k (Suc attempt) attempts (Some e) s
         | None \<Rightarrow>
             (case cl_Read c fc a q s of
                (Inr raw, s) \<Rightarrow> (Inr raw, attempts, s)
              | (Inl e, s) \<Rightarrow>
                  (case ctxErr attempt of
                     Some ce \<Rightarrow> (Inl (Some ce), attempts, s)
                   | None \<Rightarrow> retryLoop c ctxErr fc a q k (Suc attempt) attempts (Some e) s)))"

definition readWithRetry :: "'s modbus_client \<Rightarrow> (nat \<Rightarrow> go_error option) \<Rightarrow> functionCode \<Rightarrow> uint16 \<Rightarrow>
    uint16 \<Rightarrow> int \<Rightarrow> 's \<Rightarrow> (go_error option + byte list) \<times> nat \<times> 's" where
  "readWithRetry c ctxErr fc a q maxRetries s =
     retryLoop c ctxErr fc a q (nat (maxRetries + 1)) 0 0 None s"

section \<open>Byte order is a permutation\<close>

lemma reorderLoop_Inr:
  "reorderLoop raw order cs = Inr out \<longleftrightarrow>
     list_all (\<lambda>c. 0 \<le> orderPos c \<and> orderPos c < int (length raw)) cs \<and>
     out = map (\<lambda>c. raw ! nat (orderPos c)) cs"
proof (induction cs arbitrary: out)
  case (Cons c cs)
  show ?case
  proof (cases "reorderLoop raw order cs")
    case (Inl e)
    with Cons.IH [of "map (\<lambda>c. raw ! nat (orderPos c)) cs"] show ?thesis by (simp add: Let_def)
  next
    case (Inr os)
    with Cons.IH [of os] show ?thesis by (auto simp: Let_def)
  qed
qed auto

lemma orderPos_inj: "orderPos c = orderPos d \<longleftrightarrow> c = d"
  by (simp add: orderPos_def)

lemma reorder_length: "reorder raw order = Inr out \<Longrightarrow> length out = length raw"
  by (auto simp: reorder_def reorderLoop_Inr split: if_splits)

lemma reorder_mset:
  assumes "reorder raw order = Inr out" and "distinct order"
  shows "mset out = mset raw"
proof (cases "order = ''''")
  case True
  with assms(1) show ?thesis by (simp add: reorder_def)
next
  case False
  let ?is = "map (\<lambda>c. nat (orderPos c)) order"
  from assms(1) False have len: "length order = length raw"
    and pos: "\<And>c. c \<in> set order \<Longrightarrow> 0 \<le> orderPos c \<and> orderPos c < int (length raw)"
    and out: "out = map ((!) raw) ?is"
    by (auto simp: reorder_def reorderLoop_Inr list_all_iff split: if_splits)
  have "distinct ?is"
    using assms(2) pos by (auto simp: distinct_map inj_on_def orderPos_inj eq_nat_nat_iff)
  moreover have sub: "set ?is \<subseteq> {..<length raw}" using pos by (auto simp: nat_less_iff)
  moreover have "card (set ?is) = length raw"
    using distinct_card [OF \<open>distinct ?is\<close>] len by (simp only: length_map)
  ultimately have "set ?is = set [0..<length raw]"
    by (metis card_lessThan card_subset_eq finite_lessThan atLeast_upt)
  with \<open>distinct ?is\<close> have "mset ?is = mset [0..<length raw]"
    using set_eq_iff_mset_eq_distinct [of ?is "[0..<length raw]"] by (simp only: distinct_upt)
  then have "mset (map ((!) raw) ?is) = mset (map ((!) raw) [0..<length raw])"
    by (metis mset_map)
  then show ?thesis by (simp add: out map_nth)
qed

section \<open>Decoded values\<close>

text \<open>The big-endian natural number of a byte list, and its two's complement reading.\<close>

definition beNat :: "byte list \<Rightarrow> nat" where
  "beNat bs = foldl (\<lambda>n b. 256 * n + unat b) 0 bs"

definition twosComplement :: "nat \<Rightarrow> nat \<Rightarrow> int" where
  "twosComplement n v = (if v < 2 ^ (n - 1) then int v else int v - 2 ^ n)"

lemma foldl_beNat_less:
  "n < 256 ^ j \<Longrightarrow> foldl (\<lambda>n b. 256 * n + unat b) n bs < 256 ^ (j + length bs)"
  for bs :: "byte list"
proof (induction bs arbitrary: n j)
  case (Cons b bs)
  have "unat b < 256" using unsigned_less [of b] by simp
  then have "256 * n + unat b < 256 ^ Suc j" using Cons.prems by simp
  from Cons.IH [OF this] show ?case by simp
qed simp

lemma beNat_less: "beNat bs < 256 ^ length bs"
  using foldl_beNat_less [of 0 0 bs] by (simp add: beNat_def)

lemma unat_shift_or:
  assumes "unat v < 2 ^ 56"
  shows "unat (push_bit 8 v OR ucast (b :: byte) :: uint64) = 256 * unat v + unat b"
proof -
  have dis: "\<not> bit (push_bit 8 v) n \<or> \<not> bit (ucast b :: uint64) n" for n
    by (auto simp: bit_push_bit_iff bit_ucast_iff dest: bit_imp_le_length)
  have p: "unat (push_bit 8 v) = 256 * unat v"
    using assms by (simp add: unat_word_ariths push_bit_eq_mult)
  have lt: "unat b < 256" using unsigned_less [of b] by simp
  then have b: "unat (ucast b :: uint64) = unat b"
    by (simp add: unsigned_ucast_eq take_bit_nat_eq_self)
  from lt have "unat (push_bit 8 v + ucast b :: uint64) = 256 * unat v + unat b"
    using assms unfolding unat_word_ariths p b by simp
  then show ?thesis using disjunctive_add [OF dis] by simp
qed

lemma unat_be:
  assumes "length bs \<le> 8"
  shows "unat (be bs) = beNat bs"
proof -
  have "unat (foldl (\<lambda>v x. push_bit 8 v OR ucast x) v bs) = foldl (\<lambda>n b. 256 * n + unat b) (unat v) bs"
    if "unat v < 256 ^ j" "j + length bs \<le> 8" for v :: uint64 and j
    using that
  proof (induction bs arbitrary: v j)
    case (Cons b bs)
    have "(256 :: nat) ^ j \<le> 256 ^ 7" using Cons.prems(2) by (intro power_increasing) auto
    then have v: "unat v < 2 ^ 56" using Cons.prems(1) by simp
    have "unat b < 256" using unsigned_less [of b] by simp
    then have "unat (push_bit 8 v OR ucast b) < 256 ^ Suc j"
      using Cons.prems(1) unat_shift_or [OF v, of b] by simp
    with Cons.prems Cons.IH [of "push_bit 8 v OR ucast b" "Suc j"] show ?case
      by (simp add: unat_shift_or [OF v])
  qed simp
  from this [of 0 0] show ?thesis using assms by (simp add: be_def beNat_def)
qed

lemma uint_ucast_be:
  assumes "length bs \<le> 8" and "beNat bs < 2 ^ LENGTH('a)"
  shows "uint (ucast (be bs) :: 'a::len word) = int (beNat bs)"
proof -
  have "uint (be bs) = int (beNat bs)" using unat_be [OF assms(1)] by (metis of_nat_unat)
  with assms(2) show ?thesis by (simp add: unsigned_ucast_eq take_bit_int_eq_self)
qed

lemma int_div_less: "a < b * c \<Longrightarrow> a div b < c" if "0 < b" for a b c :: int
  using that by (metis div_mult_mod_eq linorder_not_less mult.commute mult_left_mono
      order_less_le_trans order_less_imp_le pos_mod_sign add_increasing2 order_less_irrefl)

lemma odd_bit: "k < 2 \<Longrightarrow> 0 \<le> k \<Longrightarrow> odd k \<longleftrightarrow> k \<noteq> 0" for k :: int
  by presburger

lemma sint_twosComplement:
  "sint (w :: 'a::len word) = twosComplement LENGTH('a) (unat w)"
proof -
  let ?n = "LENGTH('a) - 1"
  have s: "Suc ?n = LENGTH('a)" by simp
  have u: "uint w < 2 ^ LENGTH('a)" by (rule unsigned_less)
  have "sint w = signed_take_bit ?n (uint w)" by (simp add: sint_uint)
  also have "\<dots> = uint w - 2 ^ LENGTH('a) * of_bool (bit (uint w) ?n)"
    using u unfolding signed_take_bit_eq_take_bit_minus s by (simp add: take_bit_int_eq_self)
  also have "bit (uint w) ?n \<longleftrightarrow> \<not> uint w < 2 ^ ?n"
  proof -
    have "uint w < 2 ^ ?n * 2" using u s by (metis power_Suc2)
    then have "uint w div 2 ^ ?n < 2" by (intro int_div_less) simp
    moreover have "0 \<le> uint w div 2 ^ ?n" by (simp add: pos_imp_zdiv_nonneg_iff)
    ultimately have "odd (uint w div 2 ^ ?n) \<longleftrightarrow> uint w div 2 ^ ?n \<noteq> 0" by (rule odd_bit)
    also have "\<dots> \<longleftrightarrow> \<not> uint w < 2 ^ ?n" by (simp add: zdiv_eq_0_iff not_less)
    finally show ?thesis by (simp add: bit_iff_odd)
  qed
  also have "uint w = int (unat w)" by simp
  finally show ?thesis
    unfolding twosComplement_def of_nat_less_numeral_power_cancel_iff by (simp del: of_nat_unat)
qed

lemma decode_Inr:
  "decode raw dt order = Inr v \<Longrightarrow>
     \<exists>width ordered. byteWidth dt = Inr width \<and> length raw = width \<and> reorder raw order = Inr ordered \<and>
       length ordered = width"
  by (auto simp: decode_def reorder_length split: sum.splits if_splits)

lemma retryLoop_attempts:
  assumes "retryLoop c ctxErr fc a q k attempt attempts lastErr s = (res, n, s')"
    and "attempts = attempt"
  shows "attempt \<le> n \<and> n \<le> attempt + k \<and> (0 < k \<longrightarrow> attempt < n)"
  using assms
proof (induction k arbitrary: attempt attempts lastErr s)
  case (Suc k)
  then show ?case
    by (fastforce simp: Let_def split: prod.splits option.splits sum.splits if_splits)
qed simp

lemma retryLoop_no_error:
  assumes "retryLoop c ctxErr fc a q k attempt attempts lastErr s = (Inl None, n, s')"
  shows "k = 0 \<and> lastErr = None"
  using assms
proof (induction k arbitrary: attempt attempts lastErr s)
  case (Suc k)
  then show ?case
    by (fastforce simp: Let_def split: prod.splits option.splits sum.splits if_splits)
qed simp

lemma unat_ucast_be:
  assumes "length bs \<le> 8" and "256 ^ length bs \<le> (2 :: nat) ^ LENGTH('a)"
  shows "unat (ucast (be bs) :: 'a::len word) = beNat bs"
proof -
  have "beNat bs < 2 ^ LENGTH('a)" using beNat_less [of bs] assms(2) by simp
  from uint_ucast_be [OF assms(1) this] show ?thesis by (metis nat_int of_nat_unat)
qed

lemma sint_ucast_be:
  assumes "length bs \<le> 8" and "256 ^ length bs \<le> (2 :: nat) ^ LENGTH('a)"
  shows "sint (ucast (be bs) :: 'a::len word) = twosComplement LENGTH('a) (beNat bs)"
  by (simp only: sint_twosComplement unat_ucast_be [OF assms])

lemma twosComplement_abs:
  assumes "v < 2 ^ n" "0 < n" "n \<le> 53"
  shows "\<bar>twosComplement n v\<bar> < 2 ^ 53"
proof -
  have v: "int v < 2 ^ n" using assms(1) by simp
  have n: "(2 :: int) ^ n \<le> 2 ^ 53" by (rule power_increasing) (use assms(3) in auto)
  have "int v < 2 ^ 53" using v n by (rule less_le_trans)
  moreover have "\<bar>int v - 2 ^ n\<bar> < 2 ^ 53" if "\<not> v < 2 ^ (n - 1)"
  proof -
    have "0 < int v" using that by (metis gr0I of_nat_0_less_iff zero_less_numeral zero_less_power)
    with v n show ?thesis by linarith
  qed
  ultimately show ?thesis unfolding twosComplement_def by auto
qed

section \<open>Properties\<close>

text \<open>The integer a register type stands for, given its bytes in big-endian order.\<close>

definition integerValue :: "datatype_name \<Rightarrow> byte list \<Rightarrow> int" where
  "integerValue dt bs =
     (if dt = ''INT16'' then twosComplement 16 (beNat bs)
      else if dt = ''INT32'' then twosComplement 32 (beNat bs)
      else int (beNat bs))"

lemma integer_decode:
  assumes "dt \<in> {''INT16'', ''UINT16'', ''INT32'', ''UINT32''}"
    and "byteWidth dt = Inr (length raw)" and "reorder raw order = Inr bs"
  shows "decode raw dt order = Inr (f64_of_int (integerValue dt bs))"
    and "\<bar>integerValue dt bs\<bar> < 2 ^ 53"
proof -
  have len: "length bs = length raw" using assms(3) by (rule reorder_length)
  have "length bs = 2 \<or> length bs = 4" "dt = ''INT16'' \<or> dt = ''UINT16'' \<Longrightarrow> length bs = 2"
    using assms(1,2) by (auto simp: len byteWidth_def split: if_splits)
  moreover have "beNat bs < 256 ^ length bs" by (rule beNat_less)
  ultimately have b: "length bs \<le> 8" "256 ^ length bs \<le> (2 :: nat) ^ LENGTH(32)"
    "beNat bs < 2 ^ 32" "beNat bs < 2 ^ 16 \<and> 256 ^ length bs \<le> (2 :: nat) ^ LENGTH(16)
      \<or> dt \<noteq> ''INT16'' \<and> dt \<noteq> ''UINT16''" by auto
  have dec: "decode raw dt order =
    (if dt = ''INT16'' then Inr (f64_of_int (sint (ucast (be bs) :: 16 word)))
     else if dt = ''UINT16'' then Inr (f64_of_int (uint (ucast (be bs) :: 16 word)))
     else if dt = ''INT32'' then Inr (f64_of_int (sint (ucast (be bs) :: 32 word)))
     else Inr (f64_of_int (uint (ucast (be bs) :: 32 word))))"
    using assms by (auto simp: decode_def)
  show "decode raw dt order = Inr (f64_of_int (integerValue dt bs))"
    unfolding dec integerValue_def using b assms(1)
    by (auto simp: sint_ucast_be uint_ucast_be)
  show "\<bar>integerValue dt bs\<bar> < 2 ^ 53"
    using b twosComplement_abs [of "beNat bs" 16] twosComplement_abs [of "beNat bs" 32]
    by (auto simp: integerValue_def)
qed

text \<open>
  C26: integer registers decode exactly. For each of the four integer register types, with the
  register bytes the type asks for and an acceptable byte order, \<^verbatim>\<open>Decode\<close> succeeds and the
  double it returns has exactly the (two's complement or unsigned) integer value of the reordered
  bytes: no precision is lost in the conversion to \<^verbatim>\<open>float64\<close>.
\<close>

theorem decode_integer_exact:
  assumes "dt \<in> {''INT16'', ''UINT16'', ''INT32'', ''UINT32''}"
    and "byteWidth dt = Inr (length raw)" and "reorder raw order = Inr bs"
  shows "\<exists>v. decode raw dt order = Inr v \<and> f64_finite v \<and>
    f64_real v = real_of_int (integerValue dt bs)"
  using integer_decode [OF assms] f64_of_int_exact [of "integerValue dt bs"] by blast

theorem decode_integer_exact_witness:
  "\<exists>v. decode [0xFE, 0xFF, 0xFF, 0xFF] ''INT32'' ''DCBA'' = Inr v \<and> f64_finite v \<and> f64_real v = - 2"
proof -
  have r: "reorder [0xFE, 0xFF, 0xFF, 0xFF :: byte] ''DCBA'' = Inr [0xFF, 0xFF, 0xFF, 0xFE]"
    by (simp add: reorder_def orderPos_def of_char_def)
  have "integerValue ''INT32'' [0xFF, 0xFF, 0xFF, 0xFE] = - 2"
    by (simp add: integerValue_def twosComplement_def beNat_def)
  with decode_integer_exact [OF _ _ r, of "''INT32''"] show ?thesis by (simp add: byteWidth_def)
qed

text \<open>
  Float registers. With four bytes and an acceptable order, \<^verbatim>\<open>FLOAT32\<close> decodes to
  a double of exactly the value of the single-precision pattern whenever that pattern is finite;
  with eight, \<^verbatim>\<open>FLOAT64\<close> decodes to the bit pattern itself.
\<close>

theorem decode_float_exact:
  assumes "reorder raw order = Inr bs"
  shows "(length raw = 4 \<and> f32_finite (ucast (be bs)) \<longrightarrow>
      (\<exists>v. decode raw ''FLOAT32'' order = Inr v \<and> f64_finite v \<and> f64_real v = f32_real (ucast (be bs)))) \<and>
    (length raw = 8 \<longrightarrow>
      (\<exists>v. decode raw ''FLOAT64'' order = Inr v \<and> unat v = beNat bs))"
  using assms f64_of_f32_exact [of "ucast (be bs)"] reorder_length [OF assms] unat_be [of bs]
  by (auto simp: decode_def byteWidth_def)

text \<open>The bytes of 21.5 as a single, word-swapped: \<^verbatim>\<open>CDAB\<close>.\<close>

theorem decode_float_exact_witness:
  "(\<exists>v. decode [0x00, 0x00, 0x41, 0xAC] ''FLOAT32'' ''CDAB'' = Inr v \<and> f64_real v = 43 / 2) \<and>
   (\<exists>v. decode [1, 2, 3, 4, 5, 6, 7, 8] ''FLOAT64'' '''' = Inr v \<and> unat v = 0x0102030405060708)"
proof -
  have r: "reorder [0x00, 0x00, 0x41, 0xAC :: byte] ''CDAB'' = Inr [0x41, 0xAC, 0x00, 0x00]"
    by (simp add: reorder_def orderPos_def of_char_def)
  have r8: "reorder [1, 2, 3, 4, 5, 6, 7, 8 :: byte] '''' = Inr [1, 2, 3, 4, 5, 6, 7, 8]"
    by (simp add: reorder_def)
  have b: "ucast (be [0x41, 0xAC, 0x00, 0x00]) = (0x41AC0000 :: float32)" by (simp add: be_def)
  have f: "f32_finite 0x41AC0000" "f32_real 0x41AC0000 = 43 / 2"
    by (simp_all add: f32_finite_def f32_real_def f32_neg_def f32_mant_def f32_scale_def f32_exp_def
        f32_frac_def f32_mag_def)
  from decode_float_exact [OF r] f b decode_float_exact [OF r8]
  show ?thesis by (auto simp: beNat_def)
qed

text \<open>
  A byte order only moves bytes. When the order names each position once, a successful
  \<^verbatim>\<open>reorder\<close> returns a permutation of the input bytes; the empty order is the identity, and an
  order of the wrong length or naming a position beyond the data is an error.
\<close>

theorem reorder_permutes:
  "(\<forall>out. reorder raw order = Inr out \<and> distinct order \<longrightarrow> mset out = mset raw) \<and>
   reorder raw '''' = Inr raw \<and>
   ((\<exists>e. reorder raw order = Inl e) \<longleftrightarrow>
      order \<noteq> '''' \<and> (length order \<noteq> length raw \<or>
        (\<exists>c \<in> set order. orderPos c < 0 \<or> int (length raw) \<le> orderPos c)))"
proof -
  have "(\<exists>e. reorder raw order = Inl e) \<longleftrightarrow> \<not> (\<exists>out. reorder raw order = Inr out)"
    by (metis Inl_Inr_False sumE)
  also have "\<dots> \<longleftrightarrow> order \<noteq> '''' \<and> (length order \<noteq> length raw \<or>
        (\<exists>c \<in> set order. orderPos c < 0 \<or> int (length raw) \<le> orderPos c))"
    by (auto simp: reorder_def reorderLoop_Inr list_all_iff not_le not_less)
  finally show ?thesis using reorder_mset [of raw order] by (simp add: reorder_def [of raw "[]"])
qed

theorem reorder_permutes_witness:
  "\<exists>out. reorder [10, 20 :: byte] ''BA'' = Inr out \<and> mset out = {#10, 20#}"
proof -
  have "reorder [10, 20 :: byte] ''BA'' = Inr [20, 10]"
    by (simp add: reorder_def orderPos_def of_char_def)
  with reorder_permutes [of "[10, 20]" "''BA''"] show ?thesis by auto
qed

lemma lowerChar_idem: "lowerChar (lowerChar c) = lowerChar c"
proof (cases "65 \<le> (of_char c :: nat) \<and> (of_char c :: nat) \<le> 90")
  case True
  then have "(of_char (char_of (of_char c + 32 :: nat) :: char) :: nat) = of_char c + 32"
    by (simp add: of_char_of)
  with True show ?thesis by (simp add: lowerChar_def Let_def)
next
  case False
  then have "lowerChar c = c" by (auto simp: lowerChar_def Let_def)
  then show ?thesis by simp
qed

lemma toLower_idem: "toLower (toLower s) = toLower s"
  by (simp add: toLower_def lowerChar_idem)

text \<open>
  Error classification. A read is \<^verbatim>\<open>GOOD\<close> exactly when there was no error; a timeout
  is reported as \<^verbatim>\<open>TIMEOUT\<close> whatever the message says; and, for errors that are neither
  timeouts nor closed or unresolved connections, only the message counts, without regard to case,
  with \<^verbatim>\<open>crc\<close> before the offline phrases and \<^verbatim>\<open>INVALID\<close> when nothing matches.
\<close>

theorem qualityFromError_spec:
  "(qualityFromError err = Good \<longleftrightarrow> err = None) \<and>
   (\<forall>e. ge_timeout e \<longrightarrow> qualityFromError (Some e) = Timeout) \<and>
   (\<forall>e. qualityFromError (Some (e\<lparr>ge_msg := toLower (ge_msg e)\<rparr>)) = qualityFromError (Some e)) \<and>
   (\<forall>m. contains ''crc'' (toLower m) \<longrightarrow> qualityFromError (Some (plainError m)) = CRCError) \<and>
   (\<forall>m. \<not> contains ''crc'' (toLower m) \<longrightarrow> qualityFromError (Some (plainError m)) =
      (if \<exists>p \<in> set offlinePhrases. contains p (toLower m) then DeviceOffline else Invalid))"
  by (cases err) (simp_all add: qualityFromError_def Let_def toLower_idem plainError_def list_ex_iff)

theorem qualityFromError_spec_witness:
  "qualityFromError (Some (plainError ''modbus: CRC mismatch'')) = CRCError \<and>
   qualityFromError (Some (plainError ''dial: Connection refused'')) = DeviceOffline"
proof -
  have "contains ''crc'' (toLower ''modbus: CRC mismatch'')"
    "\<not> contains ''crc'' (toLower ''dial: Connection refused'')"
    "contains ''connection refused'' (toLower ''dial: Connection refused'')"
    by (simp_all add: toLower_def lowerChar_def of_char_def char_of_def bit_0)
  moreover have "''connection refused'' \<in> set offlinePhrases" by (simp add: offlinePhrases_def)
  ultimately show ?thesis using qualityFromError_spec [of None] by auto
qed

lemma retryLoop_reads:
  assumes "retryLoop c ctxErr fc a q k attempt attempts lastErr s = (Inr raw, n, s')"
  shows "\<exists>s0. cl_Read c fc a q s0 = (Inr raw, s')"
  using assms
proof (induction k arbitrary: attempt attempts lastErr s)
  case (Suc k)
  then show ?case
    by (fastforce simp: Let_def split: prod.splits option.splits sum.splits if_splits)
qed simp

text \<open>
  The retry loop. With \<open>maxRetries \<ge> 0\<close>, \<^verbatim>\<open>ReadWithRetry\<close> makes at least one and at
  most \<open>maxRetries + 1\<close> attempts and never returns without bytes and without an error; bytes it
  returns come from a successful read of the client. When the first read succeeds, it is the only
  request: no reconnect happens.
\<close>

theorem readWithRetry_spec:
  assumes "0 \<le> maxRetries"
    and "readWithRetry c ctxErr fc a q maxRetries s = (res, attempts, s')"
  shows "1 \<le> attempts \<and> int attempts \<le> maxRetries + 1 \<and> res \<noteq> Inl None \<and>
    (\<forall>raw. res = Inr raw \<longrightarrow> (\<exists>s0. cl_Read c fc a q s0 = (Inr raw, s'))) \<and>
    (\<forall>raw s1. cl_Read c fc a q s = (Inr raw, s1) \<longrightarrow> res = Inr raw \<and> attempts = 1 \<and> s' = s1)"
proof -
  have k: "nat (maxRetries + 1) = Suc (nat maxRetries)" using assms(1) by simp
  note r = assms(2) [unfolded readWithRetry_def k]
  have "1 \<le> attempts \<and> attempts \<le> Suc (nat maxRetries)" using retryLoop_attempts [OF r] by simp
  moreover have "res \<noteq> Inl None"
  proof
    assume "res = Inl None"
    from retryLoop_no_error [OF r [unfolded this]] show False by simp
  qed
  moreover have "\<exists>s0. cl_Read c fc a q s0 = (Inr raw, s')" if "res = Inr raw" for raw
    by (rule retryLoop_reads [OF r [unfolded that]])
  ultimately show ?thesis using r assms(1) by auto
qed

text \<open>A client over a script of outcomes: one timeout, then four bytes.\<close>

definition scriptClient :: "(go_error + byte list) list modbus_client" where
  "scriptClient = \<lparr>cl_Connect = \<lambda>s. (None, s), cl_Close = \<lambda>s. s, cl_SetUnitID = \<lambda>_ s. s,
     cl_Read = \<lambda>_ _ _ s. (case s of [] \<Rightarrow> (Inl (plainError ''EOF''), []) | r # rs \<Rightarrow> (r, rs))\<rparr>"

theorem readWithRetry_spec_witness:
  "readWithRetry scriptClient (\<lambda>_. None) FuncReadHoldingRegisters 0 2 1
     [Inl (plainError ''timeout''), Inr [1, 2, 3, 4]] = (Inr [1, 2, 3, 4], 2, []) \<and>
   (1 :: nat) \<le> 2 \<and> int 2 \<le> 1 + 1"
proof -
  have "readWithRetry scriptClient (\<lambda>_. None) FuncReadHoldingRegisters 0 2 1
     [Inl (plainError ''timeout''), Inr [1, 2, 3, 4]] = (Inr [1, 2, 3, 4], 2, [])"
    by (simp add: readWithRetry_def scriptClient_def numeral_2_eq_2)
  with readWithRetry_spec [OF _ this] show ?thesis by simp
qed

end
