(* ===== verification/ConfigDb.thy ===== *)
theory ConfigDb
  imports Modbus
begin

text \<open>
  The configuration database: connections, devices and data points with their validation and their
  repositories (\<^verbatim>\<open>src/internal/connection\<close>, \<^verbatim>\<open>src/internal/device\<close>,
  \<^verbatim>\<open>src/internal/datapoint\<close>).

  A table is the list of its rows in primary-key order, each with its id; nullable columns are
  options and Booleans are stored as integers, so that the column conversions of the code are
  visible. The constraints are those of the schema: \<^verbatim>\<open>device.connection_id\<close> and
  \<^verbatim>\<open>datapoint.device_id\<close> reference existing rows, deleting a device deletes its data points,
  and the protocol is checked. \<^verbatim>\<open>connection\<close> and \<^verbatim>\<open>datapoint\<close> have AUTOINCREMENT ids;
  \<^verbatim>\<open>device\<close>, since migration 0004, gets the largest id in use plus one. A Boolean per
  operation tells whether SQLite carries it out.

  The locale \<open>repository\<close> states what the three repositories have in common; it is interpreted on
  each of them. The results: what is created or updated is read back, nothing else changes, the
  references stay intact, and a connection in use cannot be deleted.
\<close>

section \<open>Models and validation\<close>

record dataPoint =
  dp_ID :: int
  dp_DeviceID :: int
  dp_TagName :: string
  dp_FunctionCode :: byte
  dp_RegisterAddress :: uint16
  dp_DataType :: string
  dp_ByteOrder :: string
  dp_WordOrder :: string
  dp_Scale :: float64
  dp_Offset :: float64
  dp_Unit :: string
  dp_Enabled :: bool

record device =
  dv_ID :: int
  dv_Name :: string
  dv_ConnectionID :: int
  dv_SlaveID :: int
  dv_Enabled :: bool

record connection =
  cn_ID :: int
  cn_Name :: string
  cn_Protocol :: string
  cn_Interface :: string
  cn_IPAddress :: string
  cn_Port :: int
  cn_TimeoutMs :: int
  cn_Retry :: int
  cn_Enabled :: bool
  cn_NextDeviceDelayMs :: int
  cn_BaudRate :: int
  cn_DataBits :: int
  cn_Parity :: string
  cn_StopBits :: int

definition validateDataPoint :: "dataPoint \<Rightarrow> string option" where
  "validateDataPoint dp =
     (if dp_TagName dp = '''' then Some ''tag_name is required''
      else if dp_FunctionCode dp \<notin> {1, 2, 3, 4} then Some ''function_code must be one of 1, 2, 3, 4''
      else case byteWidth (dp_DataType dp) of
             Inl e \<Rightarrow> Some ''data_type: unknown data type''
           | Inr w \<Rightarrow> (if f64_eq (dp_Scale dp) (f64_of_int 0) then Some ''scale must not be zero'' else None))"

definition validateDevice :: "device \<Rightarrow> string option" where
  "validateDevice d =
     (if dv_Name d = '''' then Some ''name is required''
      else if dv_ConnectionID d \<le> 0 then Some ''connection_id is required''
      else if dv_SlaveID d < 1 \<or> dv_SlaveID d > 247 then Some ''slave_id must be between 1 and 247''
      else None)"

definition validateTCP :: "connection \<Rightarrow> string option" where
  "validateTCP c =
     (if cn_IPAddress c = '''' then Some ''ip_address is required for TCP connections''
      else if cn_Port c \<le> 0 \<or> cn_Port c > 65535 then Some ''port must be between 1 and 65535''
      else None)"

definition validateRTU :: "connection \<Rightarrow> string option" where
  "validateRTU c =
     (if cn_Interface c = '''' then Some ''interface is required for RTU connections''
      else if cn_BaudRate c \<le> 0 then Some ''baud_rate must be positive''
      else if cn_Parity c \<noteq> ''N'' \<and> cn_Parity c \<noteq> ''E'' \<and> cn_Parity c \<noteq> ''O''
      then Some ''parity must be one of N, E, O''
      else None)"

definition validateConnection :: "connection \<Rightarrow> string option" where
  "validateConnection c =
     (if cn_Name c = '''' then Some ''name is required''
      else case (if cn_Protocol c = ''TCP'' then validateTCP c
                 else if cn_Protocol c = ''RTU'' then validateRTU c
                 else Some ''protocol must be RTU or TCP'') of
             Some e \<Rightarrow> Some e
           | None \<Rightarrow>
               (if cn_TimeoutMs c \<le> 0 then Some ''timeout_ms must be positive''
                else if cn_Retry c < 0 then Some ''retry must not be negative''
                else if cn_NextDeviceDelayMs c < 0 then Some ''next_device_delay_ms must not be negative''
                else None))"

section \<open>Rows and columns\<close>

record dp_row =
  dpr_device_id :: int
  dpr_tag_name :: string
  dpr_function_code :: byte
  dpr_register_address :: uint16
  dpr_data_type :: string
  dpr_byte_order :: string
  dpr_word_order :: string
  dpr_scale :: float64
  dpr_offset :: float64
  dpr_unit :: "string option"
  dpr_enabled :: int

record dv_row =
  dvr_name :: string
  dvr_connection_id :: int
  dvr_slave_id :: "int option"
  dvr_enabled :: int

record cn_row =
  cnr_name :: string
  cnr_protocol :: string
  cnr_interface :: "string option"
  cnr_ip_address :: "string option"
  cnr_port :: "int option"
  cnr_timeout_ms :: int
  cnr_retry :: int
  cnr_enabled :: int
  cnr_next_device_delay_ms :: int
  cnr_baud_rate :: int
  cnr_data_bits :: int
  cnr_parity :: string
  cnr_stop_bits :: int

record confdb =
  cf_connection :: "(int \<times> cn_row) list"
  cf_device :: "(int \<times> dv_row) list"
  cf_datapoint :: "(int \<times> dp_row) list"
  cf_connection_seq :: int
  cf_datapoint_seq :: int

datatype repo_err = ErrNotFound | ErrInUse | ErrForeignKey | ErrCheck | ErrSql

definition nullable :: "string \<Rightarrow> string option" where
  "nullable s = (if s = '''' then None else Some s)"

definition nullString :: "string option \<Rightarrow> string" where
  "nullString s = (case s of None \<Rightarrow> '''' | Some x \<Rightarrow> x)"

definition nullInt :: "int option \<Rightarrow> int" where
  "nullInt v = (case v of None \<Rightarrow> 0 | Some x \<Rightarrow> x)"

definition boolToInt :: "bool \<Rightarrow> int" where
  "boolToInt b = (if b then 1 else 0)"

definition scanDataPoint :: "int \<times> dp_row \<Rightarrow> dataPoint" where
  "scanDataPoint p =
     (case p of (i, r) \<Rightarrow>
       \<lparr>dp_ID = i, dp_DeviceID = dpr_device_id r, dp_TagName = dpr_tag_name r,
        dp_FunctionCode = dpr_function_code r, dp_RegisterAddress = dpr_register_address r,
        dp_DataType = dpr_data_type r, dp_ByteOrder = dpr_byte_order r, dp_WordOrder = dpr_word_order r,
        dp_Scale = dpr_scale r, dp_Offset = dpr_offset r, dp_Unit = nullString (dpr_unit r),
        dp_Enabled = (dpr_enabled r \<noteq> 0)\<rparr>)"

definition scanDevice :: "int \<times> dv_row \<Rightarrow> device" where
  "scanDevice p =
     (case p of (i, r) \<Rightarrow>
       \<lparr>dv_ID = i, dv_Name = dvr_name r, dv_ConnectionID = dvr_connection_id r,
        dv_SlaveID = nullInt (dvr_slave_id r), dv_Enabled = (dvr_enabled r \<noteq> 0)\<rparr>)"

definition scanConnection :: "int \<times> cn_row \<Rightarrow> connection" where
  "scanConnection p =
     (case p of (i, r) \<Rightarrow>
       \<lparr>cn_ID = i, cn_Name = cnr_name r, cn_Protocol = cnr_protocol r,
        cn_Interface = nullString (cnr_interface r), cn_IPAddress = nullString (cnr_ip_address r),
        cn_Port = nullInt (cnr_port r), cn_TimeoutMs = cnr_timeout_ms r, cn_Retry = cnr_retry r,
        cn_Enabled = (cnr_enabled r \<noteq> 0), cn_NextDeviceDelayMs = cnr_next_device_delay_ms r,
        cn_BaudRate = cnr_baud_rate r, cn_DataBits = cnr_data_bits r, cn_Parity = cnr_parity r,
        cn_StopBits = cnr_stop_bits r\<rparr>)"

definition dataPointRow :: "dataPoint \<Rightarrow> dp_row" where
  "dataPointRow dp =
     \<lparr>dpr_device_id = dp_DeviceID dp, dpr_tag_name = dp_TagName dp, dpr_function_code = dp_FunctionCode dp,
      dpr_register_address = dp_RegisterAddress dp, dpr_data_type = dp_DataType dp,
      dpr_byte_order = dp_ByteOrder dp, dpr_word_order = dp_WordOrder dp, dpr_scale = dp_Scale dp,
      dpr_offset = dp_Offset dp, dpr_unit = nullable (dp_Unit dp), dpr_enabled = boolToInt (dp_Enabled dp)\<rparr>"

definition deviceRow :: "device \<Rightarrow> dv_row" where
  "deviceRow d =
     \<lparr>dvr_name = dv_Name d, dvr_connection_id = dv_ConnectionID d, dvr_slave_id = Some (dv_SlaveID d),
      dvr_enabled = boolToInt (dv_Enabled d)\<rparr>"

definition connectionRow :: "connection \<Rightarrow> cn_row" where
  "connectionRow c =
     \<lparr>cnr_name = cn_Name c, cnr_protocol = cn_Protocol c, cnr_interface = nullable (cn_Interface c),
      cnr_ip_address = nullable (cn_IPAddress c), cnr_port = Some (cn_Port c),
      cnr_timeout_ms = cn_TimeoutMs c, cnr_retry = cn_Retry c, cnr_enabled = boolToInt (cn_Enabled c),
      cnr_next_device_delay_ms = cn_NextDeviceDelayMs c, cnr_baud_rate = cn_BaudRate c,
      cnr_data_bits = cn_DataBits c, cnr_parity = cn_Parity c, cnr_stop_bits = cn_StopBits c\<rparr>"

section \<open>Tables\<close>

definition rowUpdate :: "int \<Rightarrow> 'r \<Rightarrow> (int \<times> 'r) list \<Rightarrow> (int \<times> 'r) list" where
  "rowUpdate i r t = map (\<lambda>(j, x). if j = i then (j, r) else (j, x)) t"

definition rowDelete :: "int \<Rightarrow> (int \<times> 'r) list \<Rightarrow> (int \<times> 'r) list" where
  "rowDelete i t = filter (\<lambda>(j, x). j \<noteq> i) t"

definition hasRow :: "int \<Rightarrow> (int \<times> 'r) list \<Rightarrow> bool" where
  "hasRow i t = (map_of t i \<noteq> None)"

definition maxRowid :: "(int \<times> 'r) list \<Rightarrow> int" where
  "maxRowid t = fold (\<lambda>p m. max m (fst p)) t 0"

section \<open>The repositories\<close>

subsection \<open>Data points\<close>

definition dpListByDevice :: "int \<Rightarrow> confdb \<Rightarrow> dataPoint list" where
  "dpListByDevice deviceID db =
     map scanDataPoint (filter (\<lambda>(i, r). dpr_device_id r = deviceID) (cf_datapoint db))"

definition dpListEnabledByDevice :: "int \<Rightarrow> confdb \<Rightarrow> dataPoint list" where
  "dpListEnabledByDevice deviceID db =
     map scanDataPoint (filter (\<lambda>(i, r). dpr_device_id r = deviceID \<and> dpr_enabled r = 1) (cf_datapoint db))"

definition dpCountAll :: "confdb \<Rightarrow> int" where
  "dpCountAll db = int (length (cf_datapoint db))"

definition dpGet :: "bool \<Rightarrow> int \<Rightarrow> confdb \<Rightarrow> repo_err + dataPoint" where
  "dpGet io i db =
     (if \<not> io then Inl ErrSql
      else case map_of (cf_datapoint db) i of
             None \<Rightarrow> Inl ErrNotFound
           | Some r \<Rightarrow> Inr (scanDataPoint (i, r)))"

definition dpCreate :: "bool \<Rightarrow> dataPoint \<Rightarrow> confdb \<Rightarrow> (repo_err + int) \<times> confdb" where
  "dpCreate io dp db =
     (if \<not> io then (Inl ErrSql, db)
      else if \<not> hasRow (dp_DeviceID dp) (cf_device db) then (Inl ErrForeignKey, db)
      else let i = cf_datapoint_seq db + 1 in
        (Inr i, db\<lparr>cf_datapoint := cf_datapoint db @ [(i, dataPointRow dp)], cf_datapoint_seq := i\<rparr>))"

text \<open>\<^verbatim>\<open>Update\<close> does not set \<^verbatim>\<open>device_id\<close>: a data point stays with its device.\<close>

definition dpUpdate :: "bool \<Rightarrow> int \<Rightarrow> dataPoint \<Rightarrow> confdb \<Rightarrow> repo_err option \<times> confdb" where
  "dpUpdate io i dp db =
     (if \<not> io then (Some ErrSql, db)
      else case map_of (cf_datapoint db) i of
             None \<Rightarrow> (Some ErrNotFound, db)
           | Some old \<Rightarrow>
               (None, db\<lparr>cf_datapoint :=
                  rowUpdate i ((dataPointRow dp)\<lparr>dpr_device_id := dpr_device_id old\<rparr>) (cf_datapoint db)\<rparr>))"

definition dpDelete :: "bool \<Rightarrow> int \<Rightarrow> confdb \<Rightarrow> repo_err option \<times> confdb" where
  "dpDelete io i db =
     (if \<not> io then (Some ErrSql, db)
      else if \<not> hasRow i (cf_datapoint db) then (Some ErrNotFound, db)
      else (None, db\<lparr>cf_datapoint := rowDelete i (cf_datapoint db)\<rparr>))"

subsection \<open>Devices\<close>

definition dvList :: "confdb \<Rightarrow> device list" where
  "dvList db = map scanDevice (cf_device db)"

definition dvListEnabled :: "confdb \<Rightarrow> device list" where
  "dvListEnabled db = map scanDevice (filter (\<lambda>(i, r). dvr_enabled r = 1) (cf_device db))"

definition dvCount :: "confdb \<Rightarrow> int \<times> int" where
  "dvCount db = (int (length (cf_device db)), int (length (filter (\<lambda>(i, r). dvr_enabled r = 1) (cf_device db))))"

definition dvGet :: "bool \<Rightarrow> int \<Rightarrow> confdb \<Rightarrow> repo_err + device" where
  "dvGet io i db =
     (if \<not> io then Inl ErrSql
      else case map_of (cf_device db) i of None \<Rightarrow> Inl ErrNotFound | Some r \<Rightarrow> Inr (scanDevice (i, r)))"

definition dvCreate :: "bool \<Rightarrow> device \<Rightarrow> confdb \<Rightarrow> (repo_err + int) \<times> confdb" where
  "dvCreate io d db =
     (if \<not> io then (Inl ErrSql, db)
      else if \<not> hasRow (dv_ConnectionID d) (cf_connection db) then (Inl ErrForeignKey, db)
      else let i = maxRowid (cf_device db) + 1 in
        (Inr i, db\<lparr>cf_device := cf_device db @ [(i, deviceRow d)]\<rparr>))"

definition dvUpdate :: "bool \<Rightarrow> int \<Rightarrow> device \<Rightarrow> confdb \<Rightarrow> repo_err option \<times> confdb" where
  "dvUpdate io i d db =
     (if \<not> io then (Some ErrSql, db)
      else if \<not> hasRow i (cf_device db) then (Some ErrNotFound, db)
      else if \<not> hasRow (dv_ConnectionID d) (cf_connection db) then (Some ErrForeignKey, db)
      else (None, db\<lparr>cf_device := rowUpdate i (deviceRow d) (cf_device db)\<rparr>))"

definition dvDelete :: "bool \<Rightarrow> int \<Rightarrow> confdb \<Rightarrow> repo_err option \<times> confdb" where
  "dvDelete io i db =
     (if \<not> io then (Some ErrSql, db)
      else if \<not> hasRow i (cf_device db) then (Some ErrNotFound, db)
      else (None, db\<lparr>cf_device := rowDelete i (cf_device db),
                     cf_datapoint := filter (\<lambda>(j, r). dpr_device_id r \<noteq> i) (cf_datapoint db)\<rparr>))"

subsection \<open>Connections\<close>

definition cnList :: "confdb \<Rightarrow> connection list" where
  "cnList db = map scanConnection (cf_connection db)"

definition cnListEnabled :: "confdb \<Rightarrow> connection list" where
  "cnListEnabled db = map scanConnection (filter (\<lambda>(i, r). cnr_enabled r = 1) (cf_connection db))"

definition cnGet :: "bool \<Rightarrow> int \<Rightarrow> confdb \<Rightarrow> repo_err + connection" where
  "cnGet io i db =
     (if \<not> io then Inl ErrSql
      else case map_of (cf_connection db) i of None \<Rightarrow> Inl ErrNotFound | Some r \<Rightarrow> Inr (scanConnection (i, r)))"

definition cnCreate :: "bool \<Rightarrow> connection \<Rightarrow> confdb \<Rightarrow> (repo_err + int) \<times> confdb" where
  "cnCreate io c db =
     (if \<not> io then (Inl ErrSql, db)
      else if cn_Protocol c \<notin> {''RTU'', ''TCP''} then (Inl ErrCheck, db)
      else let i = cf_connection_seq db + 1 in
        (Inr i, db\<lparr>cf_connection := cf_connection db @ [(i, connectionRow c)], cf_connection_seq := i\<rparr>))"

definition cnUpdate :: "bool \<Rightarrow> int \<Rightarrow> connection \<Rightarrow> confdb \<Rightarrow> repo_err option \<times> confdb" where
  "cnUpdate io i c db =
     (if \<not> io then (Some ErrSql, db)
      else if \<not> hasRow i (cf_connection db) then (Some ErrNotFound, db)
      else if cn_Protocol c \<notin> {''RTU'', ''TCP''} then (Some ErrCheck, db)
      else (None, db\<lparr>cf_connection := rowUpdate i (connectionRow c) (cf_connection db)\<rparr>))"

definition cnInUse :: "int \<Rightarrow> confdb \<Rightarrow> bool" where
  "cnInUse i db = (filter (\<lambda>(j, r). dvr_connection_id r = i) (cf_device db) \<noteq> [])"

definition cnDelete :: "bool \<Rightarrow> bool \<Rightarrow> int \<Rightarrow> confdb \<Rightarrow> repo_err option \<times> confdb" where
  "cnDelete ioCount io i db =
     (if \<not> ioCount then (Some ErrSql, db)
      else if cnInUse i db then (Some ErrInUse, db)
      else if \<not> io then (Some ErrSql, db)
      else if \<not> hasRow i (cf_connection db) then (Some ErrNotFound, db)
      else (None, db\<lparr>cf_connection := rowDelete i (cf_connection db)\<rparr>))"

section \<open>The repository contract\<close>

definition confOk :: "confdb \<Rightarrow> bool" where
  "confOk db \<longleftrightarrow>
     distinct (map fst (cf_connection db)) \<and> distinct (map fst (cf_device db)) \<and>
     distinct (map fst (cf_datapoint db)) \<and>
     list_all (\<lambda>(i, r). i \<le> cf_connection_seq db) (cf_connection db) \<and>
     list_all (\<lambda>(i, r). i \<le> cf_datapoint_seq db) (cf_datapoint db) \<and>
     list_all (\<lambda>(i, r). hasRow (dvr_connection_id r) (cf_connection db)) (cf_device db) \<and>
     list_all (\<lambda>(i, r). hasRow (dpr_device_id r) (cf_device db)) (cf_datapoint db) \<and>
     list_all (\<lambda>(i, r). cnr_protocol r = ''RTU'' \<or> cnr_protocol r = ''TCP'') (cf_connection db)"

text \<open>
  \<open>stored i v\<close> is the value \<open>v\<close> as it is read back under id \<open>i\<close>, \<open>merged old v\<close> what an update with
  \<open>v\<close> makes of \<open>old\<close>.
\<close>

locale repository =
  fixes inv :: "'db \<Rightarrow> bool"
    and get :: "'db \<Rightarrow> int \<rightharpoonup> 'v"
    and stored :: "int \<Rightarrow> 'v \<Rightarrow> 'v"
    and merged :: "'v \<Rightarrow> 'v \<Rightarrow> 'v"
    and create :: "bool \<Rightarrow> 'v \<Rightarrow> 'db \<Rightarrow> (repo_err + int) \<times> 'db"
    and update :: "bool \<Rightarrow> int \<Rightarrow> 'v \<Rightarrow> 'db \<Rightarrow> repo_err option \<times> 'db"
    and delete :: "bool \<Rightarrow> int \<Rightarrow> 'db \<Rightarrow> repo_err option \<times> 'db"
  assumes create_ok: "inv db \<Longrightarrow> create io v db = (Inr i, db') \<Longrightarrow>
      inv db' \<and> get db i = None \<and> get db' = (get db)(i \<mapsto> stored i v)"
    and create_err: "create io v db = (Inl e, db') \<Longrightarrow> db' = db"
    and update_ok: "inv db \<Longrightarrow> update io i v db = (None, db') \<Longrightarrow>
      inv db' \<and> (\<exists>old. get db i = Some old \<and> get db' = (get db)(i \<mapsto> merged old v))"
    and update_err: "update io i v db = (Some e, db') \<Longrightarrow> db' = db"
    and delete_ok: "inv db \<Longrightarrow> delete io i db = (None, db') \<Longrightarrow>
      inv db' \<and> get db i \<noteq> None \<and> get db' = (get db)(i := None)"
    and delete_err: "delete io i db = (Some e, db') \<Longrightarrow> db' = db"
begin

lemma keeps_inv:
  assumes "inv db"
  shows "inv (snd (create io v db))" "inv (snd (update io i v db))" "inv (snd (delete io i db))"
proof -
  show "inv (snd (create io v db))"
    using create_ok [OF assms] create_err assms by (cases "create io v db"; cases "fst (create io v db)") fastforce+
  show "inv (snd (update io i v db))"
    using update_ok [OF assms] update_err assms by (cases "update io i v db"; cases "fst (update io i v db)") fastforce+
  show "inv (snd (delete io i db))"
    using delete_ok [OF assms] delete_err assms by (cases "delete io i db"; cases "fst (delete io i db)") fastforce+
qed

lemma create_then_delete:
  assumes "inv db" "create io v db = (Inr i, db1)" "delete io' i db1 = (None, db2)"
  shows "get db2 = get db"
  using create_ok [OF assms(1,2)] delete_ok [OF _ assms(3)] by (auto simp: fun_eq_iff)

lemma get_absent_update: "inv db \<Longrightarrow> get db i = None \<Longrightarrow> fst (update io i v db) \<noteq> None"
  using update_ok by (metis option.distinct(1) prod.collapse)

lemma get_absent_delete: "inv db \<Longrightarrow> get db i = None \<Longrightarrow> fst (delete io i db) \<noteq> None"
  using delete_ok by (metis prod.collapse)

end

definition getDataPoint :: "confdb \<Rightarrow> int \<rightharpoonup> dataPoint" where
  "getDataPoint db i = map_option (\<lambda>r. scanDataPoint (i, r)) (map_of (cf_datapoint db) i)"

definition getDevice :: "confdb \<Rightarrow> int \<rightharpoonup> device" where
  "getDevice db i = map_option (\<lambda>r. scanDevice (i, r)) (map_of (cf_device db) i)"

definition getConnection :: "confdb \<Rightarrow> int \<rightharpoonup> connection" where
  "getConnection db i = map_option (\<lambda>r. scanConnection (i, r)) (map_of (cf_connection db) i)"

subsection \<open>Rows\<close>

lemma scan_row [simp]:
  "scanDataPoint (i, dataPointRow dp) = dp\<lparr>dp_ID := i\<rparr>"
  "scanDevice (i, deviceRow d) = d\<lparr>dv_ID := i\<rparr>"
  "scanConnection (i, connectionRow c) = c\<lparr>cn_ID := i\<rparr>"
  by (simp_all add: scanDataPoint_def dataPointRow_def scanDevice_def deviceRow_def scanConnection_def
      connectionRow_def nullable_def nullString_def nullInt_def boolToInt_def)

lemma map_of_rowUpdate: "map_of (rowUpdate i r t) j = (if j = i \<and> hasRow i t then Some r else map_of t j)"
  by (induction t) (auto simp: rowUpdate_def hasRow_def)

lemma map_of_rowDelete: "map_of (rowDelete i t) j = (if j = i then None else map_of t j)"
  by (induction t) (auto simp: rowDelete_def)

lemma map_of_snoc: "map_of t i = None \<Longrightarrow> map_of (t @ [(i, r)]) j = (if j = i then Some r else map_of t j)"
  by (auto simp: map_add_def split: option.splits)

lemma keys_rowUpdate [simp]: "map fst (rowUpdate i r t) = map fst t"
  by (induction t) (auto simp: rowUpdate_def)

lemma hasRow_simps [simp]:
  "hasRow j (rowUpdate i r t) = hasRow j t" "hasRow j (rowDelete i t) \<longleftrightarrow> j \<noteq> i \<and> hasRow j t"
  "hasRow j (t @ [(i, r)]) \<longleftrightarrow> j = i \<or> hasRow j t"
  by (auto simp: hasRow_def map_of_rowUpdate map_of_rowDelete map_add_def split: option.splits)

lemma hasRow_mem: "(i, r) \<in> set t \<Longrightarrow> hasRow i t"
  by (auto simp: hasRow_def weak_map_of_SomeI)

lemma set_rowUpdate: "(j, x) \<in> set (rowUpdate i r t) \<Longrightarrow> (j, x) \<in> set t \<or> j = i \<and> x = r"
  by (auto simp: rowUpdate_def split: if_splits)

lemma set_rowDelete: "(j, x) \<in> set (rowDelete i t) \<Longrightarrow> (j, x) \<in> set t \<and> j \<noteq> i"
  by (auto simp: rowDelete_def)

lemma distinct_filter_keys: "distinct (map fst t) \<Longrightarrow> distinct (map fst (filter P t))"
  by (simp add: distinct_map_filter)

lemma fold_max_ge: "(m :: int) \<le> fold (\<lambda>p m. max m (fst p)) t m"
  by (induction t arbitrary: m) (auto intro: order_trans [OF max.cobounded1])

lemma maxRowid_ge: "(i, r) \<in> set t \<Longrightarrow> i \<le> maxRowid t"
proof -
  have "(i, r) \<in> set t \<Longrightarrow> i \<le> fold (\<lambda>p m. max m (fst p)) t m" for m
  proof (induction t arbitrary: m)
    case (Cons p t)
    show ?case
    proof (cases "p = (i, r)")
      case True
      then show ?thesis using fold_max_ge [of "max m i" t] by simp
    qed (use Cons in auto)
  qed simp
  then show "(i, r) \<in> set t \<Longrightarrow> i \<le> maxRowid t" by (simp add: maxRowid_def)
qed

lemma fresh_rowid: "map_of t (maxRowid t + 1) = None"
  by (metis add_le_cancel_left map_of_SomeD maxRowid_ge not_one_le_zero option.exhaust add.right_neutral)

lemma fresh_seq: "list_all (\<lambda>(i, r). i \<le> q) t \<Longrightarrow> map_of t (q + 1) = None" for q :: int
  by (induction t) auto

subsection \<open>The three repositories fulfil it\<close>

lemma confOk_dpCreate:
  assumes "confOk db" "dpCreate io dp db = (Inr i, db')"
  shows "confOk db'" "map_of (cf_datapoint db) i = None"
    "map_of (cf_datapoint db') = (map_of (cf_datapoint db))(i \<mapsto> dataPointRow dp)"
proof -
  from assms(2) have i: "i = cf_datapoint_seq db + 1" and fk: "hasRow (dp_DeviceID dp) (cf_device db)"
    and db': "db' = db\<lparr>cf_datapoint := cf_datapoint db @ [(i, dataPointRow dp)], cf_datapoint_seq := i\<rparr>"
    by (auto simp: dpCreate_def Let_def split: if_splits)
  show fresh: "map_of (cf_datapoint db) i = None"
    using assms(1) fresh_seq [of "cf_datapoint_seq db" "cf_datapoint db"] by (simp add: i confOk_def)
  then show "map_of (cf_datapoint db') = (map_of (cf_datapoint db))(i \<mapsto> dataPointRow dp)"
    by (simp add: db' fun_eq_iff map_of_snoc del: map_of_append)
  have "i \<notin> fst ` set (cf_datapoint db)" using fresh by (simp add: map_of_eq_None_iff)
  then show "confOk db'"
    using assms(1) fk by (auto simp: confOk_def db' i list_all_iff dataPointRow_def)
qed

lemma confOk_dpUpdate:
  assumes "confOk db" "dpUpdate io i dp db = (None, db')"
  shows "confOk db'" "\<exists>old. map_of (cf_datapoint db) i = Some old \<and>
    map_of (cf_datapoint db') = (map_of (cf_datapoint db))(i \<mapsto> (dataPointRow dp)\<lparr>dpr_device_id := dpr_device_id old\<rparr>)"
proof -
  from assms(2) obtain old where old: "map_of (cf_datapoint db) i = Some old"
    and db': "db' = db\<lparr>cf_datapoint := rowUpdate i ((dataPointRow dp)\<lparr>dpr_device_id := dpr_device_id old\<rparr>) (cf_datapoint db)\<rparr>"
    by (auto simp: dpUpdate_def split: if_splits option.splits)
  then show "\<exists>old. map_of (cf_datapoint db) i = Some old \<and>
    map_of (cf_datapoint db') = (map_of (cf_datapoint db))(i \<mapsto> (dataPointRow dp)\<lparr>dpr_device_id := dpr_device_id old\<rparr>)"
    by (auto simp: fun_eq_iff map_of_rowUpdate hasRow_def)
  have mem: "(i, old) \<in> set (cf_datapoint db)" using old by (rule map_of_SomeD)
  show "confOk db'"
    using assms(1) mem
    by (auto simp: confOk_def db' list_all_iff dest!: set_rowUpdate)
qed

lemma confOk_dpDelete:
  assumes "confOk db" "dpDelete io i db = (None, db')"
  shows "confOk db'" "map_of (cf_datapoint db) i \<noteq> None"
    "map_of (cf_datapoint db') = (map_of (cf_datapoint db))(i := None)"
proof -
  from assms(2) have h: "hasRow i (cf_datapoint db)"
    and db': "db' = db\<lparr>cf_datapoint := rowDelete i (cf_datapoint db)\<rparr>"
    by (auto simp: dpDelete_def split: if_splits)
  show "map_of (cf_datapoint db) i \<noteq> None" using h by (simp add: hasRow_def)
  show "map_of (cf_datapoint db') = (map_of (cf_datapoint db))(i := None)"
    by (simp add: db' fun_eq_iff map_of_rowDelete)
  show "confOk db'" using assms(1)
    by (auto simp: confOk_def db' list_all_iff rowDelete_def distinct_filter_keys)
qed

interpretation datapoint_repo: repository confOk getDataPoint "\<lambda>i v. v\<lparr>dp_ID := i\<rparr>"
  "\<lambda>old v. v\<lparr>dp_ID := dp_ID old, dp_DeviceID := dp_DeviceID old\<rparr>" dpCreate dpUpdate dpDelete
proof
  fix db io v i db'
  assume "confOk db" "dpCreate io v db = (Inr i, db')"
  from confOk_dpCreate [OF this] show "confOk db' \<and> getDataPoint db i = None \<and>
      getDataPoint db' = (getDataPoint db)(i \<mapsto> v\<lparr>dp_ID := i\<rparr>)"
    by (simp add: getDataPoint_def fun_eq_iff)
next
  fix db io i v db'
  assume "confOk db" "dpUpdate io i v db = (None, db')"
  from confOk_dpUpdate [OF this] show "confOk db' \<and> (\<exists>old. getDataPoint db i = Some old \<and>
      getDataPoint db' = (getDataPoint db)(i \<mapsto> v\<lparr>dp_ID := dp_ID old, dp_DeviceID := dp_DeviceID old\<rparr>))"
    by (auto simp: getDataPoint_def fun_eq_iff)
      (auto simp: scanDataPoint_def dataPointRow_def nullable_def nullString_def boolToInt_def)
next
  fix db io i db'
  assume "confOk db" "dpDelete io i db = (None, db')"
  from confOk_dpDelete [OF this] show "confOk db' \<and> getDataPoint db i \<noteq> None \<and>
      getDataPoint db' = (getDataPoint db)(i := None)"
    by (simp add: getDataPoint_def fun_eq_iff)
qed (auto simp: dpCreate_def dpUpdate_def dpDelete_def Let_def split: if_splits option.splits)

lemma confOk_dvCreate:
  assumes "confOk db" "dvCreate io d db = (Inr i, db')"
  shows "confOk db'" "map_of (cf_device db) i = None"
    "map_of (cf_device db') = (map_of (cf_device db))(i \<mapsto> deviceRow d)"
proof -
  from assms(2) have i: "i = maxRowid (cf_device db) + 1" and fk: "hasRow (dv_ConnectionID d) (cf_connection db)"
    and db': "db' = db\<lparr>cf_device := cf_device db @ [(i, deviceRow d)]\<rparr>"
    by (auto simp: dvCreate_def Let_def split: if_splits)
  show fresh: "map_of (cf_device db) i = None" by (simp add: i fresh_rowid)
  then show "map_of (cf_device db') = (map_of (cf_device db))(i \<mapsto> deviceRow d)"
    by (simp add: db' fun_eq_iff map_of_snoc del: map_of_append)
  have "i \<notin> fst ` set (cf_device db)" using fresh by (simp add: map_of_eq_None_iff)
  then show "confOk db'"
    using assms(1) fk by (auto simp: confOk_def db' list_all_iff deviceRow_def)
qed

lemma confOk_dvUpdate:
  assumes "confOk db" "dvUpdate io i d db = (None, db')"
  shows "confOk db'" "map_of (cf_device db) i \<noteq> None"
    "map_of (cf_device db') = (map_of (cf_device db))(i \<mapsto> deviceRow d)"
proof -
  from assms(2) have h: "hasRow i (cf_device db)" and fk: "hasRow (dv_ConnectionID d) (cf_connection db)"
    and db': "db' = db\<lparr>cf_device := rowUpdate i (deviceRow d) (cf_device db)\<rparr>"
    by (auto simp: dvUpdate_def split: if_splits)
  show "map_of (cf_device db) i \<noteq> None" using h by (simp add: hasRow_def)
  show "map_of (cf_device db') = (map_of (cf_device db))(i \<mapsto> deviceRow d)"
    using h by (simp add: db' fun_eq_iff map_of_rowUpdate)
  show "confOk db'" using assms(1) fk
    by (auto simp: confOk_def db' list_all_iff deviceRow_def dest!: set_rowUpdate)
qed

lemma confOk_dvDelete:
  assumes "confOk db" "dvDelete io i db = (None, db')"
  shows "confOk db'" "map_of (cf_device db) i \<noteq> None"
    "map_of (cf_device db') = (map_of (cf_device db))(i := None)"
proof -
  from assms(2) have h: "hasRow i (cf_device db)"
    and db': "db' = db\<lparr>cf_device := rowDelete i (cf_device db),
       cf_datapoint := filter (\<lambda>(j, r). dpr_device_id r \<noteq> i) (cf_datapoint db)\<rparr>"
    by (auto simp: dvDelete_def split: if_splits)
  show "map_of (cf_device db) i \<noteq> None" using h by (simp add: hasRow_def)
  show "map_of (cf_device db') = (map_of (cf_device db))(i := None)"
    by (simp add: db' fun_eq_iff map_of_rowDelete)
  have "distinct (map fst (rowDelete i (cf_device db)))"
    using assms(1) by (simp add: confOk_def rowDelete_def distinct_filter_keys)
  then show "confOk db'" using assms(1)
    by (auto simp: confOk_def db' list_all_iff distinct_filter_keys dest!: set_rowDelete)
qed

interpretation device_repo: repository confOk getDevice "\<lambda>i v. v\<lparr>dv_ID := i\<rparr>"
  "\<lambda>old v. v\<lparr>dv_ID := dv_ID old\<rparr>" dvCreate dvUpdate dvDelete
proof
  fix db io v i db'
  assume "confOk db" "dvCreate io v db = (Inr i, db')"
  from confOk_dvCreate [OF this] show "confOk db' \<and> getDevice db i = None \<and>
      getDevice db' = (getDevice db)(i \<mapsto> v\<lparr>dv_ID := i\<rparr>)"
    by (simp add: getDevice_def fun_eq_iff)
next
  fix db io i v db'
  assume "confOk db" "dvUpdate io i v db = (None, db')"
  from confOk_dvUpdate [OF this] show "confOk db' \<and> (\<exists>old. getDevice db i = Some old \<and>
      getDevice db' = (getDevice db)(i \<mapsto> v\<lparr>dv_ID := dv_ID old\<rparr>))"
    by (auto simp: getDevice_def fun_eq_iff) (auto simp: scanDevice_def)
next
  fix db io i db'
  assume "confOk db" "dvDelete io i db = (None, db')"
  from confOk_dvDelete [OF this] show "confOk db' \<and> getDevice db i \<noteq> None \<and>
      getDevice db' = (getDevice db)(i := None)"
    by (simp add: getDevice_def fun_eq_iff)
qed (auto simp: dvCreate_def dvUpdate_def dvDelete_def Let_def split: if_splits option.splits)

lemma confOk_cnCreate:
  assumes "confOk db" "cnCreate io c db = (Inr i, db')"
  shows "confOk db'" "map_of (cf_connection db) i = None"
    "map_of (cf_connection db') = (map_of (cf_connection db))(i \<mapsto> connectionRow c)"
proof -
  from assms(2) have i: "i = cf_connection_seq db + 1" and ck: "cn_Protocol c = ''RTU'' \<or> cn_Protocol c = ''TCP''"
    and db': "db' = db\<lparr>cf_connection := cf_connection db @ [(i, connectionRow c)], cf_connection_seq := i\<rparr>"
    by (auto simp: cnCreate_def Let_def split: if_splits)
  show fresh: "map_of (cf_connection db) i = None"
    using assms(1) fresh_seq [of "cf_connection_seq db" "cf_connection db"] by (simp add: i confOk_def)
  then show "map_of (cf_connection db') = (map_of (cf_connection db))(i \<mapsto> connectionRow c)"
    by (simp add: db' fun_eq_iff map_of_snoc del: map_of_append)
  have "i \<notin> fst ` set (cf_connection db)" using fresh by (simp add: map_of_eq_None_iff)
  then show "confOk db'"
    using assms(1) ck by (auto simp: confOk_def db' i list_all_iff connectionRow_def)
qed

lemma confOk_cnUpdate:
  assumes "confOk db" "cnUpdate io i c db = (None, db')"
  shows "confOk db'" "map_of (cf_connection db) i \<noteq> None"
    "map_of (cf_connection db') = (map_of (cf_connection db))(i \<mapsto> connectionRow c)"
proof -
  from assms(2) have h: "hasRow i (cf_connection db)" and ck: "cn_Protocol c = ''RTU'' \<or> cn_Protocol c = ''TCP''"
    and db': "db' = db\<lparr>cf_connection := rowUpdate i (connectionRow c) (cf_connection db)\<rparr>"
    by (auto simp: cnUpdate_def split: if_splits)
  show "map_of (cf_connection db) i \<noteq> None" using h by (simp add: hasRow_def)
  then obtain old where mem: "(i, old) \<in> set (cf_connection db)" by (auto dest: map_of_SomeD)
  show "map_of (cf_connection db') = (map_of (cf_connection db))(i \<mapsto> connectionRow c)"
    using h by (simp add: db' fun_eq_iff map_of_rowUpdate)
  show "confOk db'" using assms(1) ck mem
    by (auto simp: confOk_def db' list_all_iff connectionRow_def dest!: set_rowUpdate)
qed

lemma confOk_cnDelete:
  assumes "confOk db" "cnDelete ioC io i db = (None, db')"
  shows "confOk db'" "map_of (cf_connection db) i \<noteq> None"
    "map_of (cf_connection db') = (map_of (cf_connection db))(i := None)"
proof -
  from assms(2) have h: "hasRow i (cf_connection db)" and free: "\<not> cnInUse i db"
    and db': "db' = db\<lparr>cf_connection := rowDelete i (cf_connection db)\<rparr>"
    by (auto simp: cnDelete_def split: if_splits)
  show "map_of (cf_connection db) i \<noteq> None" using h by (simp add: hasRow_def)
  show "map_of (cf_connection db') = (map_of (cf_connection db))(i := None)"
    by (simp add: db' fun_eq_iff map_of_rowDelete)
  have "dvr_connection_id r \<noteq> i" if "(j, r) \<in> set (cf_device db)" for j r
    using free that by (auto simp: cnInUse_def filter_empty_conv)
  moreover have "distinct (map fst (rowDelete i (cf_connection db)))"
    using assms(1) by (simp add: confOk_def rowDelete_def distinct_filter_keys)
  ultimately show "confOk db'" using assms(1)
    by (auto simp: confOk_def db' list_all_iff dest!: set_rowDelete)
qed

interpretation connection_repo: repository confOk getConnection "\<lambda>i v. v\<lparr>cn_ID := i\<rparr>"
  "\<lambda>old v. v\<lparr>cn_ID := cn_ID old\<rparr>" cnCreate cnUpdate "\<lambda>io. cnDelete io io"
proof
  fix db io v i db'
  assume "confOk db" "cnCreate io v db = (Inr i, db')"
  from confOk_cnCreate [OF this] show "confOk db' \<and> getConnection db i = None \<and>
      getConnection db' = (getConnection db)(i \<mapsto> v\<lparr>cn_ID := i\<rparr>)"
    by (simp add: getConnection_def fun_eq_iff)
next
  fix db io i v db'
  assume "confOk db" "cnUpdate io i v db = (None, db')"
  from confOk_cnUpdate [OF this] show "confOk db' \<and> (\<exists>old. getConnection db i = Some old \<and>
      getConnection db' = (getConnection db)(i \<mapsto> v\<lparr>cn_ID := cn_ID old\<rparr>))"
    by (auto simp: getConnection_def fun_eq_iff) (auto simp: scanConnection_def)
next
  fix db io i db'
  assume "confOk db" "cnDelete io io i db = (None, db')"
  from confOk_cnDelete [OF this] show "confOk db' \<and> getConnection db i \<noteq> None \<and>
      getConnection db' = (getConnection db)(i := None)"
    by (simp add: getConnection_def fun_eq_iff)
qed (auto simp: cnCreate_def cnUpdate_def cnDelete_def Let_def split: if_splits option.splits)

section \<open>Properties\<close>

definition emptyConf :: confdb where
  "emptyConf = \<lparr>cf_connection = [], cf_device = [], cf_datapoint = [], cf_connection_seq = 0,
     cf_datapoint_seq = 0\<rparr>"

definition sampleConnection :: connection where
  "sampleConnection = \<lparr>cn_ID = 0, cn_Name = ''bus'', cn_Protocol = ''TCP'', cn_Interface = '''',
     cn_IPAddress = ''10.0.0.5'', cn_Port = 502, cn_TimeoutMs = 1000, cn_Retry = 3, cn_Enabled = True,
     cn_NextDeviceDelayMs = 250, cn_BaudRate = 9600, cn_DataBits = 8, cn_Parity = ''N'', cn_StopBits = 1\<rparr>"

definition sampleDevice :: device where
  "sampleDevice = \<lparr>dv_ID = 0, dv_Name = ''meter'', dv_ConnectionID = 1, dv_SlaveID = 7, dv_Enabled = True\<rparr>"

definition samplePoint :: dataPoint where
  "samplePoint = \<lparr>dp_ID = 0, dp_DeviceID = 1, dp_TagName = ''temp'', dp_FunctionCode = 4,
     dp_RegisterAddress = 1, dp_DataType = ''INT16'', dp_ByteOrder = ''AB'', dp_WordOrder = ''AB'',
     dp_Scale = 0x3FF0000000000000, dp_Offset = 0, dp_Unit = ''C'', dp_Enabled = True\<rparr>"

definition sampleConf :: confdb where
  "sampleConf = snd (dpCreate True samplePoint (snd (dvCreate True sampleDevice
     (snd (cnCreate True sampleConnection emptyConf)))))"

lemma sampleConf_ok: "confOk sampleConf"
  unfolding sampleConf_def
  by (intro datapoint_repo.keeps_inv device_repo.keeps_inv connection_repo.keeps_inv)
    (simp add: confOk_def emptyConf_def)

lemma sampleConf_eval:
  "sampleConf = \<lparr>cf_connection = [(1, connectionRow sampleConnection)], cf_device = [(1, deviceRow sampleDevice)],
     cf_datapoint = [(1, dataPointRow samplePoint)], cf_connection_seq = 1, cf_datapoint_seq = 1\<rparr>"
  by (simp add: sampleConf_def emptyConf_def dpCreate_def dvCreate_def cnCreate_def hasRow_def
      maxRowid_def samplePoint_def sampleDevice_def sampleConnection_def Let_def)

text \<open>
  C24: the configuration stays consistent. Whatever operation of the three repositories runs, whether
  or not SQLite carries it out, a database whose ids are unique and whose references all point to
  existing rows stays so; and an operation that reports an error has changed nothing.
\<close>

theorem configuration_stays_consistent:
  assumes "confOk db"
  shows "confOk (snd (dpCreate io dp db)) \<and> confOk (snd (dpUpdate io i dp db)) \<and> confOk (snd (dpDelete io i db)) \<and>
    confOk (snd (dvCreate io d db)) \<and> confOk (snd (dvUpdate io i d db)) \<and> confOk (snd (dvDelete io i db)) \<and>
    confOk (snd (cnCreate io c db)) \<and> confOk (snd (cnUpdate io i c db)) \<and> confOk (snd (cnDelete io io' i db)) \<and>
    (fst (dpUpdate io i dp db) = None \<or> snd (dpUpdate io i dp db) = db) \<and>
    (fst (dvUpdate io i d db) = None \<or> snd (dvUpdate io i d db) = db) \<and>
    (fst (dvDelete io i db) = None \<or> snd (dvDelete io i db) = db) \<and>
    (fst (cnUpdate io i c db) = None \<or> snd (cnUpdate io i c db) = db) \<and>
    (fst (cnDelete io io' i db) = None \<or> snd (cnDelete io io' i db) = db)"
proof -
  have "confOk (snd (cnDelete io io' i db))"
    using confOk_cnDelete(1) [OF assms] assms
    by (cases "cnDelete io io' i db"; cases "fst (cnDelete io io' i db)")
      (auto simp: cnDelete_def split: if_splits)
  then show ?thesis
    using datapoint_repo.keeps_inv [OF assms] device_repo.keeps_inv [OF assms]
      connection_repo.keeps_inv [OF assms]
    by (auto simp: dpUpdate_def dvUpdate_def dvDelete_def cnUpdate_def cnDelete_def split: option.splits)
qed

theorem configuration_stays_consistent_witness:
  "confOk (snd (dvDelete True 1 sampleConf)) \<and> cf_datapoint (snd (dvDelete True 1 sampleConf)) = []"
  using configuration_stays_consistent [OF sampleConf_ok, where i = 1 and io = True]
  by (simp add: sampleConf_eval dvDelete_def hasRow_def dataPointRow_def samplePoint_def)

text \<open>
  What is saved is read back. After creating a data point, a device or a connection, reading its
  id returns it with that id, column conversions included; the id was not in use, and every other row
  of the table is as before. After updating a data point, reading it returns the new values with
  its id and its device unchanged.
\<close>

theorem repositories_round_trip:
  assumes "confOk db"
  shows "(\<forall>i db'. dpCreate io dp db = (Inr i, db') \<longrightarrow> dpGet True i db' = Inr (dp\<lparr>dp_ID := i\<rparr>) \<and>
      dpGet True i db = Inl ErrNotFound \<and> (\<forall>j. j = i \<or> dpGet True j db' = dpGet True j db)) \<and>
    (\<forall>i db'. dvCreate io d db = (Inr i, db') \<longrightarrow> dvGet True i db' = Inr (d\<lparr>dv_ID := i\<rparr>) \<and>
      dvGet True i db = Inl ErrNotFound \<and> (\<forall>j. j = i \<or> dvGet True j db' = dvGet True j db)) \<and>
    (\<forall>i db'. cnCreate io c db = (Inr i, db') \<longrightarrow> cnGet True i db' = Inr (c\<lparr>cn_ID := i\<rparr>) \<and>
      cnGet True i db = Inl ErrNotFound \<and> (\<forall>j. j = i \<or> cnGet True j db' = cnGet True j db)) \<and>
    (\<forall>i db' old. dpUpdate io i dp db = (None, db') \<and> dpGet True i db = Inr old \<longrightarrow>
      dpGet True i db' = Inr (dp\<lparr>dp_ID := i, dp_DeviceID := dp_DeviceID old\<rparr>))"
proof (intro conjI allI impI)
  fix i db' assume "dpCreate io dp db = (Inr i, db')"
  note s = confOk_dpCreate [OF assms this]
  then show "dpGet True i db' = Inr (dp\<lparr>dp_ID := i\<rparr>)" "dpGet True i db = Inl ErrNotFound"
    by (simp_all add: dpGet_def)
  show "j = i \<or> dpGet True j db' = dpGet True j db" for j using s by (simp add: dpGet_def)
next
  fix i db' assume "dvCreate io d db = (Inr i, db')"
  note s = confOk_dvCreate [OF assms this]
  then show "dvGet True i db' = Inr (d\<lparr>dv_ID := i\<rparr>)" "dvGet True i db = Inl ErrNotFound"
    by (simp_all add: dvGet_def)
  show "j = i \<or> dvGet True j db' = dvGet True j db" for j using s by (simp add: dvGet_def)
next
  fix i db' assume "cnCreate io c db = (Inr i, db')"
  note s = confOk_cnCreate [OF assms this]
  then show "cnGet True i db' = Inr (c\<lparr>cn_ID := i\<rparr>)" "cnGet True i db = Inl ErrNotFound"
    by (simp_all add: cnGet_def)
  show "j = i \<or> cnGet True j db' = cnGet True j db" for j using s by (simp add: cnGet_def)
next
  fix i db' old assume u: "dpUpdate io i dp db = (None, db') \<and> dpGet True i db = Inr old"
  from u have u1: "dpUpdate io i dp db = (None, db')" and u2: "dpGet True i db = Inr old" by auto
  obtain r where r: "map_of (cf_datapoint db) i = Some r" "old = scanDataPoint (i, r)"
    using u2 by (auto simp: dpGet_def split: option.splits)
  with confOk_dpUpdate(2) [OF assms u1] show "dpGet True i db' = Inr (dp\<lparr>dp_ID := i, dp_DeviceID := dp_DeviceID old\<rparr>)"
    by (auto simp: dpGet_def)
      (simp add: scanDataPoint_def dataPointRow_def nullable_def nullString_def boolToInt_def)
qed

theorem repositories_round_trip_witness:
  "dpGet True 2 (snd (dpCreate True samplePoint sampleConf)) = Inr (samplePoint\<lparr>dp_ID := 2\<rparr>)"
proof -
  have "dpCreate True samplePoint sampleConf = (Inr 2, snd (dpCreate True samplePoint sampleConf))"
    by (simp add: sampleConf_eval dpCreate_def hasRow_def samplePoint_def Let_def)
  with repositories_round_trip [OF sampleConf_ok, where io = True and dp = samplePoint] show ?thesis by blast
qed

text \<open>
  Deletion respects references. A connection that a device uses is never deleted (the answer is
  \<^verbatim>\<open>ErrInUse\<close> and nothing changes); deleting a device removes the device and exactly its own
  data points.
\<close>

theorem deletion_respects_references:
  "(\<forall>j r. (j, r) \<in> set (cf_device db) \<and> dvr_connection_id r = i \<longrightarrow> cnDelete True io i db = (Some ErrInUse, db)) \<and>
   (\<forall>db'. dvDelete io i db = (None, db') \<longrightarrow>
      cf_datapoint db' = filter (\<lambda>(k, r). dpr_device_id r \<noteq> i) (cf_datapoint db) \<and>
      map_of (cf_device db') = (map_of (cf_device db))(i := None) \<and> cf_connection db' = cf_connection db)"
proof (intro conjI allI impI)
  fix j r assume "(j, r) \<in> set (cf_device db) \<and> dvr_connection_id r = i"
  then have "cnInUse i db" by (auto simp: cnInUse_def filter_empty_conv)
  then show "cnDelete True io i db = (Some ErrInUse, db)" by (simp add: cnDelete_def)
qed (auto simp: dvDelete_def fun_eq_iff map_of_rowDelete split: if_splits)

theorem deletion_respects_references_witness:
  "cnDelete True True 1 sampleConf = (Some ErrInUse, sampleConf)"
proof -
  have "(1, deviceRow sampleDevice) \<in> set (cf_device sampleConf) \<and> dvr_connection_id (deviceRow sampleDevice) = 1"
    by (simp add: sampleConf_eval deviceRow_def sampleDevice_def)
  with deletion_respects_references [of sampleConf 1 True] show ?thesis by blast
qed

text \<open>
  Device ids are reused. When a device is created, deleted, and another device is created, the
  new device gets the id of the deleted one: queued readings of the old device then carry the id of
  the new one.
\<close>

theorem device_id_reused:
  assumes "confOk db" "dvCreate True d db = (Inr i, db1)" "dvDelete True i db1 = (None, db2)"
    and "hasRow (dv_ConnectionID d') (cf_connection db)"
  shows "fst (dvCreate True d' db2) = Inr i"
proof -
  have i: "i = maxRowid (cf_device db) + 1"
    and db1: "db1 = db\<lparr>cf_device := cf_device db @ [(i, deviceRow d)]\<rparr>"
    using assms(2) by (auto simp: dvCreate_def Let_def split: if_splits)
  have fresh: "j \<noteq> i" if "(j, r) \<in> set (cf_device db)" for j r
    using maxRowid_ge [OF that] i by simp
  have "rowDelete i (cf_device db @ [(i, deviceRow d)]) = cf_device db"
    using fresh by (auto simp: rowDelete_def filter_id_conv)
  then have "cf_device db2 = cf_device db" "cf_connection db2 = cf_connection db"
    using assms(3) by (auto simp: dvDelete_def db1 split: if_splits)
  with assms(4) i show ?thesis by (simp add: dvCreate_def Let_def)
qed

theorem device_id_reused_witness:
  "fst (dvCreate True sampleDevice (snd (dvDelete True 2 (snd (dvCreate True sampleDevice sampleConf))))) = Inr 2"
proof -
  have c: "dvCreate True sampleDevice sampleConf = (Inr 2, snd (dvCreate True sampleDevice sampleConf))"
    by (simp add: sampleConf_eval dvCreate_def hasRow_def maxRowid_def sampleDevice_def Let_def)
  have d: "dvDelete True 2 (snd (dvCreate True sampleDevice sampleConf)) =
      (None, snd (dvDelete True 2 (snd (dvCreate True sampleDevice sampleConf))))"
    by (simp add: sampleConf_eval dvCreate_def dvDelete_def hasRow_def maxRowid_def sampleDevice_def Let_def)
  have "hasRow (dv_ConnectionID sampleDevice) (cf_connection sampleConf)"
    by (simp add: sampleConf_eval hasRow_def sampleDevice_def)
  from device_id_reused [OF sampleConf_ok c d this] show ?thesis .
qed

end
