(* ===== verification/Acquisition.thy ===== *)
theory Acquisition
  imports ConfigDb
begin

text \<open>
  Acquisition, \<^verbatim>\<open>src/internal/acquisition\<close>: the plan of block reads
  (\<^verbatim>\<open>blockplan.go\<close>), one polling pass over the devices of a connection
  (\<^verbatim>\<open>poller.go\<close>), the caches fed by it (\<^verbatim>\<open>latest.go\<close>, \<^verbatim>\<open>internal/status\<close>,
  \<^verbatim>\<open>internal/diagnostics\<close>), and the supervision of the pollers (\<^verbatim>\<open>manager.go\<close>).

  Register addresses and quantities are 16-bit words and their arithmetic wraps, as in Go. Two
  things the Go library leaves open are arguments: the order in which a map is traversed
  (\<open>order\<close>) and the result of \<^verbatim>\<open>sort.Slice\<close> among equal addresses (\<open>srt\<close>).

  The results: the plan covers every data point of a known type exactly once, in blocks a device
  can serve, and inside its block as long as no register range reaches the end of the address
  space; a point merged into a block at the end of the address space is lost; a reading has a value
  exactly when its quality is \<^verbatim>\<open>GOOD\<close>; a pass emits one reading per planned
  data point; reloading makes the running pollers match the configuration.
\<close>

section \<open>Block reads\<close>

definition maxRegistersPerBlock :: uint16 where "maxRegistersPerBlock = 125"
definition maxGapRegisters :: uint16 where "maxGapRegisters = 8"

record readBlock =
  rb_functionCode :: byte
  rb_startAddress :: uint16
  rb_quantity :: uint16
  rb_points :: "dataPoint list"

definition singleBlock :: "byte \<Rightarrow> uint16 \<Rightarrow> dataPoint \<Rightarrow> readBlock" where
  "singleBlock fc qty dp =
     \<lparr>rb_functionCode = fc, rb_startAddress = dp_RegisterAddress dp, rb_quantity = qty, rb_points = [dp]\<rparr>"

fun coilBlocks :: "byte \<Rightarrow> dataPoint list \<Rightarrow> readBlock list" where
  "coilBlocks fc [] = []"
| "coilBlocks fc (dp # dps) =
     (case registerCount (dp_DataType dp) of
        Inl e \<Rightarrow> coilBlocks fc dps
      | Inr qty \<Rightarrow> singleBlock fc qty dp # coilBlocks fc dps)"

definition fits :: "readBlock \<Rightarrow> uint16 \<Rightarrow> dataPoint \<Rightarrow> bool" where
  "fits b qty dp \<longleftrightarrow>
     dp_RegisterAddress dp \<le> rb_startAddress b + rb_quantity b + maxGapRegisters \<and>
     (dp_RegisterAddress dp + qty) - rb_startAddress b \<le> maxRegistersPerBlock"

definition extendBlock :: "readBlock \<Rightarrow> uint16 \<Rightarrow> dataPoint \<Rightarrow> readBlock" where
  "extendBlock b qty dp =
     (let dpEnd = dp_RegisterAddress dp + qty in
      b\<lparr>rb_quantity := (if dpEnd > rb_startAddress b + rb_quantity b then dpEnd - rb_startAddress b
                       else rb_quantity b),
        rb_points := rb_points b @ [dp]\<rparr>)"

fun mergeLoop :: "byte \<Rightarrow> readBlock option \<Rightarrow> dataPoint list \<Rightarrow> readBlock list" where
  "mergeLoop fc pending [] = (case pending of None \<Rightarrow> [] | Some b \<Rightarrow> [b])"
| "mergeLoop fc pending (dp # dps) =
     (case registerCount (dp_DataType dp) of
        Inl e \<Rightarrow> mergeLoop fc pending dps
      | Inr qty \<Rightarrow>
          (case pending of
             None \<Rightarrow> mergeLoop fc (Some (singleBlock fc qty dp)) dps
           | Some b \<Rightarrow>
               (if fits b qty dp then mergeLoop fc (Some (extendBlock b qty dp)) dps
                else b # mergeLoop fc (Some (singleBlock fc qty dp)) dps)))"

definition planGroup :: "(dataPoint list \<Rightarrow> dataPoint list) \<Rightarrow> byte \<Rightarrow> dataPoint list \<Rightarrow> readBlock list" where
  "planGroup srt fc grp =
     (if fc = 1 \<or> fc = 2 then coilBlocks fc grp else mergeLoop fc None (srt grp))"

definition planBlockReads :: "(dataPoint list \<Rightarrow> dataPoint list) \<Rightarrow> byte list \<Rightarrow> dataPoint list \<Rightarrow> readBlock list" where
  "planBlockReads srt order dps =
     concat (map (\<lambda>fc. planGroup srt fc (filter (\<lambda>dp. dp_FunctionCode dp = fc) dps)) order)"

section \<open>Readings\<close>

record acqReading =
  aq_DeviceID :: int
  aq_DeviceName :: string
  aq_DatapointID :: int
  aq_Tag :: string
  aq_Value :: "float64 option"
  aq_Quality :: quality
  aq_Unit :: string
  aq_EventTimestamp :: gotime

definition badReading :: "device \<Rightarrow> dataPoint \<Rightarrow> gotime \<Rightarrow> quality \<Rightarrow> acqReading" where
  "badReading d dp eventTime q =
     \<lparr>aq_DeviceID = dv_ID d, aq_DeviceName = dv_Name d, aq_DatapointID = dp_ID dp, aq_Tag = dp_TagName dp,
      aq_Value = None, aq_Quality = q, aq_Unit = dp_Unit dp, aq_EventTimestamp = eventTime\<rparr>"

definition decodeAndEmit :: "device \<Rightarrow> dataPoint \<Rightarrow> byte list \<Rightarrow> uint16 \<Rightarrow> gotime \<Rightarrow> acqReading" where
  "decodeAndEmit d dp raw blockStart eventTime =
     (case byteWidth (dp_DataType dp) of
        Inl e \<Rightarrow> badReading d dp eventTime Invalid
      | Inr width \<Rightarrow>
          (let offset = unat (dp_RegisterAddress dp - blockStart) * 2 in
           if offset + width > length raw then badReading d dp eventTime Invalid
           else case decode (take width (drop offset raw)) (dp_DataType dp) (dp_ByteOrder dp) of
                  Inl e \<Rightarrow> badReading d dp eventTime Invalid
                | Inr decoded \<Rightarrow>
                    \<lparr>aq_DeviceID = dv_ID d, aq_DeviceName = dv_Name d, aq_DatapointID = dp_ID dp,
                     aq_Tag = dp_TagName dp, aq_Value = Some (applyScale decoded (dp_Scale dp) (dp_Offset dp)),
                     aq_Quality = Good, aq_Unit = dp_Unit dp, aq_EventTimestamp = eventTime\<rparr>))"

definition emitDeviceOffline :: "device \<Rightarrow> dataPoint list \<Rightarrow> gotime \<Rightarrow> go_error \<Rightarrow> acqReading list" where
  "emitDeviceOffline d dps now err = map (\<lambda>dp. badReading d dp now (qualityFromError (Some err))) dps"

section \<open>Diagnostics, latest values, device status\<close>

record diagStore =
  dg_tx :: int
  dg_rx :: int
  dg_timeouts :: int
  dg_crcErrors :: int
  dg_retries :: int
  dg_responseTotalNs :: int
  dg_responseCount :: int

record diagSnapshot =
  sn_TXCount :: int
  sn_RXCount :: int
  sn_TimeoutCount :: int
  sn_CRCErrorCount :: int
  sn_RetryCount :: int
  sn_AvgResponseTimeMs :: float64

definition newDiag :: diagStore where
  "newDiag = \<lparr>dg_tx = 0, dg_rx = 0, dg_timeouts = 0, dg_crcErrors = 0, dg_retries = 0,
     dg_responseTotalNs = 0, dg_responseCount = 0\<rparr>"

definition recordResult :: "quality \<Rightarrow> duration \<Rightarrow> int \<Rightarrow> diagStore \<Rightarrow> diagStore" where
  "recordResult q dur attempts s =
     (let attempts = (if attempts < 1 then 1 else attempts);
          s = s\<lparr>dg_tx := dg_tx s + attempts\<rparr>;
          s = (if attempts - 1 > 0 then s\<lparr>dg_retries := dg_retries s + (attempts - 1)\<rparr> else s)
      in case q of
           Good \<Rightarrow> s\<lparr>dg_rx := dg_rx s + 1, dg_responseTotalNs := dg_responseTotalNs s + dur,
                    dg_responseCount := dg_responseCount s + 1\<rparr>
         | Timeout \<Rightarrow> s\<lparr>dg_timeouts := dg_timeouts s + 1\<rparr>
         | CRCError \<Rightarrow> s\<lparr>dg_crcErrors := dg_crcErrors s + 1\<rparr>
         | _ \<Rightarrow> s)"

definition diagSnapshotOf :: "diagStore \<Rightarrow> diagSnapshot" where
  "diagSnapshotOf s =
     \<lparr>sn_TXCount = dg_tx s, sn_RXCount = dg_rx s, sn_TimeoutCount = dg_timeouts s,
      sn_CRCErrorCount = dg_crcErrors s, sn_RetryCount = dg_retries s,
      sn_AvgResponseTimeMs =
        (if dg_responseCount s > 0
         then f64_div (f64_div (f64_of_int (dg_responseTotalNs s)) (f64_of_int (dg_responseCount s)))
                (f64_of_int nanosPerMilli)
         else f64_of_int 0)\<rparr>"

record latestValue =
  lv_Value :: "float64 option"
  lv_Quality :: string
  lv_Unit :: string
  lv_At :: gotime

definition latestUpdate :: "int \<Rightarrow> latestValue \<Rightarrow> (int \<rightharpoonup> latestValue) \<Rightarrow> (int \<rightharpoonup> latestValue)" where
  "latestUpdate datapointID v m = m(datapointID \<mapsto> v)"

record statusInfo =
  si_Quality :: string
  si_LastSeen :: gotime
  si_LastPollDurationMs :: int
  si_DatapointsPolled :: int
  si_BlockReads :: int

definition zeroInfo :: statusInfo where
  "zeroInfo = \<lparr>si_Quality = '''', si_LastSeen = zeroTime, si_LastPollDurationMs = 0, si_DatapointsPolled = 0,
     si_BlockReads = 0\<rparr>"

definition statusUpdate :: "int \<Rightarrow> string \<Rightarrow> gotime \<Rightarrow> (int \<rightharpoonup> statusInfo) \<Rightarrow> (int \<rightharpoonup> statusInfo)" where
  "statusUpdate deviceID q seenAt m =
     (let info = (case m deviceID of Some i \<Rightarrow> i | None \<Rightarrow> zeroInfo)
      in m(deviceID \<mapsto> info\<lparr>si_Quality := q, si_LastSeen := seenAt\<rparr>))"

definition statusUpdatePollTiming :: "int \<Rightarrow> int \<Rightarrow> int \<Rightarrow> int \<Rightarrow> (int \<rightharpoonup> statusInfo) \<Rightarrow> (int \<rightharpoonup> statusInfo)" where
  "statusUpdatePollTiming deviceID durationMs datapointsPolled blockReads m =
     (let info = (case m deviceID of Some i \<Rightarrow> i | None \<Rightarrow> zeroInfo)
      in m(deviceID \<mapsto> info\<lparr>si_LastPollDurationMs := durationMs, si_DatapointsPolled := datapointsPolled,
                            si_BlockReads := blockReads\<rparr>))"

section \<open>Polling\<close>

text \<open>
  What a block read does: the readings it emits, in order, and the transport's and the counters'
  new states. \<open>dur\<close> gives the measured duration of the read of a block and \<open>ctxErr\<close> the state of its
  context after an attempt. The poller asks for no retry. \<open>ps_cycles\<close> collects the calls of
  \<^verbatim>\<open>OnPollCycle\<close>: device, duration in milliseconds, data points read, requests, event time.
\<close>

record 's poll_state =
  ps_client :: 's
  ps_diag :: diagStore
  ps_out :: "acqReading list"
  ps_readCount :: int
  ps_blockReads :: int
  ps_cycles :: "(int \<times> int \<times> int \<times> int \<times> gotime) list"

definition readOneBlock :: "'s modbus_client \<Rightarrow> (readBlock \<Rightarrow> nat \<Rightarrow> go_error option) \<Rightarrow>
    (readBlock \<Rightarrow> duration) \<Rightarrow> device \<Rightarrow> gotime \<Rightarrow>
    readBlock \<Rightarrow> 's poll_state \<Rightarrow> 's poll_state" where
  "readOneBlock c ctxErr dur d eventTime block p =
     (case readWithRetry c (ctxErr block) (functionCodeOf (rb_functionCode block)) (rb_startAddress block)
             (rb_quantity block) 0 (ps_client p) of
        (res, attempts, s) \<Rightarrow>
          (let p = p\<lparr>ps_client := s, ps_blockReads := ps_blockReads p + 1\<rparr> in
           case res of
             Inl (Some err) \<Rightarrow>
               (let q = qualityFromError (Some err) in
                p\<lparr>ps_diag := recordResult q (dur block) (int attempts) (ps_diag p),
                  ps_out := ps_out p @ map (\<lambda>dp. badReading d dp eventTime q) (rb_points block),
                  ps_readCount := ps_readCount p + int (length (rb_points block))\<rparr>)
           | Inl None \<Rightarrow>
               p\<lparr>ps_diag := recordResult Good (dur block) (int attempts) (ps_diag p),
                 ps_out := ps_out p @ map (\<lambda>dp. decodeAndEmit d dp [] (rb_startAddress block) eventTime)
                             (rb_points block),
                 ps_readCount := ps_readCount p + int (length (rb_points block))\<rparr>
           | Inr raw \<Rightarrow>
               p\<lparr>ps_diag := recordResult Good (dur block) (int attempts) (ps_diag p),
                 ps_out := ps_out p @ map (\<lambda>dp. decodeAndEmit d dp raw (rb_startAddress block) eventTime)
                             (rb_points block),
                 ps_readCount := ps_readCount p + int (length (rb_points block))\<rparr>))"

definition readDevice :: "'s modbus_client \<Rightarrow> (readBlock \<Rightarrow> nat \<Rightarrow> go_error option) \<Rightarrow> (readBlock \<Rightarrow> duration) \<Rightarrow>
    (dataPoint list \<Rightarrow> dataPoint list) \<Rightarrow> byte list \<Rightarrow> device \<Rightarrow> dataPoint list \<Rightarrow> gotime \<Rightarrow>
    's poll_state \<Rightarrow> 's poll_state" where
  "readDevice c ctxErr dur srt order d dps eventTime p =
     fold (readOneBlock c ctxErr dur d eventTime) (planBlockReads srt order dps)
       (p\<lparr>ps_readCount := 0, ps_blockReads := 0\<rparr>)"

type_synonym deviceWithPoints = "device \<times> dataPoint list"

text \<open>
  The loop of \<^verbatim>\<open>runConnectionWithClient\<close>. What it meets during one iteration is an argument:
  per device (by its id) whether the context is cancelled when its turn comes, the event time, the
  contexts and durations of its reads, the duration of the whole device and whether the context is
  cancelled during the delay after it; the map order of the plan; and the cancellations at the three
  points between devices. A loop function returns whether the poller goes on; a poller that stops has
  closed its client.
\<close>

record poll_env =
  pe_order :: "dataPoint list \<Rightarrow> byte list"
  pe_cancelled :: "int \<Rightarrow> bool"
  pe_now :: "int \<Rightarrow> gotime"
  pe_ctxErr :: "int \<Rightarrow> readBlock \<Rightarrow> nat \<Rightarrow> go_error option"
  pe_dur :: "int \<Rightarrow> readBlock \<Rightarrow> duration"
  pe_cycleMs :: "int \<Rightarrow> int"
  pe_cancelledDelay :: "int \<Rightarrow> bool"
  pe_cancelledTop :: bool
  pe_connectNow :: gotime
  pe_cancelledReconnect :: bool
  pe_cancelledYield :: bool

definition closeClient :: "'s modbus_client \<Rightarrow> 's poll_state \<Rightarrow> 's poll_state" where
  "closeClient c p = p\<lparr>ps_client := cl_Close c (ps_client p)\<rparr>"

text \<open>\<^verbatim>\<open>wait(d)\<close>: whether it ran to the end.\<close>

definition waited :: "duration \<Rightarrow> bool \<Rightarrow> bool" where
  "waited d cancelled = (if d \<le> 0 then True else \<not> cancelled)"

definition reconnectFloorDelay :: duration where "reconnectFloorDelay = nanosPerSecond"
definition cycleYieldDelay :: duration where "cycleYieldDelay = 20 * nanosPerMilli"

fun pollDevices :: "'s modbus_client \<Rightarrow> (dataPoint list \<Rightarrow> dataPoint list) \<Rightarrow> poll_env \<Rightarrow> duration \<Rightarrow>
    deviceWithPoints list \<Rightarrow> 's poll_state \<Rightarrow> bool \<times> 's poll_state" where
  "pollDevices c srt env delay [] p = (True, p)"
| "pollDevices c srt env delay ((d, dps) # devices) p =
     (if pe_cancelled env (dv_ID d) then (False, closeClient c p)
      else let p = p\<lparr>ps_client := cl_SetUnitID c (word_of_int (dv_SlaveID d)) (ps_client p)\<rparr>;
               now = pe_now env (dv_ID d);
               p = readDevice c (pe_ctxErr env (dv_ID d)) (pe_dur env (dv_ID d)) srt (pe_order env dps) d dps now p
           in if ps_readCount p > 0
              then let p = p\<lparr>ps_cycles := ps_cycles p @
                         [(dv_ID d, pe_cycleMs env (dv_ID d), ps_readCount p, ps_blockReads p, now)]\<rparr>
                   in if waited delay (pe_cancelledDelay env (dv_ID d)) then pollDevices c srt env delay devices p
                      else (False, closeClient c p)
              else pollDevices c srt env delay devices p)"

text \<open>One iteration: whether the poller goes on, whether the connection is open, the state.\<close>

definition pollIteration :: "'s modbus_client \<Rightarrow> (dataPoint list \<Rightarrow> dataPoint list) \<Rightarrow> connection \<Rightarrow>
    deviceWithPoints list \<Rightarrow> poll_env \<Rightarrow> bool \<Rightarrow> 's poll_state \<Rightarrow> bool \<times> bool \<times> 's poll_state" where
  "pollIteration c srt conn devices env isOpen p =
     (let delay = durationOf (cn_NextDeviceDelayMs conn) nanosPerMilli in
      if pe_cancelledTop env then (False, isOpen, closeClient c p)
      else case (if isOpen then (None, ps_client p) else cl_Connect c (ps_client p)) of
        (Some err, s) \<Rightarrow>
          (let p = p\<lparr>ps_client := s, ps_out := ps_out p @
                 concat (map (\<lambda>(d, dps). emitDeviceOffline d dps (pe_connectNow env) err) devices)\<rparr>
           in if waited reconnectFloorDelay (pe_cancelledReconnect env) then (True, False, p)
              else (False, False, closeClient c p))
      | (None, s) \<Rightarrow>
          (case pollDevices c srt env delay devices (p\<lparr>ps_client := s\<rparr>) of
             (False, p) \<Rightarrow> (False, True, p)
           | (True, p) \<Rightarrow>
               (if waited cycleYieldDelay (pe_cancelledYield env) then (True, True, p)
                else (False, True, closeClient c p))))"

text \<open>The poller over a sequence of iterations, until it stops.\<close>

fun runConnectionLoop :: "'s modbus_client \<Rightarrow> (dataPoint list \<Rightarrow> dataPoint list) \<Rightarrow> connection \<Rightarrow>
    deviceWithPoints list \<Rightarrow> poll_env list \<Rightarrow> bool \<Rightarrow> 's poll_state \<Rightarrow> 's poll_state" where
  "runConnectionLoop c srt conn devices [] isOpen p = p"
| "runConnectionLoop c srt conn devices (env # envs) isOpen p =
     (case pollIteration c srt conn devices env isOpen p of
        (goesOn, isOpen, p) \<Rightarrow>
          (if goesOn then runConnectionLoop c srt conn devices envs isOpen p else p))"

text \<open>\<^verbatim>\<open>BuildClient\<close>: which transport a connection gets, with its parameters.\<close>

record tcpConfig =
  tcp_Address :: string
  tcp_Timeout :: duration

record rtuConfig =
  rtu_Interface :: string
  rtu_BaudRate :: int
  rtu_DataBits :: int
  rtu_Parity :: string
  rtu_StopBits :: int
  rtu_Timeout :: duration

datatype clientSpec = TCPClient tcpConfig | RTUClient rtuConfig

fun decimalNat :: "nat \<Rightarrow> nat \<Rightarrow> string" where
  "decimalNat 0 n = []"
| "decimalNat (Suc k) n =
     (if n < 10 then [char_of (48 + n)] else decimalNat k (n div 10) @ [char_of (48 + n mod 10)])"

definition decimal :: "int \<Rightarrow> string" where
  "decimal i = (if i < 0 then ''-'' else []) @ decimalNat 20 (nat \<bar>i\<bar>)"

definition buildClient :: "connection \<Rightarrow> string + clientSpec" where
  "buildClient c =
     (let timeout = durationOf (cn_TimeoutMs c) nanosPerMilli in
      if cn_Protocol c = ''TCP''
      then (if cn_IPAddress c = [] then Inl ''TCP connection has no ip_address configured''
            else Inr (TCPClient \<lparr>tcp_Address = cn_IPAddress c @ '':'' @ decimal (cn_Port c), tcp_Timeout = timeout\<rparr>))
      else if cn_Protocol c = ''RTU''
      then (if cn_Interface c = [] then Inl ''RTU connection has no interface configured''
            else Inr (RTUClient \<lparr>rtu_Interface = cn_Interface c, rtu_BaudRate = cn_BaudRate c,
                   rtu_DataBits = cn_DataBits c, rtu_Parity = cn_Parity c, rtu_StopBits = cn_StopBits c,
                   rtu_Timeout = timeout\<rparr>))
      else Inl ''unknown protocol'')"

section \<open>The manager\<close>

record runningConnection =
  rc_conn :: connection
  rc_devices :: "deviceWithPoints list"

type_synonym running = "int \<rightharpoonup> runningConnection"

definition addDevice :: "confdb \<Rightarrow> device \<Rightarrow> running \<Rightarrow> running" where
  "addDevice db d wanted =
     (case map_of (map (\<lambda>c. (cn_ID c, c)) (cnListEnabled db)) (dv_ConnectionID d) of
        None \<Rightarrow> wanted
      | Some conn \<Rightarrow>
          (let dps = dpListEnabledByDevice (dv_ID d) db;
               rc = (case wanted (cn_ID conn) of Some rc \<Rightarrow> rc | None \<Rightarrow> \<lparr>rc_conn = conn, rc_devices = []\<rparr>)
           in wanted(cn_ID conn \<mapsto> rc\<lparr>rc_devices := rc_devices rc @ [(d, dps)]\<rparr>)))"

definition wantedConnections :: "confdb \<Rightarrow> running" where
  "wantedConnections db = fold (addDevice db) (dvListEnabled db) Map.empty"

text \<open>
  \<^verbatim>\<open>Reload\<close>: \<open>io\<close> tells whether the queries succeed. The result is the new running set, the
  connections whose poller is cancelled, and those for which one is started.
\<close>

definition reload :: "bool \<Rightarrow> confdb \<Rightarrow> running \<Rightarrow> running \<times> (int \<Rightarrow> bool) \<times> (int \<Rightarrow> bool)" where
  "reload io db run =
     (if \<not> io then (run, \<lambda>_. False, \<lambda>_. False)
      else let wanted = wantedConnections db;
               stale = (\<lambda>i. run i \<noteq> None \<and> run i \<noteq> wanted i);
               kept = (\<lambda>i. if stale i then None else run i);
               started = (\<lambda>i. wanted i \<noteq> None \<and> kept i = None)
           in (\<lambda>i. (if started i then wanted i else kept i), stale, started))"

section \<open>The plan covers the data points\<close>

definition known :: "dataPoint \<Rightarrow> bool" where
  "known dp \<longleftrightarrow> (\<exists>q. registerCount (dp_DataType dp) = Inr q)"

text \<open>The number of registers of a data point of known type.\<close>

definition regs :: "dataPoint \<Rightarrow> uint16" where
  "regs dp = (case registerCount (dp_DataType dp) of Inr q \<Rightarrow> q | Inl e \<Rightarrow> 0)"

lemma regs_values: "known dp \<Longrightarrow> regs dp = 1 \<or> regs dp = 2 \<or> regs dp = 4"
  by (auto simp: known_def regs_def registerCount_def byteWidth_def split: if_splits)

lemma registerCount_Inr: "registerCount (dp_DataType dp) = Inr q \<longleftrightarrow> known dp \<and> regs dp = q"
  by (auto simp: known_def regs_def)

lemma registerCount_Inl: "registerCount (dp_DataType dp) = Inl e \<Longrightarrow> \<not> known dp"
  by (simp add: known_def)

lemma coilBlocks_points: "concat (map rb_points (coilBlocks fc dps)) = filter known dps"
  by (induction dps) (auto simp: singleBlock_def registerCount_Inl registerCount_Inr split: sum.splits)

lemma mergeLoop_points:
  "concat (map rb_points (mergeLoop fc pending dps)) =
     (case pending of None \<Rightarrow> [] | Some b \<Rightarrow> rb_points b) @ filter known dps"
proof (induction fc pending dps rule: mergeLoop.induct)
  case (2 fc pending dp dps)
  show ?case
  proof (cases "registerCount (dp_DataType dp)")
    case (Inl e)
    then show ?thesis using 2 by (simp add: registerCount_Inl)
  next
    case (Inr q)
    then have "known dp" by (simp add: registerCount_Inr)
    then show ?thesis using 2 Inr
      by (cases pending) (auto simp: singleBlock_def extendBlock_def Let_def)
  qed
qed (auto split: option.splits)

lemma planGroup_points:
  assumes "mset (srt grp) = mset grp"
  shows "mset (concat (map rb_points (planGroup srt fc grp))) = mset (filter known grp)"
proof -
  have "mset (filter known (srt grp)) = mset (filter known grp)" using assms by (simp add: mset_filter)
  then show ?thesis
    unfolding planGroup_def using coilBlocks_points [of fc grp] mergeLoop_points [of fc None "srt grp"] by auto
qed

lemma mset_by_code:
  assumes "distinct order" "fc ` set dps \<subseteq> set order"
  shows "(\<Sum>c\<leftarrow>order. mset (filter (\<lambda>dp. fc dp = c) dps)) = mset dps"
  using assms(2)
proof (induction dps)
  case (Cons d dps)
  have "(\<Sum>c\<leftarrow>order. mset (filter (\<lambda>dp. fc dp = c) (d # dps))) =
      (\<Sum>c\<leftarrow>order. mset (filter (\<lambda>dp. fc dp = c) dps)) + (\<Sum>c\<leftarrow>order. if fc d = c then {#d#} else {#})"
    by (induction order) (auto simp: ac_simps)
  moreover have "(\<Sum>c\<leftarrow>order. if fc d = c then {#d#} else {#}) = (if fc d \<in> set order then {#d#} else {#})"
    using assms(1) by (induction order) auto
  ultimately show ?case using Cons by simp
qed simp

lemma plan_points:
  assumes "\<And>g. mset (srt g) = mset g" "distinct order" "dp_FunctionCode ` set dps \<subseteq> set order"
  shows "mset (concat (map rb_points (planBlockReads srt order dps))) = mset (filter known dps)"
proof -
  have "mset (concat (map rb_points (planBlockReads srt order dps))) =
      (\<Sum>c\<leftarrow>order. mset (concat (map rb_points (planGroup srt c (filter (\<lambda>dp. dp_FunctionCode dp = c) dps)))))"
    unfolding planBlockReads_def by (induction order) auto
  also have "\<dots> = (\<Sum>c\<leftarrow>order. mset (filter (\<lambda>dp. dp_FunctionCode dp = c) (filter known dps)))"
    using assms(1) by (simp add: planGroup_points filter_filter conj_commute)
  also have "\<dots> = mset (filter known dps)" using assms(2,3) by (intro mset_by_code) auto
  finally show ?thesis .
qed

section \<open>Blocks are within limits\<close>

lemma unat_add16: "unat a + unat b < 65536 \<Longrightarrow> unat (a + b) = unat a + unat b" for a b :: uint16
  by (simp add: unat_word_ariths)

lemma unat_sub16: "b \<le> a \<Longrightarrow> unat (a - b) = unat a - unat b" for a b :: uint16
  by (simp add: unat_sub)

text \<open>
  The blocks of one group: of the function code of the group, with at least one data point, all of
  a known type and none before the start of the block, and between 1 and 125 registers. The
  registers of a block end before the last address, unless the block has one data point only.
\<close>

definition goodBlock :: "byte \<Rightarrow> readBlock \<Rightarrow> bool" where
  "goodBlock fc b \<longleftrightarrow> rb_functionCode b = fc \<and> rb_points b \<noteq> [] \<and>
     (\<forall>dp \<in> set (rb_points b). known dp \<and> rb_startAddress b \<le> dp_RegisterAddress dp) \<and>
     1 \<le> unat (rb_quantity b) \<and> unat (rb_quantity b) \<le> 125 \<and>
     (unat (rb_startAddress b) + unat (rb_quantity b) < 65536 \<or>
      length (rb_points b) = 1 \<and> unat (rb_quantity b) \<le> 4)"

lemma singleBlock_good:
  assumes "registerCount (dp_DataType dp) = Inr qty"
  shows "goodBlock fc (singleBlock fc qty dp)"
proof -
  have k: "known dp" "regs dp = qty" using assms by (simp_all add: registerCount_Inr)
  then have "unat qty = 1 \<or> unat qty = 2 \<or> unat qty = 4" using regs_values [of dp] by auto
  with k(1) show ?thesis by (auto simp: goodBlock_def singleBlock_def)
qed

lemma fits_no_wrap:
  assumes "goodBlock fc b" "fits b qty dp" "rb_startAddress b \<le> dp_RegisterAddress dp"
  shows "unat (rb_startAddress b) + unat (rb_quantity b) < 65536"
proof (rule ccontr)
  let ?s = "unat (rb_startAddress b)" and ?q = "unat (rb_quantity b)"
  assume wraps: "\<not> ?thesis"
  with assms(1) have "?q \<le> 4" by (auto simp: goodBlock_def)
  moreover have "?s < 65536" using unsigned_less [of "rb_startAddress b"] by simp
  ultimately have "(?s + ?q + 8) mod 65536 = ?s + ?q + 8 - 65536 \<and> ?s + ?q + 8 - 65536 < ?s"
    using wraps by (auto simp: mod_if)
  moreover have "unat (rb_startAddress b + rb_quantity b + maxGapRegisters) = (?s + ?q + 8) mod 65536"
    by (simp add: unat_word_ariths maxGapRegisters_def mod_simps)
  ultimately show False
    using assms(2,3) by (simp add: fits_def word_le_nat_alt)
qed

lemma extendBlock_good:
  assumes "goodBlock fc b" "fits b qty dp" "rb_startAddress b \<le> dp_RegisterAddress dp" "known dp"
  shows "goodBlock fc (extendBlock b qty dp)"
proof -
  let ?s = "rb_startAddress b" and ?q = "rb_quantity b" and ?e = "dp_RegisterAddress dp + qty"
  note nw = fits_no_wrap [OF assms(1-3)]
  have "1 \<le> unat (?e - ?s) \<and> unat (?e - ?s) \<le> 125 \<and> unat ?s + unat (?e - ?s) < 65536" if "?s + ?q < ?e"
  proof -
    have gt: "unat ?s + unat ?q < unat ?e" using that unat_add16 [OF nw] by (simp add: word_less_nat_alt)
    then have "?s \<le> ?e" by (simp add: word_le_nat_alt)
    then have "unat (?e - ?s) = unat ?e - unat ?s" by (rule unat_sub16)
    moreover have "unat (?e - ?s) \<le> 125"
      using assms(2) by (simp add: fits_def maxRegistersPerBlock_def word_le_nat_alt)
    moreover have "unat ?e < 65536" using unsigned_less [of ?e] by simp
    ultimately show ?thesis using gt by simp
  qed
  with nw assms(1,3,4) show ?thesis
    by (auto simp: goodBlock_def extendBlock_def Let_def)
qed

lemma mergeLoop_good:
  assumes "\<forall>b. pending = Some b \<longrightarrow> goodBlock fc b \<and> (\<forall>dp \<in> set dps. rb_startAddress b \<le> dp_RegisterAddress dp)"
    and "sorted_wrt (\<lambda>x y. dp_RegisterAddress x \<le> dp_RegisterAddress y) dps"
    and "b \<in> set (mergeLoop fc pending dps)"
  shows "goodBlock fc b"
  using assms
proof (induction fc pending dps rule: mergeLoop.induct)
  case (2 fc pending dp dps)
  show ?case
  proof (cases "registerCount (dp_DataType dp)")
    case (Inl e)
    then show ?thesis using 2 by simp
  next
    case (Inr q)
    then have k: "known dp" by (simp add: registerCount_Inr)
    have sb: "goodBlock fc (singleBlock fc q dp) \<and>
        (\<forall>y \<in> set dps. rb_startAddress (singleBlock fc q dp) \<le> dp_RegisterAddress y)"
      using singleBlock_good [OF Inr] "2.prems"(2) by (simp add: singleBlock_def)
    show ?thesis
    proof (cases pending)
      case None
      then show ?thesis using "2.IH"(2) [OF Inr None] sb "2.prems"(2,3) Inr by simp
    next
      case (Some p)
      with "2.prems"(1) have p: "goodBlock fc p" "rb_startAddress p \<le> dp_RegisterAddress dp"
        "\<forall>y \<in> set dps. rb_startAddress p \<le> dp_RegisterAddress y" by auto
      have "rb_startAddress (extendBlock p q dp) = rb_startAddress p" by (simp add: extendBlock_def Let_def)
      then show ?thesis
        using "2.IH"(3) [OF Inr Some] "2.IH"(4) [OF Inr Some] extendBlock_good [OF p(1) _ p(2) k] sb p
          "2.prems"(2,3) Inr Some by (auto split: if_splits)
    qed
  qed
qed (auto split: option.splits)

lemma coilBlocks_good: "b \<in> set (coilBlocks fc dps) \<Longrightarrow> goodBlock fc b"
  by (induction dps) (auto simp: singleBlock_good split: sum.splits)

text \<open>Every block of a plan is a good block of the function code of its data points.\<close>

lemma plan_good:
  assumes "\<And>g. mset (srt g) = mset g"
    and "\<And>g. sorted_wrt (\<lambda>x y. dp_RegisterAddress x \<le> dp_RegisterAddress y) (srt g)"
    and "b \<in> set (planBlockReads srt order dps)"
  shows "goodBlock (rb_functionCode b) b"
    and "dp \<in> set (rb_points b) \<Longrightarrow> dp_FunctionCode dp = rb_functionCode b \<and> dp \<in> set dps"
proof -
  obtain fc where b: "b \<in> set (planGroup srt fc (filter (\<lambda>dp. dp_FunctionCode dp = fc) dps))"
    using assms(3) by (auto simp: planBlockReads_def)
  let ?g = "filter (\<lambda>dp. dp_FunctionCode dp = fc) dps"
  have good: "goodBlock fc b"
    using b coilBlocks_good mergeLoop_good [of None fc "srt ?g" b] assms(2) [of ?g]
    by (auto simp: planGroup_def split: if_splits)
  then have fc: "rb_functionCode b = fc" by (simp add: goodBlock_def)
  with good show "goodBlock (rb_functionCode b) b" by simp
  have "set (concat (map rb_points (planGroup srt fc ?g))) = set (filter known ?g)"
    using planGroup_points [of srt ?g fc] assms(1) [of ?g] by (metis set_mset_mset)
  then have "set (rb_points b) \<subseteq> set ?g" using b by auto
  then show "dp \<in> set (rb_points b) \<Longrightarrow> dp_FunctionCode dp = rb_functionCode b \<and> dp \<in> set dps"
    using fc by auto
qed

section \<open>Data points lie inside their block\<close>

text \<open>The register range of a data point ends before the end of the address space.\<close>

definition noWrap :: "dataPoint \<Rightarrow> bool" where
  "noWrap dp \<longleftrightarrow> unat (dp_RegisterAddress dp) + unat (regs dp) < 65536"

definition inside :: "readBlock \<Rightarrow> dataPoint \<Rightarrow> bool" where
  "inside b dp \<longleftrightarrow> rb_startAddress b \<le> dp_RegisterAddress dp \<and>
     unat (dp_RegisterAddress dp) + unat (regs dp) \<le> unat (rb_startAddress b) + unat (rb_quantity b) \<and>
     unat (rb_startAddress b) + unat (rb_quantity b) < 65536"

lemma singleBlock_inside:
  assumes "registerCount (dp_DataType dp) = Inr qty" "noWrap dp"
  shows "inside (singleBlock fc qty dp) dp"
  using assms by (simp add: inside_def singleBlock_def noWrap_def registerCount_Inr)

lemma extendBlock_inside:
  assumes "inside b x" "noWrap dp" "regs dp = qty" "rb_startAddress b \<le> dp_RegisterAddress dp"
  shows "inside (extendBlock b qty dp) dp" and "inside (extendBlock b qty dp) x"
proof -
  let ?s = "unat (rb_startAddress b)" and ?q = "unat (rb_quantity b)" and ?a = "unat (dp_RegisterAddress dp)"
  have e: "unat (dp_RegisterAddress dp + qty) = ?a + unat qty"
    using assms(2,3) by (intro unat_add16) (simp add: noWrap_def)
  have q: "unat (rb_startAddress b + rb_quantity b) = ?s + ?q"
    using assms(1) by (intro unat_add16) (simp add: inside_def)
  have le: "?s \<le> ?a" using assms(4) by (simp add: word_le_nat_alt)
  then have "rb_startAddress b \<le> dp_RegisterAddress dp + qty" using e by (simp add: word_le_nat_alt)
  then have d: "unat (dp_RegisterAddress dp + qty - rb_startAddress b) = ?a + unat qty - ?s"
    using e by (simp add: unat_sub16)
  have gt: "dp_RegisterAddress dp + qty > rb_startAddress b + rb_quantity b \<longleftrightarrow> ?a + unat qty > ?s + ?q"
    using e q by (simp add: word_less_nat_alt)
  show "inside (extendBlock b qty dp) dp" "inside (extendBlock b qty dp) x"
    using assms d gt le by (auto simp: inside_def extendBlock_def Let_def noWrap_def)
qed

lemma mergeLoop_inside:
  assumes "\<forall>b. pending = Some b \<longrightarrow> (\<forall>x \<in> set (rb_points b). inside b x) \<and>
      (\<exists>x. inside b x) \<and> (\<forall>dp \<in> set dps. rb_startAddress b \<le> dp_RegisterAddress dp)"
    and "\<forall>dp \<in> set dps. known dp \<longrightarrow> noWrap dp" and "sorted_wrt (\<lambda>x y. dp_RegisterAddress x \<le> dp_RegisterAddress y) dps"
    and "b \<in> set (mergeLoop fc pending dps)" "x \<in> set (rb_points b)"
  shows "inside b x"
  using assms
proof (induction fc pending dps rule: mergeLoop.induct)
  case (2 fc pending dp dps)
  show ?case
  proof (cases "registerCount (dp_DataType dp)")
    case (Inl e)
    then show ?thesis using 2 by simp
  next
    case (Inr q)
    then have k: "known dp" "regs dp = q" by (simp_all add: registerCount_Inr)
    with "2.prems"(2) have nw: "noWrap dp" by simp
    note sb = singleBlock_inside [OF Inr nw, of fc]
    have sb': "(\<forall>y \<in> set (rb_points (singleBlock fc q dp)). inside (singleBlock fc q dp) y) \<and>
        (\<exists>y. inside (singleBlock fc q dp) y) \<and>
        (\<forall>y \<in> set dps. rb_startAddress (singleBlock fc q dp) \<le> dp_RegisterAddress y)"
      using sb "2.prems"(3) by (auto simp: singleBlock_def)
    show ?thesis
    proof (cases pending)
      case None
      then show ?thesis using "2.IH"(2) [OF Inr None] sb' "2.prems"(2-5) Inr by simp
    next
      case (Some p)
      with "2.prems"(1) have p: "\<forall>y \<in> set (rb_points p). inside p y" "\<exists>y. inside p y"
        "rb_startAddress p \<le> dp_RegisterAddress dp" "\<forall>y \<in> set dps. rb_startAddress p \<le> dp_RegisterAddress y"
        by auto
      show ?thesis
      proof (cases "fits p q dp")
        case True
        have e: "inside (extendBlock p q dp) dp" "inside p y \<Longrightarrow> inside (extendBlock p q dp) y" for y
          using p(2) extendBlock_inside [OF _ nw k(2) p(3)] by blast+
        have "rb_points (extendBlock p q dp) = rb_points p @ [dp]"
          "rb_startAddress (extendBlock p q dp) = rb_startAddress p"
          by (simp_all add: extendBlock_def Let_def)
        with e p have "(\<forall>y \<in> set (rb_points (extendBlock p q dp)). inside (extendBlock p q dp) y) \<and>
            (\<exists>y. inside (extendBlock p q dp) y) \<and>
            (\<forall>y \<in> set dps. rb_startAddress (extendBlock p q dp) \<le> dp_RegisterAddress y)"
          by auto
        then show ?thesis using "2.IH"(3) [OF Inr Some True] "2.prems"(2-5) Inr Some True by simp
      next
        case False
        then show ?thesis
          using "2.IH"(4) [OF Inr Some False] sb' p "2.prems"(2-5) Inr Some by auto
      qed
    qed
  qed
qed (auto split: option.splits)

lemma coilBlocks_inside:
  "\<forall>dp \<in> set dps. known dp \<longrightarrow> noWrap dp \<Longrightarrow> b \<in> set (coilBlocks fc dps) \<Longrightarrow> x \<in> set (rb_points b) \<Longrightarrow> inside b x"
  by (induction dps) (auto simp: registerCount_Inr singleBlock_inside singleBlock_def inside_def noWrap_def
      split: sum.splits)

lemma plan_inside:
  assumes "\<And>g. mset (srt g) = mset g"
    and "\<And>g. sorted_wrt (\<lambda>x y. dp_RegisterAddress x \<le> dp_RegisterAddress y) (srt g)"
    and "\<forall>dp \<in> set dps. known dp \<longrightarrow> noWrap dp"
    and "b \<in> set (planBlockReads srt order dps)" "x \<in> set (rb_points b)"
  shows "inside b x"
proof -
  obtain fc where b: "b \<in> set (planGroup srt fc (filter (\<lambda>dp. dp_FunctionCode dp = fc) dps))"
    using assms(4) by (auto simp: planBlockReads_def)
  let ?g = "filter (\<lambda>dp. dp_FunctionCode dp = fc) dps"
  show ?thesis
  proof (cases "fc = 1 \<or> fc = 2")
    case True
    then show ?thesis using coilBlocks_inside [of ?g b fc x] assms(3,5) b by (auto simp: planGroup_def)
  next
    case False
    have "set (srt ?g) = set ?g" using assms(1) by (metis set_mset_mset)
    then have nw: "\<forall>dp \<in> set (srt ?g). known dp \<longrightarrow> noWrap dp" using assms(3) by auto
    show ?thesis
      using mergeLoop_inside [of None "srt ?g" b fc x] nw assms(2) [of ?g] assms(5) b False
      by (auto simp: planGroup_def)
  qed
qed

section \<open>Properties of the plan\<close>

text \<open>Sorting by address; on equal addresses the order of the input is kept.\<close>

definition addressSort :: "dataPoint list \<Rightarrow> dataPoint list" where
  "addressSort = sort_key dp_RegisterAddress"

lemma addressSort_ok:
  "mset (addressSort g) = mset g"
  "sorted_wrt (\<lambda>x y. dp_RegisterAddress x \<le> dp_RegisterAddress y) (addressSort g)"
  using sorted_sort_key [of dp_RegisterAddress g] by (simp_all add: addressSort_def sorted_map)

text \<open>
  C10: the block plan is correct. Whatever order the function codes are visited in and however equal
  addresses are sorted, the blocks contain each data point of a known type exactly once (and no
  other); every block asks for at least one and at most the 125 registers a Modbus request may
  carry, with the function code configured for all its data points; and, if no register range
  touches the end of the 16-bit address space, every data point lies within the registers its block
  reads.
\<close>

theorem plan_covers_each_point_once:
  assumes "\<And>g. mset (srt g) = mset g"
    and "\<And>g. sorted_wrt (\<lambda>x y. dp_RegisterAddress x \<le> dp_RegisterAddress y) (srt g)"
    and "distinct order" "dp_FunctionCode ` set dps \<subseteq> set order"
  shows "mset (concat (map rb_points (planBlockReads srt order dps))) = mset (filter known dps) \<and>
    (\<forall>b \<in> set (planBlockReads srt order dps).
       1 \<le> unat (rb_quantity b) \<and> unat (rb_quantity b) \<le> 125 \<and>
       (\<forall>dp \<in> set (rb_points b). dp_FunctionCode dp = rb_functionCode b)) \<and>
    ((\<forall>dp \<in> set dps. known dp \<longrightarrow> noWrap dp) \<longrightarrow>
       (\<forall>b \<in> set (planBlockReads srt order dps). \<forall>dp \<in> set (rb_points b). inside b dp))"
proof (intro conjI ballI impI)
  show "mset (concat (map rb_points (planBlockReads srt order dps))) = mset (filter known dps)"
    by (rule plan_points [OF assms(1,3,4)])
  show "1 \<le> unat (rb_quantity b)" "unat (rb_quantity b) \<le> 125" if "b \<in> set (planBlockReads srt order dps)" for b
    using plan_good(1) [OF assms(1,2) that] by (simp_all add: goodBlock_def)
  show "dp_FunctionCode dp = rb_functionCode b"
    if "b \<in> set (planBlockReads srt order dps)" "dp \<in> set (rb_points b)" for b dp
    using plan_good(2) [OF assms(1,2) that] by simp
  show "inside b dp" if "\<forall>dp \<in> set dps. known dp \<longrightarrow> noWrap dp"
    "b \<in> set (planBlockReads srt order dps)" "dp \<in> set (rb_points b)" for b dp
    using plan_inside [OF assms(1,2)] that by blast
qed

definition point :: "int \<Rightarrow> byte \<Rightarrow> uint16 \<Rightarrow> string \<Rightarrow> dataPoint" where
  "point i fc a dt = samplePoint\<lparr>dp_ID := i, dp_FunctionCode := fc, dp_RegisterAddress := a, dp_DataType := dt\<rparr>"

theorem plan_covers_each_point_once_witness:
  "mset (concat (map rb_points (planBlockReads addressSort [4, 3]
       [point 1 4 2 ''INT16'', point 2 4 1 ''FLOAT32'', point 3 3 100 ''BITS'']))) =
     {#point 1 4 2 ''INT16'', point 2 4 1 ''FLOAT32''#}"
proof -
  let ?dps = "[point 1 4 2 ''INT16'', point 2 4 1 ''FLOAT32'', point 3 3 100 ''BITS'']"
  have "filter known ?dps = [point 1 4 2 ''INT16'', point 2 4 1 ''FLOAT32'']"
    by (simp add: known_def point_def registerCount_def byteWidth_def)
  with plan_covers_each_point_once [OF addressSort_ok, of "[4, 3]" ?dps] show ?thesis
    by (simp add: point_def)
qed

text \<open>The bytes of \<open>n\<close> registers from address \<open>a\<close> on, for a device memory of 16-bit registers.\<close>

definition registerBytes :: "(nat \<Rightarrow> uint16) \<Rightarrow> nat \<Rightarrow> nat \<Rightarrow> byte list" where
  "registerBytes mem a n = concat (map (\<lambda>i. [ucast (drop_bit 8 (mem i)), ucast (mem i)]) [a..<a + n])"

lemma length_registerBytes [simp]: "length (registerBytes mem a n) = 2 * n"
  by (induction n) (simp_all add: registerBytes_def)

lemma registerBytes_split: "registerBytes mem a (m + n) = registerBytes mem a m @ registerBytes mem (a + m) n"
  using upt_add_eq_append [of a "a + m" n] by (simp add: registerBytes_def flip: add.assoc)

lemma take_drop_registerBytes:
  assumes "a \<le> b" "b + n \<le> a + q"
  shows "take (2 * n) (drop (2 * (b - a)) (registerBytes mem a q)) = registerBytes mem b n"
proof -
  define r where "r = a + q - b - n"
  have r: "q = (b - a) + (n + r)" using assms by (simp add: r_def)
  show ?thesis
    unfolding r registerBytes_split [of mem a "b - a"] registerBytes_split [of mem "a + (b - a)" n]
    using assms(1) by simp
qed

lemma byteWidth_regs:
  assumes "known dp"
  shows "\<exists>w. byteWidth (dp_DataType dp) = Inr w \<and> w = 2 * unat (regs dp)"
  using assms by (auto simp: known_def regs_def registerCount_def byteWidth_def split: if_splits)

text \<open>
  C11: a block read is as good as single reads. For a data point inside its block, decoding its part
  of the block's bytes gives exactly the reading (value, quality, everything) that a dedicated read
  of its own registers gives, for any register contents: merging requests never changes a value.
\<close>

theorem block_read_equals_single_read:
  assumes "known dp" "inside b dp"
  shows "decodeAndEmit d dp (registerBytes mem (unat (rb_startAddress b)) (unat (rb_quantity b))) (rb_startAddress b) t =
    decodeAndEmit d dp (registerBytes mem (unat (dp_RegisterAddress dp)) (unat (regs dp))) (dp_RegisterAddress dp) t"
proof -
  let ?s = "unat (rb_startAddress b)" and ?a = "unat (dp_RegisterAddress dp)" and ?n = "unat (regs dp)"
  obtain w where w: "byteWidth (dp_DataType dp) = Inr w" "w = 2 * ?n" using byteWidth_regs [OF assms(1)] by blast
  have le: "?s \<le> ?a" "?a + ?n \<le> ?s + unat (rb_quantity b)"
    using assms(2) by (auto simp: inside_def word_le_nat_alt)
  have off: "unat (dp_RegisterAddress dp - rb_startAddress b) = ?a - ?s"
    using assms(2) by (intro unat_sub16) (simp add: inside_def)
  have "(?a - ?s) * 2 + w \<le> 2 * unat (rb_quantity b)" using le w(2) by simp
  moreover have "take w (drop ((?a - ?s) * 2) (registerBytes mem ?s (unat (rb_quantity b)))) = registerBytes mem ?a ?n"
    using take_drop_registerBytes [OF le, of mem] w(2) by (simp add: mult.commute)
  moreover have "take w (registerBytes mem ?a ?n) = registerBytes mem ?a ?n" using w(2) by simp
  ultimately show ?thesis
    using w by (simp add: decodeAndEmit_def Let_def off)
qed

theorem block_read_equals_single_read_witness:
  "decodeAndEmit sampleDevice (point 1 4 3 ''UINT16'') (registerBytes (\<lambda>i. of_nat i) 1 4) 1 7 =
   decodeAndEmit sampleDevice (point 1 4 3 ''UINT16'') (registerBytes (\<lambda>i. of_nat i) 3 1) 3 7"
proof -
  let ?b = "\<lparr>rb_functionCode = 4, rb_startAddress = 1, rb_quantity = 4, rb_points = []\<rparr>"
  have "known (point 1 4 3 ''UINT16'')" "regs (point 1 4 3 ''UINT16'') = 1"
    by (simp_all add: known_def regs_def point_def registerCount_def byteWidth_def)
  moreover from this have "inside ?b (point 1 4 3 ''UINT16'')" by (simp add: inside_def point_def)
  ultimately show ?thesis
    using block_read_equals_single_read [of "point 1 4 3 ''UINT16''" ?b sampleDevice "\<lambda>i. of_nat i" 7]
    by (simp add: point_def)
qed

text \<open>
  The end of the range of a data point whose last register is 65535 wraps to 0: such a point, merged
  into a block another point has started, does not extend it, and lies outside.
\<close>

lemma merged_at_end_outside:
  assumes "goodBlock fc b" "rb_points b = x # ys" "y \<in> set ys"
    and "unat (dp_RegisterAddress y) + unat (regs y) = 65536" "length raw = 2 * unat (rb_quantity b)"
  shows "decodeAndEmit d y raw (rb_startAddress b) t = badReading d y t Invalid"
proof -
  have y: "known y" "rb_startAddress b \<le> dp_RegisterAddress y" using assms(1-3) by (auto simp: goodBlock_def)
  obtain w where w: "byteWidth (dp_DataType y) = Inr w" "w = 2 * unat (regs y)" using byteWidth_regs [OF y(1)] by blast
  have "length (rb_points b) \<noteq> 1" using assms(2,3) by auto
  then have "unat (rb_startAddress b) + unat (rb_quantity b) < 65536" using assms(1) by (simp add: goodBlock_def)
  moreover have "unat (rb_startAddress b) \<le> unat (dp_RegisterAddress y)" using y(2) by (simp add: word_le_nat_alt)
  ultimately have "unat (dp_RegisterAddress y - rb_startAddress b) * 2 + w > length raw"
    using assms(4,5) w(2) unat_sub16 [OF y(2)] by simp
  with w(1) show ?thesis by (simp add: decodeAndEmit_def Let_def)
qed

text \<open>
  C29: the plan loses the last register. Register 65535 is a legal address, but the end of a range
  that ends there wraps to 0. In any plan, a data point whose range ends at register 65535 and that is
  merged into a block another data point started is reported as \<^verbatim>\<open>INVALID\<close> without a value, whatever
  the device answers to the block; a read of its own registers gives a good reading.
\<close>

theorem plan_loses_register_65535:
  assumes "\<And>g. mset (srt g) = mset g"
    and "\<And>g. sorted_wrt (\<lambda>x y. dp_RegisterAddress x \<le> dp_RegisterAddress y) (srt g)"
    and "b \<in> set (planBlockReads srt order dps)" "rb_points b = x # ys" "y \<in> set ys"
    and "unat (dp_RegisterAddress y) + unat (regs y) = 65536"
    and "length raw = 2 * unat (rb_quantity b)"
    and "decode (registerBytes mem (unat (dp_RegisterAddress y)) (unat (regs y))) (dp_DataType y) (dp_ByteOrder y) = Inr v"
  shows "aq_Quality (decodeAndEmit d y raw (rb_startAddress b) t) = Invalid \<and>
    aq_Value (decodeAndEmit d y raw (rb_startAddress b) t) = None \<and>
    (let single = decodeAndEmit d y (registerBytes mem (unat (dp_RegisterAddress y)) (unat (regs y)))
                    (dp_RegisterAddress y) t
     in aq_Quality single = Good \<and> aq_Value single = Some (applyScale v (dp_Scale y) (dp_Offset y)))"
proof -
  note good = plan_good(1) [OF assms(1-3)]
  then have "known y" using assms(4,5) by (auto simp: goodBlock_def)
  then obtain w where "byteWidth (dp_DataType y) = Inr w" "w = 2 * unat (regs y)" using byteWidth_regs by blast
  then show ?thesis
    using merged_at_end_outside [OF good assms(4-7)] assms(8)
    by (simp add: decodeAndEmit_def badReading_def Let_def)
qed

lemma plan_at_end:
  "planBlockReads addressSort [3] [point 1 3 65526 ''INT16'', point 2 3 65535 ''INT16''] =
     [\<lparr>rb_functionCode = 3, rb_startAddress = 65526, rb_quantity = 1,
       rb_points = [point 1 3 65526 ''INT16'', point 2 3 65535 ''INT16'']\<rparr>]"
proof -
  have "registerCount ''INT16'' = Inr 1" by (simp add: registerCount_def byteWidth_def)
  moreover have "addressSort [point 1 3 65526 ''INT16'', point 2 3 65535 ''INT16''] =
      [point 1 3 65526 ''INT16'', point 2 3 65535 ''INT16'']"
    by (simp add: addressSort_def point_def)
  ultimately show ?thesis
    by (simp add: planBlockReads_def planGroup_def point_def fits_def extendBlock_def singleBlock_def
        maxGapRegisters_def maxRegistersPerBlock_def Let_def)
qed

theorem plan_loses_register_65535_witness:
  "aq_Quality (decodeAndEmit sampleDevice (point 2 3 65535 ''INT16'') [0, 7] 65526 9) = Invalid \<and>
   aq_Quality (decodeAndEmit sampleDevice (point 2 3 65535 ''INT16'') [0, 7] 65535 9) = Good"
proof -
  let ?y = "point 2 3 65535 ''INT16''"
  let ?b = "\<lparr>rb_functionCode = 3, rb_startAddress = 65526, rb_quantity = 1,
    rb_points = [point 1 3 65526 ''INT16'', ?y]\<rparr>"
  have y: "unat (dp_RegisterAddress ?y) = 65535" "unat (regs ?y) = 1"
    by (simp_all add: point_def regs_def registerCount_def byteWidth_def)
  have bytes: "registerBytes (\<lambda>_. 7) 65535 1 = [0, 7]" by (simp add: registerBytes_def)
  have "decode [0, 7] (dp_DataType ?y) (dp_ByteOrder ?y) = Inr (f64_of_int (sint (ucast (be [0, 7]) :: 16 word)))"
    by (simp add: point_def samplePoint_def decode_def byteWidth_def reorder_def orderPos_def of_char_def)
  then show ?thesis
    using plan_loses_register_65535 [OF addressSort_ok, of ?b "[3]" "[point 1 3 65526 ''INT16'', ?y]"
        "point 1 3 65526 ''INT16''" "[?y]" ?y "[0, 7]" "\<lambda>_. 7"] plan_at_end y bytes
    by (simp add: point_def Let_def)
qed

section \<open>Readings of a pass\<close>

definition wellFormed :: "gotime \<Rightarrow> acqReading \<Rightarrow> bool" where
  "wellFormed t r \<longleftrightarrow> (aq_Value r = None \<longleftrightarrow> aq_Quality r \<noteq> Good) \<and> aq_EventTimestamp r = t"

lemma qualityFromError_notGood: "qualityFromError (Some e) \<noteq> Good"
  by (auto simp: qualityFromError_def Let_def)

lemma badReading_wf: "q \<noteq> Good \<Longrightarrow> wellFormed t (badReading d dp t q)"
  by (simp add: wellFormed_def badReading_def)

lemma decodeAndEmit_wf: "wellFormed t (decodeAndEmit d dp raw start t)"
  by (auto simp: decodeAndEmit_def wellFormed_def badReading_def Let_def split: sum.splits)

text \<open>What a reading is about, and what a data point of a device is about.\<close>

definition readingKey :: "acqReading \<Rightarrow> int \<times> int" where
  "readingKey r = (aq_DeviceID r, aq_DatapointID r)"

definition pointKey :: "device \<Rightarrow> dataPoint \<Rightarrow> int \<times> int" where
  "pointKey d dp = (dv_ID d, dp_ID dp)"

lemma decodeAndEmit_ids [simp]:
  "readingKey (decodeAndEmit d dp raw start t) = pointKey d dp" "readingKey (badReading d dp t q) = pointKey d dp"
  by (auto simp: readingKey_def pointKey_def decodeAndEmit_def badReading_def Let_def split: sum.splits)

lemma readOneBlock_out:
  "\<exists>rs. ps_out (readOneBlock c ctxErr dur d t b p) = ps_out p @ rs \<and> list_all (wellFormed t) rs \<and>
     map readingKey rs = map (pointKey d) (rb_points b) \<and>
     ps_readCount (readOneBlock c ctxErr dur d t b p) = ps_readCount p + int (length (rb_points b)) \<and>
     ps_blockReads (readOneBlock c ctxErr dur d t b p) = ps_blockReads p + 1"
proof -
  obtain res n s where r: "readWithRetry c (ctxErr b) (functionCodeOf (rb_functionCode b)) (rb_startAddress b)
      (rb_quantity b) 0 (ps_client p) = (res, n, s)" using prod_cases3 by blast
  show ?thesis
    by (cases res; cases "projl res")
      (auto simp: readOneBlock_def r Let_def list_all_iff decodeAndEmit_wf badReading_wf qualityFromError_notGood)
qed

lemma readBlocks_out:
  "\<exists>rs. ps_out (fold (readOneBlock c ctxErr dur d t) bs p) = ps_out p @ rs \<and> list_all (wellFormed t) rs \<and>
     map readingKey rs = map (pointKey d) (concat (map rb_points bs)) \<and>
     ps_readCount (fold (readOneBlock c ctxErr dur d t) bs p) =
       ps_readCount p + int (length (concat (map rb_points bs))) \<and>
     ps_blockReads (fold (readOneBlock c ctxErr dur d t) bs p) = ps_blockReads p + int (length bs)"
proof (induction bs arbitrary: p)
  case (Cons b bs)
  obtain rs1 where 1: "ps_out (readOneBlock c ctxErr dur d t b p) = ps_out p @ rs1" "list_all (wellFormed t) rs1"
    "map readingKey rs1 = map (pointKey d) (rb_points b)"
    "ps_readCount (readOneBlock c ctxErr dur d t b p) = ps_readCount p + int (length (rb_points b))"
    "ps_blockReads (readOneBlock c ctxErr dur d t b p) = ps_blockReads p + 1"
    using readOneBlock_out by blast
  from Cons.IH [of "readOneBlock c ctxErr dur d t b p"] obtain rs2 where
    "ps_out (fold (readOneBlock c ctxErr dur d t) bs (readOneBlock c ctxErr dur d t b p)) =
       ps_out (readOneBlock c ctxErr dur d t b p) @ rs2" "list_all (wellFormed t) rs2"
    "map readingKey rs2 = map (pointKey d) (concat (map rb_points bs))"
    "ps_readCount (fold (readOneBlock c ctxErr dur d t) bs (readOneBlock c ctxErr dur d t b p)) =
       ps_readCount (readOneBlock c ctxErr dur d t b p) + int (length (concat (map rb_points bs)))"
    "ps_blockReads (fold (readOneBlock c ctxErr dur d t) bs (readOneBlock c ctxErr dur d t b p)) =
       ps_blockReads (readOneBlock c ctxErr dur d t b p) + int (length bs)"
    by blast
  with 1 show ?case by (intro exI [of _ "rs1 @ rs2"]) simp
qed simp

lemma readDevice_out:
  assumes "\<And>g. mset (srt g) = mset g" "distinct order" "dp_FunctionCode ` set dps \<subseteq> set order"
  shows "\<exists>rs. ps_out (readDevice c ctxErr dur srt order d dps t p) = ps_out p @ rs \<and> list_all (wellFormed t) rs \<and>
     mset (map readingKey rs) = mset (map (pointKey d) (filter known dps)) \<and>
     ps_readCount (readDevice c ctxErr dur srt order d dps t p) = int (length (filter known dps)) \<and>
     ps_blockReads (readDevice c ctxErr dur srt order d dps t p) = int (length (planBlockReads srt order dps))"
proof -
  let ?p = "p\<lparr>ps_readCount := 0, ps_blockReads := 0\<rparr>" and ?bs = "planBlockReads srt order dps"
  obtain rs where "ps_out (fold (readOneBlock c ctxErr dur d t) ?bs ?p) = ps_out ?p @ rs" "list_all (wellFormed t) rs"
    "map readingKey rs = map (pointKey d) (concat (map rb_points ?bs))"
    "ps_readCount (fold (readOneBlock c ctxErr dur d t) ?bs ?p) = 0 + int (length (concat (map rb_points ?bs)))"
    "ps_blockReads (fold (readOneBlock c ctxErr dur d t) ?bs ?p) = 0 + int (length ?bs)"
    using readBlocks_out [of c ctxErr dur d t ?bs ?p] by auto
  moreover have m: "mset (concat (map rb_points ?bs)) = mset (filter known dps)"
    by (rule plan_points [OF assms])
  moreover have "mset (map (pointKey d) (concat (map rb_points ?bs))) = mset (map (pointKey d) (filter known dps))"
    by (metis m mset_map)
  moreover have "length (concat (map rb_points ?bs)) = length (filter known dps)" by (metis m size_mset)
  ultimately show ?thesis unfolding readDevice_def by (intro exI [of _ rs]) simp
qed

text \<open>
  What one pass over a device reports. Whatever the transport answers, the pass emits exactly
  one reading for each data point of a known type of that device (and none for the others), all stamped with the
  pass's event time; a reading carries a value exactly when its quality is \<^verbatim>\<open>GOOD\<close>, so that
  no stale or default value is ever reported as good; and it counts the data points read and the
  requests made.
\<close>

theorem pass_emits_one_reading_per_point:
  assumes "\<And>g. mset (srt g) = mset g" "distinct order" "dp_FunctionCode ` set dps \<subseteq> set order"
    and "ps_out p = []"
  shows "let p' = readDevice c ctxErr dur srt order d dps t p in
    mset (map readingKey (ps_out p')) = mset (map (pointKey d) (filter known dps)) \<and>
    list_all (\<lambda>r. (aq_Value r = None \<longleftrightarrow> aq_Quality r \<noteq> Good) \<and> aq_EventTimestamp r = t) (ps_out p') \<and>
    ps_readCount p' = int (length (filter known dps)) \<and>
    ps_blockReads p' = int (length (planBlockReads srt order dps))"
  using readDevice_out [OF assms(1-3), of c ctxErr dur d t p] assms(4)
  unfolding Let_def wellFormed_def [abs_def] by force

definition samplePoll :: "(go_error + byte list) list \<Rightarrow> (go_error + byte list) list poll_state" where
  "samplePoll script = \<lparr>ps_client = script, ps_diag = newDiag, ps_out = [], ps_readCount = 0, ps_blockReads = 0, ps_cycles = []\<rparr>"

theorem pass_emits_one_reading_per_point_witness:
  "mset (map readingKey (ps_out (readDevice scriptClient (\<lambda>_ _. None) (\<lambda>_. 5) addressSort [4] sampleDevice
       [point 1 4 1 ''INT16'', point 2 4 2 ''INT16''] 9 (samplePoll [Inr [0, 1, 0, 2]])))) = {#(0, 1), (0, 2)#}"
proof -
  have "filter known [point 1 4 1 ''INT16'', point 2 4 2 ''INT16''] = [point 1 4 1 ''INT16'', point 2 4 2 ''INT16'']"
    by (simp add: known_def point_def registerCount_def byteWidth_def)
  moreover have "pointKey sampleDevice (point i fc a dt) = (0, i)" "dp_FunctionCode (point i fc a dt) = fc"
    for i fc a dt by (simp_all add: point_def pointKey_def sampleDevice_def)
  ultimately show ?thesis
    using pass_emits_one_reading_per_point [of addressSort "[4]" "[point 1 4 1 ''INT16'', point 2 4 2 ''INT16'']"
        "samplePoll [Inr [0, 1, 0, 2]]" scriptClient "\<lambda>_ _. None" "\<lambda>_. 5" sampleDevice 9]
    by (simp add: addressSort_ok samplePoll_def Let_def)
qed

section \<open>The poller's loop\<close>

definition envOk :: "poll_env \<Rightarrow> deviceWithPoints list \<Rightarrow> bool" where
  "envOk env devices \<longleftrightarrow>
     (\<forall>(d, dps) \<in> set devices. distinct (pe_order env dps) \<and> dp_FunctionCode ` set dps \<subseteq> set (pe_order env dps))"

definition undisturbed :: "poll_env \<Rightarrow> deviceWithPoints list \<Rightarrow> bool" where
  "undisturbed env devices \<longleftrightarrow> \<not> pe_cancelledTop env \<and>
     (\<forall>(d, dps) \<in> set devices. \<not> pe_cancelled env (dv_ID d) \<and> \<not> pe_cancelledDelay env (dv_ID d))"

text \<open>The data points of a connection: all of them, and those of a known type.\<close>

definition allKeys :: "deviceWithPoints list \<Rightarrow> (int \<times> int) list" where
  "allKeys devices = concat (map (\<lambda>(d, dps). map (pointKey d) dps) devices)"

definition knownKeys :: "deviceWithPoints list \<Rightarrow> (int \<times> int) list" where
  "knownKeys devices = concat (map (\<lambda>(d, dps). map (pointKey d) (filter known dps)) devices)"

definition valueMatchesQuality :: "acqReading \<Rightarrow> bool" where
  "valueMatchesQuality r \<longleftrightarrow> (aq_Value r = None \<longleftrightarrow> aq_Quality r \<noteq> Good)"

lemma ps_out_closeClient [simp]: "ps_out (closeClient c p) = ps_out p"
  by (simp add: closeClient_def)

lemma wellFormed_value: "list_all (wellFormed t) rs \<Longrightarrow> list_all valueMatchesQuality rs"
  by (auto simp: list_all_iff wellFormed_def valueMatchesQuality_def)

lemma pollDevices_out:
  assumes srt: "\<And>g. mset (srt g) = mset g" and "envOk env devices"
    and "pollDevices c srt env delay devices p = (goesOn, p')"
  shows "\<exists>rs. ps_out p' = ps_out p @ rs \<and> list_all valueMatchesQuality rs \<and>
    set (map readingKey rs) \<subseteq> set (knownKeys devices) \<and>
    (goesOn \<longrightarrow> mset (map readingKey rs) = mset (knownKeys devices)) \<and>
    (undisturbed env devices \<longrightarrow> goesOn) \<and> (\<not> goesOn \<longrightarrow> (\<exists>s. ps_client p' = cl_Close c s))"
  using assms(2-)
proof (induction devices arbitrary: p)
  case (Cons x devices)
  obtain d dps where x: "x = (d, dps)" by fastforce
  let ?p = "p\<lparr>ps_client := cl_SetUnitID c (word_of_int (dv_SlaveID d)) (ps_client p)\<rparr>"
  let ?q = "readDevice c (pe_ctxErr env (dv_ID d)) (pe_dur env (dv_ID d)) srt (pe_order env dps) d dps
      (pe_now env (dv_ID d)) ?p"
  have ok: "distinct (pe_order env dps)" "dp_FunctionCode ` set dps \<subseteq> set (pe_order env dps)"
    and env: "envOk env devices" using Cons.prems(1) by (auto simp: envOk_def x)
  have keys: "knownKeys (x # devices) = map (pointKey d) (filter known dps) @ knownKeys devices"
    by (simp add: knownKeys_def x)
  obtain rs where rs: "ps_out ?q = ps_out p @ rs" "list_all valueMatchesQuality rs"
      "mset (map readingKey rs) = mset (map (pointKey d) (filter known dps))"
    using readDevice_out [OF srt ok, of c "pe_ctxErr env (dv_ID d)" "pe_dur env (dv_ID d)" d
        "pe_now env (dv_ID d)" ?p] wellFormed_value by auto
  have rsub: "set (map readingKey rs) \<subseteq> set (map (pointKey d) (filter known dps))"
    by (metis mset_eq_setD order_refl rs(3))
  consider (stop) "pe_cancelled env (dv_ID d)" "goesOn = False" "p' = closeClient c p"
    | (late) q where "pe_cancelledDelay env (dv_ID d)" "goesOn = False" "p' = closeClient c q" "ps_out q = ps_out p @ rs"
    | (onward) q where "pollDevices c srt env delay devices q = (goesOn, p')" "ps_out q = ps_out p @ rs"
    using Cons.prems(2) rs(1)
    by (fastforce simp: x Let_def waited_def split: if_splits)
  then show ?case
  proof cases
    case stop
    then show ?thesis by (auto simp: x undisturbed_def closeClient_def)
  next
    case (late q)
    then have "\<not> undisturbed env (x # devices)" "\<exists>s. ps_client p' = cl_Close c s"
      by (auto simp: x undisturbed_def closeClient_def)
    with late rs(2) rsub show ?thesis unfolding keys by (intro exI [of _ rs]) auto
  next
    case (onward q)
    from Cons.IH [OF env onward(1)] obtain rs' where rs': "ps_out p' = ps_out q @ rs'"
      "list_all valueMatchesQuality rs'" "set (map readingKey rs') \<subseteq> set (knownKeys devices)"
      "goesOn \<longrightarrow> mset (map readingKey rs') = mset (knownKeys devices)"
      "undisturbed env devices \<longrightarrow> goesOn" "\<not> goesOn \<longrightarrow> (\<exists>s. ps_client p' = cl_Close c s)" by blast
    then show ?thesis using rs rsub onward(2) unfolding keys
      by (intro exI [of _ "rs @ rs'"]) (auto simp: undisturbed_def)
  qed
qed (simp add: knownKeys_def)

lemma knownKeys_sub: "set (knownKeys devices) \<subseteq> set (allKeys devices)"
  by (auto simp: knownKeys_def allKeys_def)

lemma badReading_sel: "aq_Quality (badReading d dp t q) = q" "aq_Value (badReading d dp t q) = None"
  by (simp_all add: badReading_def)

lemma offline_out:
  "map readingKey (concat (map (\<lambda>(d, dps). emitDeviceOffline d dps t e) devices)) = allKeys devices"
  "list_all (\<lambda>r. aq_Quality r = qualityFromError (Some e) \<and> aq_Value r = None)
     (concat (map (\<lambda>(d, dps). emitDeviceOffline d dps t e) devices))"
  by (induction devices) (auto simp: allKeys_def emitDeviceOffline_def badReading_sel list_all_iff)

lemma pollIteration_out:
  assumes srt: "\<And>g. mset (srt g) = mset g" and env: "envOk env devices"
    and it: "pollIteration c srt conn devices env isOpen p = (goesOn, isOpen', p')"
  shows "\<exists>rs. ps_out p' = ps_out p @ rs \<and> list_all valueMatchesQuality rs \<and>
    set (map readingKey rs) \<subseteq> set (allKeys devices) \<and>
    (\<not> goesOn \<longrightarrow> (\<exists>s. ps_client p' = cl_Close c s)) \<and>
    (undisturbed env devices \<longrightarrow>
      (case if isOpen then None else fst (cl_Connect c (ps_client p)) of
         Some err \<Rightarrow> map readingKey rs = allKeys devices \<and> \<not> isOpen' \<and>
           list_all (\<lambda>r. aq_Quality r = qualityFromError (Some err)) rs
       | None \<Rightarrow> mset (map readingKey rs) = mset (knownKeys devices) \<and> isOpen'))"
proof -
  obtain ce s where cs: "(if isOpen then (None, ps_client p) else cl_Connect c (ps_client p)) = (ce, s)"
    by fastforce
  then have ce: "(if isOpen then None else fst (cl_Connect c (ps_client p))) = ce"
    by (auto split: if_splits)
  consider (top) "pe_cancelledTop env" | (failed) err where "\<not> pe_cancelledTop env" "ce = Some err"
    | (conn) "\<not> pe_cancelledTop env" "ce = None" by (cases ce) auto
  then show ?thesis
  proof cases
    case top
    with it show ?thesis by (auto simp: pollIteration_def Let_def closeClient_def undisturbed_def)
  next
    case (failed err)
    define rs where "rs = concat (map (\<lambda>(d, dps). emitDeviceOffline d dps (pe_connectNow env) err) devices)"
    have rs: "map readingKey rs = allKeys devices"
        "list_all (\<lambda>r. aq_Quality r = qualityFromError (Some err) \<and> aq_Value r = None) rs"
      unfolding rs_def by (rule offline_out)+
    then have "list_all valueMatchesQuality rs" "list_all (\<lambda>r. aq_Quality r = qualityFromError (Some err)) rs"
      using qualityFromError_notGood by (auto simp: list_all_iff valueMatchesQuality_def)
    moreover have "ps_out p' = ps_out p @ rs \<and> \<not> isOpen' \<and> (\<not> goesOn \<longrightarrow> (\<exists>s. ps_client p' = cl_Close c s))"
      using it failed cs unfolding rs_def
      by (auto simp: pollIteration_def Let_def closeClient_def split: if_splits)
    ultimately show ?thesis using rs(1) failed(2) unfolding ce
      by (intro exI [of _ rs]) (simp del: set_map)
  next
    case conn
    obtain b q where q: "pollDevices c srt env (durationOf (cn_NextDeviceDelayMs conn) nanosPerMilli) devices
        (p\<lparr>ps_client := s\<rparr>) = (b, q)" by fastforce
    note out = pollDevices_out [OF srt env q]
    have p': "isOpen'" "ps_out p' = ps_out q" "\<not> b \<longrightarrow> \<not> goesOn \<and> p' = q"
        "\<not> goesOn \<and> b \<longrightarrow> p' = closeClient c q" "goesOn \<longrightarrow> b"
      using it conn cs q by (auto simp: pollIteration_def Let_def split: if_splits bool.splits)
    have "\<exists>s. ps_client (closeClient c q) = cl_Close c s" by (auto simp: closeClient_def)
    with p' out have cl: "\<not> goesOn \<longrightarrow> (\<exists>s. ps_client p' = cl_Close c s)" by (cases b) auto
    from out obtain rs where rs: "ps_out q = ps_out p @ rs" "list_all valueMatchesQuality rs"
      "set (map readingKey rs) \<subseteq> set (knownKeys devices)"
      "undisturbed env devices \<longrightarrow> mset (map readingKey rs) = mset (knownKeys devices)" by auto
    have "set (map readingKey rs) \<subseteq> set (allKeys devices)" using rs(3) knownKeys_sub by (rule subset_trans)
    with rs p'(1,2) cl conn(2) show ?thesis unfolding ce
      by (intro exI [of _ rs]) (simp del: set_map)
  qed
qed

lemma runConnectionLoop_out:
  assumes srt: "\<And>g. mset (srt g) = mset g" and "list_all (\<lambda>env. envOk env devices) envs"
  shows "\<exists>rs. ps_out (runConnectionLoop c srt conn devices envs isOpen p) = ps_out p @ rs \<and>
    list_all valueMatchesQuality rs \<and> set (map readingKey rs) \<subseteq> set (allKeys devices)"
  using assms(2)
proof (induction envs arbitrary: isOpen p)
  case (Cons env envs)
  obtain g o' q where it: "pollIteration c srt conn devices env isOpen p = (g, o', q)" using prod_cases3 by blast
  have env: "envOk env devices" and envs: "list_all (\<lambda>env. envOk env devices) envs" using Cons.prems by simp_all
  obtain rs1 where 1: "ps_out q = ps_out p @ rs1" "list_all valueMatchesQuality rs1"
    "set (map readingKey rs1) \<subseteq> set (allKeys devices)"
    using pollIteration_out [OF srt env it] by blast
  obtain rs2 where 2: "ps_out (runConnectionLoop c srt conn devices envs o' q) = ps_out q @ rs2"
    "list_all valueMatchesQuality rs2" "set (map readingKey rs2) \<subseteq> set (allKeys devices)"
    using Cons.IH [OF envs] by blast
  show ?case
  proof (cases g)
    case True
    then show ?thesis using 1 2 it by (intro exI [of _ "rs1 @ rs2"]) simp
  next
    case False
    then show ?thesis using 1 it by (intro exI [of _ rs1]) simp
  qed
qed simp

text \<open>
  C13: what one round of the poller reports, unless the poller is cancelled during it. If the
  transport cannot be opened, it reports each data point of each device of the connection once,
  without a value and with the quality of the connect error. Otherwise it reports each data point of
  a known type exactly once, and nothing for a data point of an unknown type: the plan skips it, and
  the decode error the comments of \<^verbatim>\<open>blockplan.go\<close> announce never surfaces. Cancelled or not, a
  round reports only data points of its connection, a value exactly with quality \<^verbatim>\<open>GOOD\<close>, and a
  poller that stops has closed its client.
\<close>

theorem round_reports_known_points:
  assumes "\<And>g. mset (srt g) = mset g" and "envOk env devices"
    and "pollIteration c srt conn devices env isOpen p = (goesOn, isOpen', p')"
  shows "\<exists>rs. ps_out p' = ps_out p @ rs \<and> list_all valueMatchesQuality rs \<and>
    set (map readingKey rs) \<subseteq> set (allKeys devices) \<and>
    (\<not> goesOn \<longrightarrow> (\<exists>s. ps_client p' = cl_Close c s)) \<and>
    (undisturbed env devices \<longrightarrow>
      (case if isOpen then None else fst (cl_Connect c (ps_client p)) of
         Some err \<Rightarrow> map readingKey rs = allKeys devices \<and> \<not> isOpen' \<and>
           list_all (\<lambda>r. aq_Quality r = qualityFromError (Some err)) rs
       | None \<Rightarrow> mset (map readingKey rs) = mset (knownKeys devices) \<and> isOpen'))"
  by (rule pollIteration_out [OF assms])

definition calmEnv :: poll_env where
  "calmEnv = \<lparr>pe_order = (\<lambda>_. [1, 2, 3, 4]), pe_cancelled = (\<lambda>_. False), pe_now = (\<lambda>_. 9),
     pe_ctxErr = (\<lambda>_ _ _. None), pe_dur = (\<lambda>_ _. 5), pe_cycleMs = (\<lambda>_. 1), pe_cancelledDelay = (\<lambda>_. False),
     pe_cancelledTop = False, pe_connectNow = 9, pe_cancelledReconnect = False, pe_cancelledYield = False\<rparr>"

theorem round_reports_known_points_witness:
  "\<exists>rs. ps_out (snd (snd (pollIteration scriptClient addressSort sampleConnection
       [(sampleDevice, [point 1 4 1 ''INT16'', point 2 4 2 ''INT16'', point 3 4 3 ''BITS''])] calmEnv True
       (samplePoll [Inr [0, 1, 0, 2]])))) = [] @ rs \<and> mset (map readingKey rs) = {#(0, 1), (0, 2)#} \<and>
     set (map readingKey rs) \<subseteq> {(0, 1), (0, 2), (0, 3)}"
proof -
  let ?ds = "[(sampleDevice, [point 1 4 1 ''INT16'', point 2 4 2 ''INT16'', point 3 4 3 ''BITS''])]"
  obtain g b q where it: "pollIteration scriptClient addressSort sampleConnection ?ds calmEnv True
      (samplePoll [Inr [0, 1, 0, 2]]) = (g, b, q)" using prod_cases3 by blast
  have "envOk calmEnv ?ds" "undisturbed calmEnv ?ds" "knownKeys ?ds = [(0, 1), (0, 2)]"
    "allKeys ?ds = [(0, 1), (0, 2), (0, 3)]"
    by (simp_all add: envOk_def undisturbed_def calmEnv_def point_def knownKeys_def allKeys_def pointKey_def
        sampleDevice_def known_def registerCount_def byteWidth_def)
  moreover have "ps_out (samplePoll [Inr [0, 1, 0, 2]]) = []" by (simp add: samplePoll_def)
  ultimately show ?thesis
    using round_reports_known_points [OF addressSort_ok(1) _ it] unfolding it by auto
qed

section \<open>Supervision\<close>

definition enabledConnection :: "confdb \<Rightarrow> int \<Rightarrow> connection option" where
  "enabledConnection db i = map_of (map (\<lambda>c. (cn_ID c, c)) (cnListEnabled db)) i"

text \<open>What connection \<open>i\<close> should be polling: the given enabled devices on it, with their enabled points.\<close>

definition wantedFor :: "confdb \<Rightarrow> device list \<Rightarrow> int \<Rightarrow> runningConnection option" where
  "wantedFor db devices i =
     (case enabledConnection db i of
        None \<Rightarrow> None
      | Some conn \<Rightarrow>
          (let ds = filter (\<lambda>d. dv_ConnectionID d = i) devices
           in if ds = [] then None
              else Some \<lparr>rc_conn = conn, rc_devices = map (\<lambda>d. (d, dpListEnabledByDevice (dv_ID d) db)) ds\<rparr>))"

lemma enabledConnection_ID: "enabledConnection db i = Some c \<Longrightarrow> cn_ID c = i"
  unfolding enabledConnection_def by (auto dest: map_of_SomeD)

lemma fold_addDevice: "fold (addDevice db) devices Map.empty = wantedFor db devices"
proof (induction devices rule: rev_induct)
  case Nil
  then show ?case by (rule ext) (simp add: wantedFor_def split: option.splits)
next
  case (snoc d devices)
  show ?case
  proof (cases "enabledConnection db (dv_ConnectionID d)")
    case None
    then have "addDevice db d (wantedFor db devices) = wantedFor db devices"
      by (simp add: addDevice_def enabledConnection_def)
    moreover have "wantedFor db (devices @ [d]) i = wantedFor db devices i" for i
      using None by (auto simp: wantedFor_def Let_def split: option.splits)
    ultimately show ?thesis by (intro ext) (simp add: snoc)
  next
    case (Some conn)
    note idc = enabledConnection_ID [OF Some]
    have "addDevice db d (wantedFor db devices) i = wantedFor db (devices @ [d]) i" for i
      using Some idc by (simp add: addDevice_def flip: enabledConnection_def)
        (auto simp: wantedFor_def Let_def split: option.splits)
    then show ?thesis by (intro ext) (simp add: snoc)
  qed
qed

text \<open>
  C21: reloading. When the queries succeed, the pollers running after \<^verbatim>\<open>Reload\<close> are exactly
  those the configuration asks for: one per enabled connection with at least one enabled device,
  polling exactly its enabled devices in order, each with its enabled data points. A poller whose
  connection, devices and data points are unchanged is neither cancelled nor started again; every
  other one that was running is cancelled; a poller is started for each wanted connection that has
  none. When a query fails nothing changes. Reloading twice does nothing the second time.
\<close>

theorem reload_matches_configuration:
  "fst (reload True db run) = wantedFor db (dvListEnabled db) \<and>
   (\<forall>i. run i = wantedFor db (dvListEnabled db) i \<longleftrightarrow>
      \<not> fst (snd (reload True db run)) i \<and> \<not> snd (snd (reload True db run)) i) \<and>
   (\<forall>i. fst (snd (reload True db run)) i \<longleftrightarrow> run i \<noteq> None \<and> run i \<noteq> wantedFor db (dvListEnabled db) i) \<and>
   reload False db run = (run, \<lambda>_. False, \<lambda>_. False) \<and>
   reload True db (fst (reload True db run)) = (fst (reload True db run), \<lambda>_. False, \<lambda>_. False)"
proof -
  have w: "wantedConnections db = wantedFor db (dvListEnabled db)"
    by (simp add: wantedConnections_def fold_addDevice)
  have f: "fst (reload True db run) = wantedFor db (dvListEnabled db)" for run
    by (rule ext) (auto simp: reload_def w Let_def)
  moreover have "reload True db (wantedFor db (dvListEnabled db)) =
      (wantedFor db (dvListEnabled db), \<lambda>_. False, \<lambda>_. False)"
    by (auto simp: reload_def w Let_def fun_eq_iff)
  ultimately show ?thesis by (auto simp: reload_def w Let_def)
qed

end
