(* ===== verification/Pipeline.thy ===== *)
theory Pipeline
  imports Acquisition QueueSpec
begin

text \<open>
  From the poller to the queue: the processor (\<^verbatim>\<open>src/internal/processor/processor.go\<close>) and
  the callbacks that \<^verbatim>\<open>src/cmd/gateway/main.go\<close> gives to the acquisition manager. Each
  reading updates the device status and the latest value of its data point and, unless Store &
  Forward is disabled, is appended to the queue.

  The results: the queue receives every reading of every quality, in order, with its value and event
  time unchanged; the two caches show the last reading.
\<close>

section \<open>The processor\<close>

definition processReading :: "acqReading \<Rightarrow> store \<Rightarrow> store" where
  "processReading r =
     append_reading
       \<lparr>rd_DeviceID = word_of_int (aq_DeviceID r), rd_DatapointID = word_of_int (aq_DatapointID r),
        rd_Value = aq_Value r, rd_Quality = qualityString (aq_Quality r), rd_At = aq_EventTimestamp r\<rparr>"

section \<open>The callbacks\<close>

record gatewayState =
  gt_status :: "int \<rightharpoonup> statusInfo"
  gt_latest :: "int \<rightharpoonup> latestValue"
  gt_queue :: store

definition latestOf :: "acqReading \<Rightarrow> latestValue" where
  "latestOf r = \<lparr>lv_Value = aq_Value r, lv_Quality = qualityString (aq_Quality r), lv_Unit = aq_Unit r,
     lv_At = aq_EventTimestamp r\<rparr>"

definition onReading :: "bool \<Rightarrow> acqReading \<Rightarrow> gatewayState \<Rightarrow> gatewayState" where
  "onReading disabled r g =
     (let g = g\<lparr>gt_status := statusUpdate (aq_DeviceID r) (qualityString (aq_Quality r)) (aq_EventTimestamp r)
                 (gt_status g)\<rparr>;
          g = g\<lparr>gt_latest := latestUpdate (aq_DatapointID r) (latestOf r) (gt_latest g)\<rparr>
      in if disabled then g else g\<lparr>gt_queue := processReading r (gt_queue g)\<rparr>)"

definition onPollCycle :: "int \<times> int \<times> int \<times> int \<times> gotime \<Rightarrow> gatewayState \<Rightarrow> gatewayState" where
  "onPollCycle x g =
     (case x of (deviceID, durationMs, datapointsRead, blockReads, t) \<Rightarrow>
        g\<lparr>gt_status := statusUpdatePollTiming deviceID durationMs datapointsRead blockReads (gt_status g)\<rparr>)"

text \<open>What the queue holds for a reading.\<close>

definition queuedAs :: "acqReading \<Rightarrow> reading" where
  "queuedAs r =
     \<lparr>rd_DeviceID = word_of_int (aq_DeviceID r), rd_DatapointID = word_of_int (aq_DatapointID r),
      rd_Value = aq_Value r, rd_Quality = qualityString (aq_Quality r), rd_At = aq_EventTimestamp r\<rparr>"

section \<open>Lemmas\<close>

lemma onReading_queue:
  "gt_queue (onReading disabled r g) = (if disabled then gt_queue g else append_reading (queuedAs r) (gt_queue g))"
  by (simp add: onReading_def processReading_def queuedAs_def Let_def)

lemma fold_onReading_buf:
  "st_buf (gt_queue (fold (onReading False) rs g)) = st_buf (gt_queue g) @ map queuedAs rs \<and>
   st_unflushed (gt_queue (fold (onReading False) rs g)) = st_unflushed (gt_queue g) \<and>
   st_db (gt_queue (fold (onReading False) rs g)) = st_db (gt_queue g) \<and>
   st_appended (gt_queue (fold (onReading False) rs g)) = st_appended (gt_queue g) + int (length rs)"
  by (induction rs arbitrary: g) (simp_all add: onReading_queue append_reading_def)

lemma fold_onReading_disabled: "gt_queue (fold (onReading True) rs g) = gt_queue g"
  by (induction rs arbitrary: g) (simp_all add: onReading_queue)

lemma fold_onReading_latest:
  "gt_latest (fold (onReading disabled) rs g) i =
     (let xs = filter (\<lambda>r. aq_DatapointID r = i) rs
      in if xs = [] then gt_latest g i else Some (latestOf (last xs)))"
proof (induction rs rule: rev_induct)
  case (snoc r rs)
  then show ?case
    by (auto simp: onReading_def latestUpdate_def Let_def)
qed simp

lemma fold_onReading_status:
  "map_option (\<lambda>s. (si_Quality s, si_LastSeen s)) (gt_status (fold (onReading disabled) rs g) i) =
     (let xs = filter (\<lambda>r. aq_DeviceID r = i) rs
      in if xs = [] then map_option (\<lambda>s. (si_Quality s, si_LastSeen s)) (gt_status g i)
         else Some (qualityString (aq_Quality (last xs)), aq_EventTimestamp (last xs)))"
proof (induction rs rule: rev_induct)
  case (snoc r rs)
  then show ?case
    by (auto simp: onReading_def statusUpdate_def Let_def split: option.splits if_splits)
qed simp

text \<open>
  C20: from the poller into the queue. With Store & Forward enabled, handing the readings of a
  poller to the gateway's callback leaves the database untouched and appends to the in-memory buffer
  exactly one queue reading per reading, in order, good or bad, with the same device, data point,
  value, quality and event time; with it disabled the queue is not touched. Either way the latest
  value of each data point and the status of each device are those of their last reading.
\<close>

theorem callback_queues_every_reading:
  "st_buf (gt_queue (fold (onReading False) rs g)) = st_buf (gt_queue g) @ map queuedAs rs \<and>
   st_db (gt_queue (fold (onReading False) rs g)) = st_db (gt_queue g) \<and>
   gt_queue (fold (onReading True) rs g) = gt_queue g \<and>
   (\<forall>disabled i xs x. filter (\<lambda>r. aq_DatapointID r = i) rs = xs @ [x] \<longrightarrow>
      gt_latest (fold (onReading disabled) rs g) i = Some (latestOf x)) \<and>
   (\<forall>disabled i xs x. filter (\<lambda>r. aq_DeviceID r = i) rs = xs @ [x] \<longrightarrow>
      map_option (\<lambda>s. (si_Quality s, si_LastSeen s)) (gt_status (fold (onReading disabled) rs g) i) =
        Some (qualityString (aq_Quality x), aq_EventTimestamp x))"
  using fold_onReading_buf [of rs g]
  by (auto simp: fold_onReading_disabled fold_onReading_latest fold_onReading_status Let_def)

definition emptyGateway :: gatewayState where
  "emptyGateway = \<lparr>gt_status = Map.empty, gt_latest = Map.empty,
     gt_queue = emptyStore freshDb (withDefaults zeroOptions)\<rparr>"

theorem callback_queues_every_reading_witness:
  "gt_latest (fold (onReading False) [badReading sampleDevice samplePoint 5 Timeout,
       badReading sampleDevice samplePoint 8 CRCError] emptyGateway) (dp_ID samplePoint) =
     Some (latestOf (badReading sampleDevice samplePoint 8 CRCError))"
proof -
  let ?a = "badReading sampleDevice samplePoint 5 Timeout" and ?b = "badReading sampleDevice samplePoint 8 CRCError"
  have "filter (\<lambda>r. aq_DatapointID r = dp_ID samplePoint) [?a, ?b] = [?a] @ [?b]"
    by (simp add: badReading_def)
  with callback_queues_every_reading [of "[?a, ?b]" emptyGateway] show ?thesis by blast
qed

end
