(* ===== verification/QueueConc.thy ===== *)
theory QueueConc
  imports QueueSpec
begin

text \<open>
  The queue under concurrency. The pollers append, the flusher flushes, the forwarder reads and
  acknowledges, and the maintenance goroutine evicts, all at once. \<^verbatim>\<open>Store.mu\<close> is held only
  around the in-memory parts of an operation, never across a database transaction, so an operation is
  several atomic actions: \<^verbatim>\<open>Flush\<close> is prepare, insert, finish (and \<^verbatim>\<open>flushMu\<close> allows one
  flush at a time); \<^verbatim>\<open>Ack\<close>, \<^verbatim>\<open>discard\<close> and \<^verbatim>\<open>evictOnce\<close> are a transaction and a
  later update of the counters in memory. The relation \<open>qstep\<close> interleaves these actions freely.

  The system state adds to the store the point each operation in progress has reached, and ghost
  counts: readings accepted since the start, readings whose deletion was acknowledged, and every
  sequence number ever given out. The results: the counters and the table agree up to operations in
  progress, no reading disappears without being counted as acknowledged, evicted or dropped, and
  sequence numbers are given out in strictly increasing order.
\<close>

section \<open>Atomic actions\<close>

datatype flush_pc = Idle | Inserting "pendingChunk list" | Inserted "pendingChunk list" bool

datatype removal = Acked | Evicted | Discarded

record qsys =
  sys_store :: store
  sys_flush :: flush_pc
  sys_removed :: "(removal \<times> int \<times> int) list"
  sys_initial :: int
  sys_accepted :: int
  sys_acked :: int
  sys_seqs :: "int list"

definition memoryRemove :: "removal \<Rightarrow> int \<Rightarrow> int \<Rightarrow> store \<Rightarrow> store" where
  "memoryRemove k c n s =
     (let s = s\<lparr>st_pendingChunks := st_pendingChunks s - c, st_pendingReadings := st_pendingReadings s - n\<rparr>
      in case k of
           Acked \<Rightarrow> s
         | Evicted \<Rightarrow> s\<lparr>st_evicted := st_evicted s + n\<rparr>
         | Discarded \<Rightarrow> s\<lparr>st_dropped := st_dropped s + n\<rparr>)"

definition discardTx :: "chunk_row \<Rightarrow> queue_db \<Rightarrow> queue_db" where
  "discardTx r db =
     addMeta ''pending_readings'' (- cr_n r) (addMeta ''pending_chunks'' (- 1)
       (db\<lparr>db_chunk := filter (\<lambda>x. cr_seq x \<noteq> cr_seq r) (db_chunk db)\<rparr>))"

definition flushEnd :: "pendingChunk list \<Rightarrow> bool \<Rightarrow> store \<Rightarrow> store" where
  "flushEnd b failed s = (if failed then flushFailed s else flushWritten b s)"

inductive qstep :: "(byte list \<Rightarrow> byte list) \<Rightarrow> qsys \<Rightarrow> qsys \<Rightarrow> bool" for deflate where
  Append: "qstep deflate y
     (y\<lparr>sys_store := append_reading r (sys_store y), sys_accepted := sys_accepted y + 1\<rparr>)"
| FlushBegin: "sys_flush y = Idle \<Longrightarrow> s = flushPrepare deflate (sys_store y) \<Longrightarrow>
     qstep deflate y
       (y\<lparr>sys_store := s, sys_flush := (if st_unflushed s = [] then Idle else Inserting (st_unflushed s))\<rparr>)"
| FlushInsert: "sys_flush y = Inserting b \<Longrightarrow> insertChunks True b (st_db (sys_store y)) = Inr db \<Longrightarrow>
     qstep deflate y
       (y\<lparr>sys_store := (sys_store y)\<lparr>st_db := db\<rparr>, sys_flush := Inserted b False,
          sys_seqs := sys_seqs y @ map cr_seq (rowsOf (db_sequence (st_db (sys_store y))) b)\<rparr>)"
| FlushInsertFails: "sys_flush y = Inserting b \<Longrightarrow> qstep deflate y (y\<lparr>sys_flush := Inserted b True\<rparr>)"
| FlushFinish: "sys_flush y = Inserted b failed \<Longrightarrow>
     qstep deflate y (y\<lparr>sys_store := flushEnd b failed (sys_store y), sys_flush := Idle\<rparr>)"
| AckTx: "deleteThrough True t '''' (st_db (sys_store y)) = (Inr (c, n), db) \<Longrightarrow>
     qstep deflate y
       (y\<lparr>sys_store := (sys_store y)\<lparr>st_db := db\<rparr>, sys_removed := (Acked, c, n) # sys_removed y,
          sys_acked := sys_acked y + n\<rparr>)"
| EvictTx: "deleteThrough True t ''evicted_readings'' (st_db (sys_store y)) = (Inr (c, n), db) \<Longrightarrow>
     qstep deflate y
       (y\<lparr>sys_store := (sys_store y)\<lparr>st_db := db\<rparr>, sys_removed := (Evicted, c, n) # sys_removed y\<rparr>)"
| DiscardTx: "r \<in> set (db_chunk (st_db (sys_store y))) \<Longrightarrow>
     qstep deflate y
       (y\<lparr>sys_store := (sys_store y)\<lparr>st_db := discardTx r (st_db (sys_store y))\<rparr>,
          sys_removed := (Discarded, 1, cr_n r) # sys_removed y\<rparr>)"
| RemoveFinish: "sys_removed y = xs @ (k, c, n) # ys \<Longrightarrow>
     qstep deflate y
       (y\<lparr>sys_store := memoryRemove k c n (sys_store y), sys_removed := xs @ ys\<rparr>)"
| Bounds: "qstep deflate y (y\<lparr>sys_store := (sys_store y)\<lparr>st_oldestTs := a, st_newestTs := b\<rparr>\<rparr>)"
| Size: "qstep deflate y (y\<lparr>sys_store := refreshSize p (sys_store y)\<rparr>)"
| Sample: "qstep deflate y (y\<lparr>sys_store := sampleRate now (sys_store y)\<rparr>)"

definition startSys :: "int list \<Rightarrow> store \<Rightarrow> qsys" where
  "startSys history s =
     \<lparr>sys_store = s, sys_flush = Idle, sys_removed = [],
      sys_initial = pendingSum (st_db s) + metaInt True (st_db s) ''evicted_readings'',
      sys_accepted = 0, sys_acked = 0, sys_seqs = history\<rparr>"

definition quiescent :: "qsys \<Rightarrow> bool" where
  "quiescent y \<longleftrightarrow> sys_flush y = Idle \<and> sys_removed y = []"

section \<open>The invariant\<close>

definition uncounted :: "flush_pc \<Rightarrow> pendingChunk list" where
  "uncounted pc = (case pc of Inserted b False \<Rightarrow> b | _ \<Rightarrow> [])"

definition inFlight :: "flush_pc \<Rightarrow> pendingChunk list option" where
  "inFlight pc = (case pc of Idle \<Rightarrow> None | Inserting b \<Rightarrow> Some b | Inserted b failed \<Rightarrow> Some b)"

definition removedChunks :: "(removal \<times> int \<times> int) list \<Rightarrow> int" where
  "removedChunks xs = sum_list (map (\<lambda>(k, c, n). c) xs)"

definition removedReadings :: "(removal \<times> int \<times> int) list \<Rightarrow> int" where
  "removedReadings xs = sum_list (map (\<lambda>(k, c, n). n) xs)"

definition removedAs :: "removal \<Rightarrow> (removal \<times> int \<times> int) list \<Rightarrow> int" where
  "removedAs k xs = sum_list (map (\<lambda>(j, c, n). if j = k then n else 0) xs)"

lemmas removed_defs = removedChunks_def removedReadings_def removedAs_def

definition countersOk :: "qsys \<Rightarrow> bool" where
  "countersOk y \<longleftrightarrow>
     (let s = sys_store y; b = uncounted (sys_flush y) in
      st_pendingChunks s = pendingCount (st_db s) + removedChunks (sys_removed y) - int (length b) \<and>
      st_pendingReadings s = pendingSum (st_db s) + removedReadings (sys_removed y) - sum_list (map pc_n b) \<and>
      st_evicted s + removedAs Evicted (sys_removed y) = metaInt True (st_db s) ''evicted_readings'')"

definition balanced :: "qsys \<Rightarrow> bool" where
  "balanced y \<longleftrightarrow>
     (let s = sys_store y in
      sys_initial y + sys_accepted y + sum_list (map pc_n (uncounted (sys_flush y))) =
        int (length (st_buf s)) + sum_list (map pc_n (st_unflushed s)) + pendingSum (st_db s) +
        sys_acked y + metaInt True (st_db s) ''evicted_readings'' + st_dropped s +
        removedAs Discarded (sys_removed y))"

definition flushOk :: "qsys \<Rightarrow> bool" where
  "flushOk y \<longleftrightarrow> unflushedOk (sys_store y) \<and>
     (\<forall>b. inFlight (sys_flush y) = Some b \<longrightarrow> st_unflushed (sys_store y) = b)"

definition seqsOk :: "int list \<Rightarrow> queue_db \<Rightarrow> bool" where
  "seqsOk seqs db \<longleftrightarrow> sorted_wrt (<) seqs \<and> list_all (\<lambda>q. q \<le> db_sequence db) seqs \<and>
     set (map cr_seq (db_chunk db)) \<subseteq> set seqs"

definition sysInv :: "qsys \<Rightarrow> bool" where
  "sysInv y \<longleftrightarrow> dbInv (st_db (sys_store y)) \<and> flushOk y \<and> countersOk y \<and> balanced y \<and>
     seqsOk (sys_seqs y) (st_db (sys_store y))"

lemmas sys_defs = flushOk_def countersOk_def balanced_def unflushedOk_def Let_def

lemma pc_simps [simp]:
  "uncounted Idle = []" "uncounted (Inserting b) = []" "uncounted (Inserted b True) = []"
  "uncounted (Inserted b False) = b"
  "inFlight Idle = None" "inFlight (Inserting b) = Some b" "inFlight (Inserted b f) = Some b"
  by (simp_all add: uncounted_def inFlight_def)

lemma discardTx_spec:
  assumes "dbInv db" "r \<in> set (db_chunk db)"
  shows "dbInv (discardTx r db)" "pendingCount (discardTx r db) = pendingCount db - 1"
    "pendingSum (discardTx r db) = pendingSum db - cr_n r"
    "metaInt True (discardTx r db) ''evicted_readings'' = metaInt True db ''evicted_readings''"
    "db_sequence (discardTx r db) = db_sequence db"
    "set (map cr_seq (db_chunk (discardTx r db))) \<subseteq> set (map cr_seq (db_chunk db))"
proof -
  have one: "filter (\<lambda>x. cr_seq x = cr_seq r) (db_chunk db) = [r]"
    using assms by (intro filter_seq_unique) (auto simp: dbInv_def)
  note d = delete_rows_dbInv [OF assms(1), where P = "\<lambda>x. cr_seq x = cr_seq r" and db' = "discardTx r db"]
  show "dbInv (discardTx r db)" "pendingCount (discardTx r db) = pendingCount db - 1"
    "pendingSum (discardTx r db) = pendingSum db - cr_n r"
    "metaInt True (discardTx r db) ''evicted_readings'' = metaInt True db ''evicted_readings''"
    "db_sequence (discardTx r db) = db_sequence db"
    "set (map cr_seq (db_chunk (discardTx r db))) \<subseteq> set (map cr_seq (db_chunk db))"
    using d by (auto simp: one discardTx_def)
qed

lemma seqsOk_delete:
  "seqsOk seqs db \<Longrightarrow> db_sequence db' = db_sequence db \<Longrightarrow>
     set (map cr_seq (db_chunk db')) \<subseteq> set (map cr_seq (db_chunk db)) \<Longrightarrow> seqsOk seqs db'"
  by (auto simp: seqsOk_def)

lemma seqsOk_insert:
  assumes "seqsOk seqs db" "db_sequence db' = db_sequence db + int (length b)"
    "db_chunk db' = db_chunk db @ rowsOf (db_sequence db) b"
  shows "seqsOk (seqs @ map cr_seq (rowsOf (db_sequence db) b)) db'"
proof -
  have "db_sequence db < q \<and> q \<le> db_sequence db'" if "q \<in> set (map cr_seq (rowsOf (db_sequence db) b))" for q
    using that assms(2) by (auto dest: rowsOf_seq)
  with assms sorted_rowsOf [of "db_sequence db" b] show ?thesis
    by (fastforce simp: seqsOk_def sorted_wrt_append list_all_iff)
qed

lemma qstep_memory:
  assumes "sysInv y"
  shows "sysInv (y\<lparr>sys_store := append_reading r (sys_store y), sys_accepted := sys_accepted y + 1\<rparr>)"
    and "sysInv (y\<lparr>sys_store := (sys_store y)\<lparr>st_oldestTs := a, st_newestTs := b\<rparr>\<rparr>)"
    and "sysInv (y\<lparr>sys_store := refreshSize p (sys_store y)\<rparr>)"
    and "sysInv (y\<lparr>sys_store := sampleRate now (sys_store y)\<rparr>)"
  using assms
  by (simp_all add: sysInv_def sys_defs append_reading_def sampleRate_def store_simps)

lemma qstep_flushBegin:
  assumes "sysInv y" "sys_flush y = Idle" and s_def: "s = flushPrepare deflate (sys_store y)"
  shows "sysInv (y\<lparr>sys_store := s, sys_flush := (if st_unflushed s = [] then Idle else Inserting (st_unflushed s))\<rparr>)"
proof -
  have "accounted s = accounted (sys_store y)" by (simp add: s_def flushPrepare_ok)
  moreover have "unflushedOk s" using assms(1) by (simp add: s_def flushPrepare_ok sysInv_def flushOk_def)
  moreover have "st_db s = st_db (sys_store y)" "st_evicted s = st_evicted (sys_store y)" "st_buf s = []"
    "st_pendingChunks s = st_pendingChunks (sys_store y)"
    "st_pendingReadings s = st_pendingReadings (sys_store y)"
    by (simp_all add: s_def store_simps)
  ultimately show ?thesis
    using assms(1,2) by (auto simp: sysInv_def sys_defs accounted_def)
qed

lemma qstep_flushInsert:
  assumes "sysInv y" "sys_flush y = Inserting b"
    and "insertChunks True b (st_db (sys_store y)) = Inr db"
  shows "sysInv (y\<lparr>sys_store := (sys_store y)\<lparr>st_db := db\<rparr>, sys_flush := Inserted b False,
          sys_seqs := sys_seqs y @ map cr_seq (rowsOf (db_sequence (st_db (sys_store y))) b)\<rparr>)"
proof -
  have "dbInv (st_db (sys_store y))" "list_all (\<lambda>c. 0 < pc_n c) b"
    using assms(1,2) by (auto simp: sysInv_def flushOk_def unflushedOk_def)
  note ins = insertChunks_dbInv [OF this assms(3)]
  from assms(1) have "seqsOk (sys_seqs y) (st_db (sys_store y))" by (simp add: sysInv_def)
  from seqsOk_insert [OF this ins(3) ins(2)] ins assms(1,2) show ?thesis
    by (auto simp: sysInv_def sys_defs)
qed

lemma qstep_flushFinish:
  assumes "sysInv y" "sys_flush y = Inserted b failed"
  shows "sysInv (y\<lparr>sys_store := flushEnd b failed (sys_store y), sys_flush := Idle\<rparr>)"
proof (cases failed)
  case True
  have "accounted (flushFailed (sys_store y)) = accounted (sys_store y)"
    "unflushedOk (flushFailed (sys_store y))"
    using assms(1) by (simp_all add: flushFailed_ok sysInv_def flushOk_def)
  moreover have "st_db (flushFailed s) = st_db s" "st_evicted (flushFailed s) = st_evicted s"
    "st_pendingChunks (flushFailed s) = st_pendingChunks s" "st_buf (flushFailed s) = st_buf s"
    "st_pendingReadings (flushFailed s) = st_pendingReadings s" for s
    by (simp_all add: flushFailed_def Let_def)
  ultimately show ?thesis
    using assms True by (simp add: sysInv_def sys_defs accounted_def flushEnd_def)
next
  case False
  then show ?thesis
    using assms by (auto simp: sysInv_def sys_defs flushEnd_def flushWritten_def store_simps)
qed

lemma qstep_delete:
  assumes "sysInv y" "deleteThrough True t key (st_db (sys_store y)) = (Inr (c, n), db)"
  shows "key = '''' \<Longrightarrow> sysInv (y\<lparr>sys_store := (sys_store y)\<lparr>st_db := db\<rparr>,
      sys_removed := (Acked, c, n) # sys_removed y, sys_acked := sys_acked y + n\<rparr>)"
    and "key = ''evicted_readings'' \<Longrightarrow> sysInv (y\<lparr>sys_store := (sys_store y)\<lparr>st_db := db\<rparr>,
      sys_removed := (Evicted, c, n) # sys_removed y\<rparr>)"
proof -
  have inv: "dbInv (st_db (sys_store y))" using assms(1) by (simp add: sysInv_def)
  have sq: "seqsOk (sys_seqs y) db" if "key \<in> {'''', ''evicted_readings''}"
    using deleteThrough_spec(7,8) [OF inv assms(2) that] assms(1)
    by (auto simp: sysInv_def intro!: seqsOk_delete [where db = "st_db (sys_store y)" and db' = db])
  show "sysInv (y\<lparr>sys_store := (sys_store y)\<lparr>st_db := db\<rparr>,
      sys_removed := (Acked, c, n) # sys_removed y, sys_acked := sys_acked y + n\<rparr>)" if "key = ''''"
    using assms(1) sq deleteThrough_spec [OF inv assms(2)] that
    by (simp add: sysInv_def sys_defs removed_defs)
  show "sysInv (y\<lparr>sys_store := (sys_store y)\<lparr>st_db := db\<rparr>,
      sys_removed := (Evicted, c, n) # sys_removed y\<rparr>)" if "key = ''evicted_readings''"
    using assms(1) sq deleteThrough_spec [OF inv assms(2)] that
    by (simp add: sysInv_def sys_defs removed_defs)
qed

lemma qstep_discard:
  assumes "sysInv y" "r \<in> set (db_chunk (st_db (sys_store y)))"
  shows "sysInv (y\<lparr>sys_store := (sys_store y)\<lparr>st_db := discardTx r (st_db (sys_store y))\<rparr>,
          sys_removed := (Discarded, 1, cr_n r) # sys_removed y\<rparr>)"
proof -
  have inv: "dbInv (st_db (sys_store y))" using assms(1) by (simp add: sysInv_def)
  note d = discardTx_spec [OF inv assms(2)]
  have "seqsOk (sys_seqs y) (discardTx r (st_db (sys_store y)))"
    using assms(1) seqsOk_delete [OF _ d(5,6)] by (auto simp: sysInv_def)
  then show ?thesis using assms(1) d(1-4) by (simp add: sysInv_def sys_defs removed_defs)
qed

lemma qstep_removeFinish:
  assumes "sysInv y" "sys_removed y = xs @ (k, c, n) # ys"
  shows "sysInv (y\<lparr>sys_store := memoryRemove k c n (sys_store y), sys_removed := xs @ ys\<rparr>)"
  using assms
  by (cases k) (auto simp: sysInv_def sys_defs removed_defs memoryRemove_def)

lemma qstep_inv:
  assumes "qstep deflate y y'" "sysInv y"
  shows "sysInv y'"
  using assms
proof (cases rule: qstep.cases)
  case (FlushInsertFails b)
  then show ?thesis using assms(2) by (auto simp: sysInv_def sys_defs)
qed (simp_all only: qstep_memory qstep_flushBegin qstep_flushInsert qstep_flushFinish qstep_delete
      qstep_discard qstep_removeFinish)

lemma qsteps_inv: "(qstep deflate)\<^sup>*\<^sup>* y y' \<Longrightarrow> sysInv y \<Longrightarrow> sysInv y'"
  by (induction rule: rtranclp_induct) (auto intro: qstep_inv)

section \<open>Restarts\<close>

lemma openStore_spec:
  assumes "openStore io newID opts db = Inr s" "dbInv db" "ii_counters io"
  shows "storeInv s" "db_chunk (st_db s) = db_chunk db" "db_sequence (st_db s) = db_sequence db"
    "st_buf s = []" "st_unflushed s = []" "st_dropped s = 0"
    "db_stream_id (st_db s) = Some (st_streamID s)"
    "\<And>sid. db_stream_id db = Some sid \<Longrightarrow> st_streamID s = sid"
    "metaInt True (st_db s) ''evicted_readings'' = metaInt True db ''evicted_readings''"
    "pendingSum (st_db s) = pendingSum db" "pendingCount (st_db s) = pendingCount db"
proof -
  obtain s1 where s1: "initStream io newID (emptyStore db (withDefaults opts)) = Inr s1"
    and s: "s = refreshSize (ii_size io) (refreshBounds (ii_bounds io)
       (s1\<lparr>st_pendingChunks := metaInt True (st_db s1) ''pending_chunks'',
           st_pendingReadings := metaInt True (st_db s1) ''pending_readings'',
           st_evicted := metaInt True (st_db s1) ''evicted_readings''\<rparr>))"
    using assms(1,3) by (auto simp: openStore_def init_def split: if_splits sum.splits)
  have m: "db_chunk (st_db s1) = db_chunk db" "db_sequence (st_db s1) = db_sequence db"
    "db_meta (st_db s1) = db_meta db" "st_buf s1 = []" "st_unflushed s1 = []" "st_dropped s1 = 0"
    "db_stream_id (st_db s1) = Some (st_streamID s1)"
    "\<And>sid. db_stream_id db = Some sid \<Longrightarrow> st_streamID s1 = sid"
    using s1 by (auto simp: initStream_def emptyStore_def split: if_splits option.splits)
  then show "db_chunk (st_db s) = db_chunk db" "db_sequence (st_db s) = db_sequence db"
    "st_buf s = []" "st_unflushed s = []" "st_dropped s = 0"
    "db_stream_id (st_db s) = Some (st_streamID s)"
    "\<And>sid. db_stream_id db = Some sid \<Longrightarrow> st_streamID s = sid"
    by (simp_all add: s store_simps)
  have mi: "metaInt True (st_db s1) k = metaInt True db k" for k by (simp add: metaInt_def m)
  then show "metaInt True (st_db s) ''evicted_readings'' = metaInt True db ''evicted_readings''"
    by (simp add: s store_simps)
  show p: "pendingSum (st_db s) = pendingSum db" "pendingCount (st_db s) = pendingCount db"
    by (simp_all add: s store_simps pendingSum_def pendingCount_def m)
  have "dbInv (st_db s1)"
    using assms(2) by (simp add: inv_defs m mi)
  then show "storeInv s"
    by (simp add: s store_simps) (simp add: storeInv_def unflushedOk_def m dbInv_def metaOk_def)
qed

lemma deleteThrough_stream:
  "db_stream_id (snd (deleteThrough io t key db)) = db_stream_id db"
  by (simp add: deleteThrough_def Let_def store_simps)

lemma insertChunks_stream: "insertChunks io cs db = Inr db' \<Longrightarrow> db_stream_id db' = db_stream_id db"
  by (auto simp: insertChunks_def store_simps insertRows_eq split: if_splits)

lemma qstep_stream:
  "st_db (append_reading r s) = st_db s" "st_db (flushPrepare deflate s) = st_db s"
  "st_db (flushEnd b f s) = st_db s" "st_db (memoryRemove k c n s) = st_db s"
  "st_db (refreshSize p s) = st_db s" "st_db (sampleRate now s) = st_db s"
  "deleteThrough io t key db = (res, db') \<Longrightarrow> db_stream_id db' = db_stream_id db"
  "insertChunks io cs db = Inr db' \<Longrightarrow> db_stream_id db' = db_stream_id db"
  "db_stream_id (discardTx x db) = db_stream_id db"
  using deleteThrough_stream [of io t key db]
  by (auto simp: append_reading_def store_simps flushEnd_def flushFailed_ok flushWritten_def
      memoryRemove_def Let_def sampleRate_def discardTx_def insertChunks_stream split: removal.splits)

lemma startSys_inv:
  assumes "storeInv s" "st_buf s = []" "st_unflushed s = []" "st_dropped s = 0"
    and "seqsOk history (st_db s)"
  shows "sysInv (startSys history s)"
  using assms by (simp add: sysInv_def sys_defs startSys_def storeInv_def removed_defs)

section \<open>Properties\<close>

text \<open>
  C1: no reading is lost silently. Start the store on a database file whose counters match its
  table, and let appends, flushes, acknowledgements, evictions, discards of corrupt chunks and
  database failures interleave in any order. Whenever no operation is in progress, the figures of
  \<^verbatim>\<open>Stats\<close> account for every reading: those pending or evicted at the start plus those
  appended since are exactly those still in memory, in the table, acknowledged, evicted or
  dropped; and the pending chunk and reading counters are those of the table.
\<close>

theorem stats_account_for_every_reading:
  assumes start: "openStore io newID opts db = Inr s" "dbInv db" "ii_counters io" "seqsOk history db"
    and run: "(qstep deflate)\<^sup>*\<^sup>* (startSys history s) y" and quiet: "quiescent y"
  shows "pendingSum db + metaInt True db ''evicted_readings'' + sys_accepted y =
      qs_BufferedReadings (stats (sys_store y)) + qs_PendingReadings (stats (sys_store y)) +
      sys_acked y + qs_EvictedReadings (stats (sys_store y)) + qs_DroppedReadings (stats (sys_store y)) \<and>
    qs_PendingChunks (stats (sys_store y)) = int (length (db_chunk (st_db (sys_store y)))) \<and>
    qs_PendingReadings (stats (sys_store y)) = sum_list (map cr_n (db_chunk (st_db (sys_store y))))"
proof -
  note o = openStore_spec [OF start(1-3)]
  have "seqsOk history (st_db s)" using start(4) o(2,3) by (simp add: seqsOk_def)
  with o have "sysInv (startSys history s)" by (intro startSys_inv)
  from qsteps_inv [OF run this] have inv: "sysInv y" .
  have "sys_initial y = sys_initial (startSys history s)"
    using run by (induction rule: rtranclp_induct) (auto elim: qstep.cases)
  then have "sys_initial y = pendingSum db + metaInt True db ''evicted_readings''"
    by (simp add: startSys_def o)
  with inv quiet show ?thesis
    by (simp add: sysInv_def sys_defs quiescent_def stats_def removed_defs pendingCount_def
        pendingSum_def)
qed

theorem stats_account_for_every_reading_witness:
  "\<exists>s y. openStore \<lparr>ii_statements = True, ii_readStream = True, ii_writeStream = True,
       ii_counters = True, ii_bounds = True, ii_size = None\<rparr> ''abc'' zeroOptions freshDb = Inr s \<and>
     (qstep storedDeflate)\<^sup>*\<^sup>* (startSys [] s) y \<and> sys_accepted y = 1 \<and>
     qs_BufferedReadings (stats (sys_store y)) + qs_PendingReadings (stats (sys_store y)) +
       qs_EvictedReadings (stats (sys_store y)) + qs_DroppedReadings (stats (sys_store y)) = 1"
proof -
  let ?io = "\<lparr>ii_statements = True, ii_readStream = True, ii_writeStream = True,
       ii_counters = True, ii_bounds = True, ii_size = None\<rparr>"
  obtain s where s: "openStore ?io ''abc'' zeroOptions freshDb = Inr s"
    by (simp add: openStore_def init_def initStream_def emptyStore_def freshDb_def)
  have d: "dbInv freshDb" "seqsOk [] freshDb"
    by (simp_all add: inv_defs seqsOk_def freshDb_def metaInt_def)
  let ?y = "(startSys [] s)\<lparr>sys_store := append_reading sampleReading (sys_store (startSys [] s)),
      sys_accepted := sys_accepted (startSys [] s) + 1\<rparr>"
  have run: "(qstep storedDeflate)\<^sup>*\<^sup>* (startSys [] s) ?y" by (intro r_into_rtranclp Append)
  have q: "quiescent ?y" "sys_accepted ?y = 1" "sys_acked ?y = 0"
    by (simp_all add: quiescent_def startSys_def)
  have z: "pendingSum freshDb = 0" "metaInt True freshDb ''evicted_readings'' = 0"
    by (simp_all add: pendingSum_def freshDb_def metaInt_def)
  from stats_account_for_every_reading [OF s d(1) _ d(2) run q(1)] q z s run show ?thesis
    by (intro exI [of _ s] exI [of _ ?y]) simp
qed

text \<open>
  C16: sequence numbers are never reused. Along any such run, the sequence numbers given to chunks,
  those of the file's past included, are strictly increasing in the order they are given out, even
  though chunks are deleted meanwhile; and the counters stored in the file match its table in every
  state, also in the middle of operations, so that a process that stops anywhere leaves a file that
  can be reopened with the same stream identity and correct counters.
\<close>

theorem seqs_unique_and_restartable:
  assumes start: "openStore io newID opts db = Inr s" "dbInv db" "ii_counters io" "seqsOk history db"
    and run: "(qstep deflate)\<^sup>*\<^sup>* (startSys history s) y"
    and again: "openStore io' newID' opts' (st_db (sys_store y)) = Inr s'" "ii_counters io'"
  shows "sorted_wrt (<) (sys_seqs y) \<and> set (map cr_seq (db_chunk (st_db (sys_store y)))) \<subseteq> set (sys_seqs y) \<and>
    dbInv (st_db (sys_store y)) \<and> storeInv s' \<and> st_streamID s' = st_streamID s \<and>
    seqsOk (sys_seqs y) (st_db s')"
proof -
  note o = openStore_spec [OF start(1-3)]
  have "seqsOk history (st_db s)" using start(4) o(2,3) by (simp add: seqsOk_def)
  with o have "sysInv (startSys history s)" by (intro startSys_inv)
  from qsteps_inv [OF run this] have inv: "sysInv y" .
  then have dbi: "dbInv (st_db (sys_store y))" by (simp add: sysInv_def)
  note o' = openStore_spec [OF again(1) dbi again(2)]
  have "db_stream_id (st_db (sys_store y)) = db_stream_id (st_db s)"
    using run
  proof (induction rule: rtranclp_induct)
    case (step y z)
    from step(2) have "db_stream_id (st_db (sys_store z)) = db_stream_id (st_db (sys_store y))"
      by cases (auto simp: qstep_stream)
    with step show ?case by simp
  qed (simp add: startSys_def)
  with o(7) o'(8) have "st_streamID s' = st_streamID s" by simp
  moreover have "seqsOk (sys_seqs y) (st_db s')"
    using inv o'(2,3) by (simp add: sysInv_def seqsOk_def)
  ultimately show ?thesis using inv o' dbi by (auto simp: sysInv_def seqsOk_def)
qed

theorem seqs_unique_and_restartable_witness:
  "\<exists>s y s'. openStore \<lparr>ii_statements = True, ii_readStream = True, ii_writeStream = True,
       ii_counters = True, ii_bounds = True, ii_size = None\<rparr> ''abc'' zeroOptions freshDb = Inr s \<and>
     (qstep storedDeflate)\<^sup>*\<^sup>* (startSys [] s) y \<and>
     openStore \<lparr>ii_statements = True, ii_readStream = True, ii_writeStream = True,
       ii_counters = True, ii_bounds = True, ii_size = None\<rparr> ''xyz'' zeroOptions (st_db (sys_store y)) = Inr s' \<and>
     st_streamID s' = ''abc'' \<and> storeInv s'"
proof -
  let ?io = "\<lparr>ii_statements = True, ii_readStream = True, ii_writeStream = True,
       ii_counters = True, ii_bounds = True, ii_size = None\<rparr>"
  obtain s where s: "openStore ?io ''abc'' zeroOptions freshDb = Inr s" and sid: "st_streamID s = ''abc''"
    by (simp add: openStore_def init_def initStream_def emptyStore_def freshDb_def store_simps)
  have d: "dbInv freshDb" "seqsOk [] freshDb"
    by (simp_all add: inv_defs seqsOk_def freshDb_def metaInt_def)
  let ?y = "(startSys [] s)\<lparr>sys_store := append_reading sampleReading (sys_store (startSys [] s)),
      sys_accepted := sys_accepted (startSys [] s) + 1\<rparr>"
  have run: "(qstep storedDeflate)\<^sup>*\<^sup>* (startSys [] s) ?y" by (intro r_into_rtranclp Append)
  obtain s' where s': "openStore ?io ''xyz'' zeroOptions (st_db (sys_store ?y)) = Inr s'"
    by (cases "db_stream_id (st_db (sys_store ?y))")
      (auto simp: openStore_def init_def initStream_def emptyStore_def)
  from seqs_unique_and_restartable [OF s d(1) _ d(2) run s'] sid
  have "st_streamID s' = ''abc'' \<and> storeInv s'" by simp
  with s s' run show ?thesis by blast
qed

end
