(* ===== verification/Mqtt.thy ===== *)
theory Mqtt
  imports Delivery Modbus
begin

text \<open>
  The MQTT transport, \<^verbatim>\<open>src/internal/forwarder/mqttadapter.go\<close>: the table of messages that
  wait for an acknowledgement, \<^verbatim>\<open>Send\<close>, \<^verbatim>\<open>handleAck\<close>, the connection handlers and
  the reconnect watchdog.

  The paho client and the broker are outside the source. What they do while a message is being sent
  is a list of events, in any order: the broker delivers any message published so far to the server
  (again, if it likes), it delivers any acknowledgement published so far to the gateway (late, twice,
  or for another message), the publish token completes or fails, a timer fires, the context ends. The
  server is the demo server's \<^verbatim>\<open>handleMQTT\<close>.

  The results: a send succeeds only when the server holds the message, even if the acknowledgement
  it took was meant for an earlier attempt; a send leaves nothing behind in the table; the watchdog
  acts exactly when the client has been down too long and then waits for a full period again.
\<close>

section \<open>Configuration and state\<close>

text \<open>
  The fields of \<^verbatim>\<open>tls.Config\<close> the gateway sets: the text of the certificate authorities and the
  files of the client certificate.
\<close>

record tlsConfig =
  tc_InsecureSkipVerify :: bool
  tc_RootCAs :: "string option"
  tc_Certificates :: "(string \<times> string) list"

record mqttConfig =
  mc_BrokerURL :: string
  mc_ClientID :: string
  mc_Username :: string
  mc_Password :: string
  mc_QoS :: byte
  mc_DataTopic :: string
  mc_AckTopic :: string
  mc_KeepAlive :: duration
  mc_ConnectTimeout :: duration
  mc_PublishTimeout :: duration
  mc_AckTimeout :: duration
  mc_TLS :: "tlsConfig option"
  mc_WatchdogInterval :: duration
  mc_ReconnectStuckAfter :: duration

definition defaultWatchdogInterval :: duration where "defaultWatchdogInterval = 15 * nanosPerSecond"
definition defaultReconnectStuckAfter :: duration where "defaultReconnectStuckAfter = 45 * nanosPerSecond"

text \<open>
  A channel of capacity one is its content. \<open>zeroTime\<close> in \<open>mq_disconnectedAt\<close> means that the client
  is connected.
\<close>

record mqttAdapter =
  mq_cfg :: mqttConfig
  mq_pending :: "int \<rightharpoonup> wireAck option"
  mq_pendingStream :: "int \<rightharpoonup> string"
  mq_disconnectedAt :: gotime

definition newMQTTAdapter :: "mqttConfig \<Rightarrow> gotime \<Rightarrow> mqttAdapter" where
  "newMQTTAdapter cfg now =
     (let cfg = (if mc_WatchdogInterval cfg \<le> 0 then cfg\<lparr>mc_WatchdogInterval := defaultWatchdogInterval\<rparr> else cfg);
          cfg = (if mc_ReconnectStuckAfter cfg \<le> 0 then cfg\<lparr>mc_ReconnectStuckAfter := defaultReconnectStuckAfter\<rparr>
                 else cfg)
      in \<lparr>mq_cfg = cfg, mq_pending = Map.empty, mq_pendingStream = Map.empty, mq_disconnectedAt = now\<rparr>)"

section \<open>Connection handlers and watchdog\<close>

definition onConnect :: "mqttAdapter \<Rightarrow> mqttAdapter" where
  "onConnect a = a\<lparr>mq_disconnectedAt := zeroTime\<rparr>"

definition onConnectionLost :: "gotime \<Rightarrow> mqttAdapter \<Rightarrow> mqttAdapter" where
  "onConnectionLost now a = a\<lparr>mq_disconnectedAt := now\<rparr>"

text \<open>
  \<^verbatim>\<open>subscribeWithRetry\<close>: \<open>sub i\<close> is the error of the \<open>i\<close>-th subscription, if any. The result is
  whether it succeeded and how long it slept.
\<close>

fun subscribeLoop :: "(nat \<Rightarrow> string option) \<Rightarrow> nat \<Rightarrow> nat \<Rightarrow> duration \<Rightarrow> bool \<times> duration" where
  "subscribeLoop sub 0 attempt slept = (False, slept)"
| "subscribeLoop sub (Suc k) attempt slept =
     (if sub attempt = None then (True, slept)
      else subscribeLoop sub k (attempt + 1) (slept + int attempt * nanosPerSecond))"

definition subscribeWithRetry :: "(nat \<Rightarrow> string option) \<Rightarrow> bool \<times> duration" where
  "subscribeWithRetry sub = subscribeLoop sub 3 1 0"

definition isPahoAlreadyReconnectingErr :: "string option \<Rightarrow> bool" where
  "isPahoAlreadyReconnectingErr err =
     (case err of None \<Rightarrow> False
      | Some e \<Rightarrow> contains ''status can only transition to connecting from disconnected'' e)"

datatype watchdogAction = NoAction | Reconnected | PahoBusy | ReconnectFailed

text \<open>
  One tick of the watchdog: \<open>isOpen\<close> is \<^verbatim>\<open>IsConnectionOpen\<close> at its start, \<open>err\<close> the error of the
  forced connect, \<open>handlers\<close> what paho's handlers did to the adapter meanwhile, \<open>isOpen'\<close> and \<open>now'\<close>
  the connection and the time afterwards.
\<close>

definition checkAndForceReconnect :: "bool \<Rightarrow> gotime \<Rightarrow> string option \<Rightarrow> (mqttAdapter \<Rightarrow> mqttAdapter) \<Rightarrow>
    bool \<Rightarrow> gotime \<Rightarrow> mqttAdapter \<Rightarrow> watchdogAction \<times> mqttAdapter" where
  "checkAndForceReconnect isOpen now err handlers isOpen' now' a =
     (if isOpen then (NoAction, a)
      else let stuckSince = mq_disconnectedAt a in
        if stuckSince = zeroTime \<or> now - stuckSince < mc_ReconnectStuckAfter (mq_cfg a) then (NoAction, a)
        else let a = handlers a;
                 act = (if err = None then Reconnected
                        else if isPahoAlreadyReconnectingErr err then PahoBusy else ReconnectFailed)
             in (act, if isOpen' then a else a\<lparr>mq_disconnectedAt := now'\<rparr>))"

section \<open>Acknowledgements\<close>

text \<open>\<^verbatim>\<open>handleAck\<close>: the payload is an acknowledgement, or it cannot be parsed.\<close>

definition handleAck :: "wireAck option \<Rightarrow> mqttAdapter \<Rightarrow> mqttAdapter" where
  "handleAck payload a =
     (case payload of
        None \<Rightarrow> a
      | Some ak \<Rightarrow>
          (case mq_pending a (a_ToSeq ak) of
             None \<Rightarrow> a
           | Some ch \<Rightarrow>
               (if a_StreamID ak \<noteq> [] \<and>
                   a_StreamID ak \<noteq> (case mq_pendingStream a (a_ToSeq ak) of Some sid \<Rightarrow> sid | None \<Rightarrow> [])
                then a
                else case ch of
                       None \<Rightarrow> a\<lparr>mq_pending := (mq_pending a)(a_ToSeq ak \<mapsto> Some ak)\<rparr>
                     | Some earlier \<Rightarrow> a)))"

section \<open>Send\<close>

datatype mqttEvent =
    ServerGets nat srvSettings bool gotime
  | AckArrives nat
  | BadAck
  | PublishDone "string option"
  | PublishTimeout
  | CtxDone string
  | TakeAck
  | AckTimeout

record mqttWorld =
  mw_adapter :: mqttAdapter
  mw_store :: srvStore
  mw_published :: "message list"
  mw_acks :: "wireAck list"
  mw_open :: "nat \<Rightarrow> bool"
  mw_events :: "nat \<Rightarrow> mqttEvent list"
  mw_sends :: nat

text \<open>What broker and server do on an event that is not the sender's own.\<close>

definition netStep :: "mqttEvent \<Rightarrow> mqttWorld \<Rightarrow> mqttWorld" where
  "netStep e w =
     (case e of
        ServerGets i cfg writeOk now \<Rightarrow>
          (if i < length (mw_published w)
           then (case handleMQTT cfg writeOk now (mw_published w ! i) (mw_store w) of
                   (reply, s) \<Rightarrow>
                     w\<lparr>mw_store := s, mw_acks := mw_acks w @ (case reply of None \<Rightarrow> [] | Some ak \<Rightarrow> [ak])\<rparr>)
           else w)
      | AckArrives i \<Rightarrow>
          (if i < length (mw_acks w) then w\<lparr>mw_adapter := handleAck (Some (mw_acks w ! i)) (mw_adapter w)\<rparr> else w)
      | BadAck \<Rightarrow> w\<lparr>mw_adapter := handleAck None (mw_adapter w)\<rparr>
      | _ \<Rightarrow> w)"

text \<open>
  The two waits of \<^verbatim>\<open>Send\<close>. The second receives an acknowledgement from the channel when it is
  scheduled to (\<open>TakeAck\<close>) and the channel has one. When the events run out the timer fires: both
  waits are bounded.
\<close>

fun awaitAck :: "message \<Rightarrow> mqttEvent list \<Rightarrow> mqttWorld \<Rightarrow> string option \<times> mqttWorld" where
  "awaitAck msg [] w = (Some ''mqtt: timed out waiting for ack'', w)"
| "awaitAck msg (e # es) w =
     (case e of
        TakeAck \<Rightarrow>
          (case mq_pending (mw_adapter w) (m_ToSeq msg) of
             Some (Some ak) \<Rightarrow> ((if a_Error ak \<noteq> [] then Some (''server rejected: '' @ a_Error ak) else None), w)
           | _ \<Rightarrow> awaitAck msg es w)
      | CtxDone err \<Rightarrow> (Some err, w)
      | AckTimeout \<Rightarrow> (Some ''mqtt: timed out waiting for ack'', w)
      | _ \<Rightarrow> awaitAck msg es (netStep e w))"

fun awaitPublish :: "message \<Rightarrow> mqttEvent list \<Rightarrow> mqttWorld \<Rightarrow> string option \<times> mqttWorld" where
  "awaitPublish msg [] w = (Some ''mqtt publish: timed out'', w)"
| "awaitPublish msg (e # es) w =
     (case e of
        PublishDone None \<Rightarrow> awaitAck msg es w
      | PublishDone (Some err) \<Rightarrow> (Some (''mqtt publish: '' @ err), w)
      | CtxDone err \<Rightarrow> (Some (''mqtt publish: '' @ err), w)
      | PublishTimeout \<Rightarrow> (Some ''mqtt publish: timed out'', w)
      | _ \<Rightarrow> awaitPublish msg es (netStep e w))"

definition register :: "message \<Rightarrow> mqttAdapter \<Rightarrow> mqttAdapter" where
  "register msg a =
     a\<lparr>mq_pending := (mq_pending a)(m_ToSeq msg \<mapsto> None),
       mq_pendingStream := (mq_pendingStream a)(m_ToSeq msg \<mapsto> m_StreamID msg)\<rparr>"

definition unregister :: "message \<Rightarrow> mqttAdapter \<Rightarrow> mqttAdapter" where
  "unregister msg a =
     a\<lparr>mq_pending := (mq_pending a)(m_ToSeq msg := None),
       mq_pendingStream := (mq_pendingStream a)(m_ToSeq msg := None)\<rparr>"

definition mqttSend :: "message \<Rightarrow> mqttWorld \<Rightarrow> string option \<times> mqttWorld" where
  "mqttSend msg w =
     (let n = mw_sends w; w = w\<lparr>mw_sends := n + 1\<rparr> in
      if \<not> mw_open w n then (Some ''mqtt: not connected'', w)
      else case jsonMarshal msg of
             Inl e \<Rightarrow> (Some (''marshal message: '' @ e), w)
           | Inr body \<Rightarrow>
               (let w = w\<lparr>mw_adapter := register msg (mw_adapter w), mw_published := mw_published w @ [body]\<rparr> in
                case awaitPublish msg (mw_events w n) w of
                  (r, w) \<Rightarrow> (r, w\<lparr>mw_adapter := unregister msg (mw_adapter w)\<rparr>)))"

section \<open>The invariant\<close>

definition mqttHolds :: "mqttWorld \<Rightarrow> string \<Rightarrow> string \<Rightarrow> int \<Rightarrow> bool" where
  "mqttHolds w g sid q = ss_seen (mw_store w) (g, sid, q)"

text \<open>An acknowledgement without an error was sent for a published message whose chunks are stored.\<close>

definition acksOk :: "mqttWorld \<Rightarrow> bool" where
  "acksOk w \<longleftrightarrow> (\<forall>ak \<in> set (mw_acks w). a_Error ak = [] \<longrightarrow>
     (\<exists>m \<in> set (mw_published w). m_StreamID m = a_StreamID ak \<and> m_ToSeq m = a_ToSeq ak \<and>
        (\<forall>c \<in> set (m_Chunks m). mqttHolds w (m_GatewayID m) (m_StreamID m) (wc_Seq c))))"

text \<open>While \<open>msg\<close> is being sent, its channel holds an acknowledgement that passes for it, or nothing.\<close>

definition channelOk :: "message \<Rightarrow> mqttWorld \<Rightarrow> bool" where
  "channelOk msg w \<longleftrightarrow> dom (mq_pending (mw_adapter w)) = {m_ToSeq msg} \<and>
     mq_pendingStream (mw_adapter w) = [m_ToSeq msg \<mapsto> m_StreamID msg] \<and>
     (\<forall>ak. mq_pending (mw_adapter w) (m_ToSeq msg) = Some (Some ak) \<longrightarrow>
        ak \<in> set (mw_acks w) \<and> a_ToSeq ak = m_ToSeq msg \<and> (a_StreamID ak = [] \<or> a_StreamID ak = m_StreamID msg))"

definition mqttIdle :: "mqttWorld \<Rightarrow> bool" where
  "mqttIdle w \<longleftrightarrow> acksOk w \<and> mq_pending (mw_adapter w) = Map.empty \<and>
     mq_pendingStream (mw_adapter w) = Map.empty"

text \<open>What the steps of broker and server keep, and what they never undo.\<close>

definition extendsWorld :: "mqttWorld \<Rightarrow> mqttWorld \<Rightarrow> bool" where
  "extendsWorld w w' \<longleftrightarrow> mw_published w' = mw_published w \<and>
     (\<forall>g sid q. mqttHolds w g sid q \<longrightarrow> mqttHolds w' g sid q)"

lemma extendsWorld_refl [simp, intro]: "extendsWorld w w"
  by (simp add: extendsWorld_def)

lemma extendsWorld_trans: "extendsWorld w w' \<Longrightarrow> extendsWorld w' w'' \<Longrightarrow> extendsWorld w w''"
  by (simp add: extendsWorld_def)

lemma handleMQTT_seen:
  assumes "handleMQTT cfg writeOk now m s = (reply, s')"
  shows "ss_seen s k \<Longrightarrow> ss_seen s' k"
    and "reply = Some ak \<Longrightarrow> a_StreamID ak = m_StreamID m \<and> a_ToSeq ak = m_ToSeq m \<and>
      (a_Error ak = [] \<longrightarrow> (\<forall>c \<in> set (m_Chunks m). ss_seen s' (m_GatewayID m, m_StreamID m, wc_Seq c)))"
proof -
  obtain r s1 where p: "process cfg writeOk now m s = (r, s1)" by fastforce
  with assms process_seen [OF p] show "ss_seen s k \<Longrightarrow> ss_seen s' k"
    and "reply = Some ak \<Longrightarrow> a_StreamID ak = m_StreamID m \<and> a_ToSeq ak = m_ToSeq m \<and>
      (a_Error ak = [] \<longrightarrow> (\<forall>c \<in> set (m_Chunks m). ss_seen s' (m_GatewayID m, m_StreamID m, wc_Seq c)))"
    by (auto simp: handleMQTT_def split: if_splits)
qed

lemma netStep_serverGets:
  assumes "acksOk w" "i < length (mw_published w)"
    and h: "handleMQTT cfg writeOk now (mw_published w ! i) (mw_store w) = (reply, s)"
  defines "w' \<equiv> w\<lparr>mw_store := s, mw_acks := mw_acks w @ (case reply of None \<Rightarrow> [] | Some ak \<Rightarrow> [ak])\<rparr>"
  shows "acksOk w' \<and> extendsWorld w w'"
proof -
  let ?m = "mw_published w ! i"
  have mono: "mqttHolds w g sid q \<Longrightarrow> mqttHolds w' g sid q" for g sid q
    using handleMQTT_seen(1) [OF h] by (simp add: mqttHolds_def w'_def)
  have old: "\<exists>m \<in> set (mw_published w'). m_StreamID m = a_StreamID ak \<and> m_ToSeq m = a_ToSeq ak \<and>
      (\<forall>c \<in> set (m_Chunks m). mqttHolds w' (m_GatewayID m) (m_StreamID m) (wc_Seq c))"
    if "ak \<in> set (mw_acks w)" "a_Error ak = []" for ak
    using assms(1) that mono by (fastforce simp: acksOk_def w'_def)
  have new: "\<exists>m \<in> set (mw_published w'). m_StreamID m = a_StreamID ak \<and> m_ToSeq m = a_ToSeq ak \<and>
      (\<forall>c \<in> set (m_Chunks m). mqttHolds w' (m_GatewayID m) (m_StreamID m) (wc_Seq c))"
    if "reply = Some ak" "a_Error ak = []" for ak
    using handleMQTT_seen(2) [OF h that(1)] that(2) assms(2) by (intro bexI [of _ ?m]) (auto simp: mqttHolds_def w'_def)
  have "set (mw_acks w') = set (mw_acks w) \<union> (case reply of None \<Rightarrow> {} | Some ak \<Rightarrow> {ak})"
    by (simp add: w'_def split: option.splits)
  with old new have "acksOk w'" by (auto simp: acksOk_def split: option.splits)
  with mono show ?thesis by (simp add: extendsWorld_def w'_def)
qed

lemma handleAck_channel:
  assumes "channelOk msg w" "ak \<in> set (mw_acks w)"
  shows "channelOk msg (w\<lparr>mw_adapter := handleAck (Some ak) (mw_adapter w)\<rparr>)"
  using assms by (auto simp: channelOk_def handleAck_def dom_def fun_eq_iff split: option.splits if_splits)

lemma netStep_ok:
  assumes "acksOk w" "channelOk msg w"
  shows "acksOk (netStep e w) \<and> channelOk msg (netStep e w) \<and> extendsWorld w (netStep e w)"
proof (cases e)
  case (ServerGets i cfg writeOk now)
  obtain reply s where h: "handleMQTT cfg writeOk now (mw_published w ! i) (mw_store w) = (reply, s)" by fastforce
  have "channelOk msg (w\<lparr>mw_store := s, mw_acks := mw_acks w @ xs\<rparr>)" for xs
    using assms(2) by (auto simp: channelOk_def)
  then show ?thesis
    using netStep_serverGets [OF assms(1) _ h] assms by (simp add: ServerGets netStep_def h)
next
  case (AckArrives i)
  then show ?thesis using assms handleAck_channel [OF assms(2), of "mw_acks w ! i"]
    by (auto simp: netStep_def acksOk_def mqttHolds_def extendsWorld_def)
next
  case BadAck
  then show ?thesis using assms by (simp add: netStep_def handleAck_def)
qed (use assms in \<open>simp_all add: netStep_def\<close>)

definition answeredFor :: "message \<Rightarrow> mqttWorld \<Rightarrow> bool" where
  "answeredFor msg w \<longleftrightarrow> (\<exists>m \<in> set (mw_published w). confusable m msg \<and>
     (\<forall>c \<in> set (m_Chunks m). mqttHolds w (m_GatewayID m) (m_StreamID m) (wc_Seq c)))"

lemma awaitAck_ok:
  assumes "acksOk w" "channelOk msg w" "awaitAck msg es w = (r, w')"
  shows "acksOk w' \<and> channelOk msg w' \<and> extendsWorld w w' \<and> (r = None \<longrightarrow> answeredFor msg w')"
  using assms
proof (induction es arbitrary: w)
  case (Cons e es)
  have taken: "answeredFor msg w"
    if "mq_pending (mw_adapter w) (m_ToSeq msg) = Some (Some ak)" "a_Error ak = []" for ak
    using Cons.prems(1,2) that by (force simp: channelOk_def acksOk_def answeredFor_def confusable_def)
  have other: ?case if "awaitAck msg es (netStep e w) = (r, w')"
    using Cons.IH [OF _ _ that] netStep_ok [OF Cons.prems(1,2)] extendsWorld_trans by blast
  show ?case
  proof (cases e)
    case TakeAck
    show ?thesis
    proof (cases "\<exists>ak. mq_pending (mw_adapter w) (m_ToSeq msg) = Some (Some ak)")
      case True
      then show ?thesis using Cons.prems taken by (auto simp: TakeAck split: if_splits)
    next
      case False
      then have "awaitAck msg es w = (r, w')" using Cons.prems(3) by (auto simp: TakeAck split: option.splits)
      from Cons.IH [OF Cons.prems(1,2) this] show ?thesis .
    qed
  qed (use Cons.prems other in \<open>auto\<close>)
qed auto

lemma awaitPublish_ok:
  assumes "acksOk w" "channelOk msg w" "awaitPublish msg es w = (r, w')"
  shows "acksOk w' \<and> channelOk msg w' \<and> extendsWorld w w' \<and> (r = None \<longrightarrow> answeredFor msg w')"
  using assms
proof (induction es arbitrary: w)
  case (Cons e es)
  have other: ?case if "awaitPublish msg es (netStep e w) = (r, w')"
    using Cons.IH [OF _ _ that] netStep_ok [OF Cons.prems(1,2)] extendsWorld_trans by blast
  show ?case
  proof (cases e)
    case (PublishDone err)
    then show ?thesis using Cons.prems awaitAck_ok [OF Cons.prems(1,2)] by (cases err) auto
  qed (use Cons.prems other in \<open>auto\<close>)
qed auto

lemma mqttSend_ok:
  assumes "mqttIdle w" "mqttSend msg w = (r, w')"
  shows "mqttIdle w' \<and> (\<forall>g sid q. mqttHolds w g sid q \<longrightarrow> mqttHolds w' g sid q) \<and>
    set (mw_published w') \<subseteq> insert msg (set (mw_published w)) \<and> (r = None \<longrightarrow> answeredFor msg w')"
proof -
  let ?n = "mw_sends w"
  let ?w1 = "w\<lparr>mw_sends := ?n + 1\<rparr>"
  let ?w2 = "?w1\<lparr>mw_adapter := register msg (mw_adapter w), mw_published := mw_published w @ [msg]\<rparr>"
  show ?thesis
  proof (cases "mw_open w ?n \<and> jsonMarshal msg = Inr msg")
    case False
    then have "w' = ?w1 \<and> r \<noteq> None"
      using assms(2) by (auto simp: mqttSend_def Let_def jsonMarshal_def split: if_splits)
    then show ?thesis using assms(1) by (auto simp: mqttIdle_def acksOk_def mqttHolds_def)
  next
    case True
    obtain w3 where p: "awaitPublish msg (mw_events w ?n) ?w2 = (r, w3)"
      and w': "w' = w3\<lparr>mw_adapter := unregister msg (mw_adapter w3)\<rparr>"
      using assms(2) True by (auto simp: mqttSend_def Let_def split: prod.splits)
    have acks: "acksOk ?w2" using assms(1) by (fastforce simp: mqttIdle_def acksOk_def mqttHolds_def)
    have chan: "channelOk msg ?w2"
      using assms(1) by (auto simp: mqttIdle_def channelOk_def register_def)
    note ok = awaitPublish_ok [OF acks chan p]
    have same: "mqttHolds w' = mqttHolds w3" "mw_published w' = mw_published w3" "mw_acks w' = mw_acks w3"
      by (simp_all add: w' mqttHolds_def fun_eq_iff)
    have "mq_pending (mw_adapter w') = Map.empty" "mq_pendingStream (mw_adapter w') = Map.empty"
      using ok by (auto simp: w' unregister_def channelOk_def fun_eq_iff dom_def)
    moreover have "acksOk w'" using ok by (simp add: acksOk_def same)
    moreover have "r = None \<longrightarrow> answeredFor msg w'" using ok by (simp add: answeredFor_def same)
    moreover have "mqttHolds w g sid q \<Longrightarrow> mqttHolds w' g sid q" for g sid q
      using ok by (auto simp: extendsWorld_def same mqttHolds_def)
    moreover have "mw_published w3 = mw_published w @ [msg]" using ok by (simp add: extendsWorld_def)
    ultimately show ?thesis by (auto simp: mqttIdle_def same)
  qed
qed

interpretation mqtt_server: acking_adapter mqttSend mqttHolds "\<lambda>w. set (mw_published w)" mqttIdle
proof
  fix w m w' c
  assume ok: "mqttIdle w" and s: "mqttSend m w = (None, w')" and c: "c \<in> set (m_Chunks m)"
    and cov: "\<And>m'. m' \<in> set (mw_published w) \<Longrightarrow> confusable m' m \<Longrightarrow> covers m' m \<and> m_StreamID m' = m_StreamID m"
  from mqttSend_ok [OF ok s] obtain m' where m': "m' \<in> insert m (set (mw_published w))" "confusable m' m"
    "\<forall>c \<in> set (m_Chunks m'). mqttHolds w' (m_GatewayID m') (m_StreamID m') (wc_Seq c)"
    unfolding answeredFor_def by blast
  moreover have "covers m m" by (simp add: covers_def)
  ultimately have "covers m' m \<and> m_StreamID m' = m_StreamID m" using cov by blast
  with m'(3) c show "mqttHolds w' (m_GatewayID m) (m_StreamID m) (wc_Seq c)"
    by (fastforce simp: covers_def)
next
  fix w m r w' g sid q
  assume "mqttIdle w" "mqttSend m w = (r, w')"
  note ok = mqttSend_ok [OF this]
  show "mqttHolds w g sid q \<Longrightarrow> mqttHolds w' g sid q" "mqttIdle w'" using ok by auto
next
  fix m w r w'
  assume s: "mqttSend m w = (r, w')"
  have net: "mw_published (netStep e v) = mw_published v" for e v
    by (auto simp: netStep_def split: mqttEvent.splits prod.splits)
  have ack: "mw_published (snd (awaitAck m es v)) = mw_published v" for es v
    by (induction es arbitrary: v) (auto simp: net split: mqttEvent.splits option.splits)
  have pub: "mw_published (snd (awaitPublish m es v)) = mw_published v" for es v
    by (induction es arbitrary: v) (auto simp: net ack split: mqttEvent.splits option.splits)
  have "mw_published v' = mw_published v" if "awaitPublish m es v = (r, v')" for es v v'
    using pub [of es v] that by simp
  with s show "set (mw_published w') \<subseteq> insert m (set (mw_published w))"
    by (fastforce simp: mqttSend_def Let_def jsonMarshal_def split: if_splits prod.splits)
qed

interpretation mqtt_delivery: delivery storeInv "chunksOf inflate" st_streamID "sourceRead inflate" sourceAck
    mqttSend mqttHolds "\<lambda>w. set (mw_published w)" mqttIdle
  for inflate
  by unfold_locales

section \<open>Properties\<close>

text \<open>
  C4: end-to-end delivery over MQTT. Run the forwarding loop of the gateway's queue over the MQTT
  adapter for any number of iterations, with the broker delivering messages and acknowledgements
  late, repeatedly, out of order or never, the server refusing or dropping acknowledgements, and
  database calls failing. If the messages already on their way when the loop starts fit the queue
  (those of its stream hold every pending chunk up to their last sequence number), then the chunks
  that have left the queue are a prefix of what was pending and the server holds every one of them,
  although acknowledgements are matched by sequence number only; and no acknowledgement stays
  registered.
\<close>

theorem mqtt_delivery_loses_nothing:
  assumes "storeInv (f_src f)" "mqttIdle (f_world f)"
    and "historyFits (fc_GatewayID cfg) (st_streamID (f_src f)) (chunksOf inflate (f_src f))
      (set (mw_published (f_world f)))"
    and "runLoop st_streamID (sourceRead inflate) sourceAck mqttSend cfg es (failures, f) = (failures', f')"
  shows "storeInv (f_src f') \<and> mqttIdle (f_world f') \<and>
    (\<exists>pre. chunksOf inflate (f_src f) = pre @ chunksOf inflate (f_src f') \<and>
      (\<forall>c \<in> set pre. mqttHolds (f_world f') (fc_GatewayID cfg) (st_streamID (f_src f)) (ck_Seq c))) \<and>
    (\<forall>g sid q. mqttHolds (f_world f) g sid q \<longrightarrow> mqttHolds (f_world f') g sid q)"
  using mqtt_delivery.loop_delivers [OF assms] by blast

definition sampleMqttConfig :: mqttConfig where
  "sampleMqttConfig = \<lparr>mc_BrokerURL = ''tcp://broker:1883'', mc_ClientID = ''gw'', mc_Username = [], mc_Password = [],
     mc_QoS = 1, mc_DataTopic = ''gateway/GW-001/data'', mc_AckTopic = ''gateway/GW-001/ack'',
     mc_KeepAlive = 30 * nanosPerSecond, mc_ConnectTimeout = 10 * nanosPerSecond,
     mc_PublishTimeout = 10 * nanosPerSecond, mc_AckTimeout = 10 * nanosPerSecond, mc_TLS = None,
     mc_WatchdogInterval = 0, mc_ReconnectStuckAfter = 0\<rparr>"

definition sampleMqttWorld :: mqttWorld where
  "sampleMqttWorld = \<lparr>mw_adapter = onConnect (newMQTTAdapter sampleMqttConfig 7), mw_store = newStore False,
     mw_published = [], mw_acks = [], mw_open = (\<lambda>_. True),
     mw_events = (\<lambda>_. [ServerGets 0 openSettings True 0, PublishDone None, BadAck, AckArrives 0, TakeAck]),
     mw_sends = 0\<rparr>"

definition sampleMqttDelivery :: "(store, mqttWorld) forwarder" where
  "sampleMqttDelivery = \<lparr>f_src = snd (flush storedDeflate True sampleStore), f_world = sampleMqttWorld,
     f_status = \<lparr>fs_Connected = False, fs_LastError = [], fs_LastSuccessAt = None, fs_LastAttemptAt = None\<rparr>\<rparr>"

lemma sampleMqttWorld_idle: "mqttIdle sampleMqttWorld"
  by (simp add: mqttIdle_def acksOk_def sampleMqttWorld_def onConnect_def newMQTTAdapter_def Let_def)

theorem mqtt_delivery_loses_nothing_witness:
  "let f' = snd (runLoop st_streamID (sourceRead storedInflate) sourceAck mqttSend sampleConfig
       [(okIO, 5), (okIO, 6)] (0, sampleMqttDelivery)) in
   \<exists>pre. chunksOf storedInflate (f_src sampleMqttDelivery) = pre @ chunksOf storedInflate (f_src f') \<and>
     (\<forall>c \<in> set pre. mqttHolds (f_world f') (fc_GatewayID sampleConfig) (st_streamID (f_src sampleMqttDelivery)) (ck_Seq c))"
proof -
  let ?f = sampleMqttDelivery
  have i: "storeInv (f_src ?f)" "mqttIdle (f_world ?f)"
    using flushed_sample(1) sampleMqttWorld_idle by (simp_all add: sampleMqttDelivery_def)
  have h: "historyFits (fc_GatewayID sampleConfig) (st_streamID (f_src ?f)) (chunksOf storedInflate (f_src ?f))
      (set (mw_published (f_world ?f)))"
    by (simp add: historyFits_def sampleMqttDelivery_def sampleMqttWorld_def)
  obtain n f' where r: "runLoop st_streamID (sourceRead storedInflate) sourceAck mqttSend sampleConfig
       [(okIO, 5), (okIO, 6)] (0, ?f) = (n, f')" by fastforce
  from mqtt_delivery_loses_nothing [OF i h r] show ?thesis unfolding r Let_def snd_conv by blast
qed

text \<open>
  One send. Starting with nothing registered, and whatever happens while it waits, a send ends
  with nothing registered, and it reports success only if some message published with the same last
  sequence number, of the same stream or of none, has every chunk stored by the server: an
  acknowledgement with an error, for another sequence number or for another stream never counts, and
  no stored chunk is forgotten.
\<close>

theorem mqtt_send_success_means_stored:
  assumes "mqttIdle w" "mqttSend msg w = (r, w')"
  shows "mqttIdle w' \<and> (\<forall>g sid q. mqttHolds w g sid q \<longrightarrow> mqttHolds w' g sid q) \<and>
    (r = None \<longrightarrow> (\<exists>m \<in> insert msg (set (mw_published w)). m_ToSeq m = m_ToSeq msg \<and>
       (m_StreamID m = m_StreamID msg \<or> m_StreamID m = []) \<and>
       (\<forall>c \<in> set (m_Chunks m). mqttHolds w' (m_GatewayID m) (m_StreamID m) (wc_Seq c))))"
  using mqttSend_ok [OF assms] unfolding answeredFor_def confusable_def by blast

lemma handleMQTT_accepts:
  "\<exists>s'. handleMQTT openSettings True now m s =
     (Some \<lparr>a_StreamID = m_StreamID m, a_ToSeq = m_ToSeq m, a_Error = []\<rparr>, s')"
proof -
  obtain n s' where "ingest True now m (noteMessage now (m_GatewayID m) s) = (Inr n, s')"
    by (auto simp: ingest_def Let_def)
  then show ?thesis
    by (cases n) (simp add: handleMQTT_def process_def openSettings_def faultNone_def faultIgnore_def faultErrorAck_def
        faultDropAck_def Let_def)
qed

lemma sampleMessage_json: "jsonMarshal sampleMessage = Inr sampleMessage"
  by (simp add: jsonMarshal_def sampleMessage_def buildMessage_def wireChunkOf_def wireReadingOf_def sampleReading_def
      jsonValueOk_def f64_finite_def f64_mag_def f64_inf_mag_def)

theorem mqtt_send_success_means_stored_witness:
  "fst (mqttSend sampleMessage sampleMqttWorld) = None \<and>
   list_all (\<lambda>c. mqttHolds (snd (mqttSend sampleMessage sampleMqttWorld))
      (m_GatewayID sampleMessage) (m_StreamID sampleMessage) (wc_Seq c)) (m_Chunks sampleMessage)"
proof -
  obtain r w' where s: "mqttSend sampleMessage sampleMqttWorld = (r, w')" by fastforce
  obtain s' where h: "handleMQTT openSettings True 0 sampleMessage (newStore False) =
     (Some \<lparr>a_StreamID = m_StreamID sampleMessage, a_ToSeq = m_ToSeq sampleMessage, a_Error = []\<rparr>, s')"
    using handleMQTT_accepts by blast
  have "fst (mqttSend sampleMessage sampleMqttWorld) = None"
    by (simp add: mqttSend_def Let_def sampleMessage_json sampleMqttWorld_def netStep_def h handleAck_def register_def)
  with mqtt_send_success_means_stored [OF sampleMqttWorld_idle s] show ?thesis
    by (simp add: s list_all_iff) (simp add: sampleMqttWorld_def)
qed

text \<open>
  The reconnect watchdog. A tick acts exactly when the client is not connected and the
  connection has been down for at least \<^verbatim>\<open>ReconnectStuckAfter\<close>, a client that never
  connected since it was made included; it never touches the messages waiting for acknowledgement;
  and when the connection is still down after the forced attempt, no tick acts again before another
  full period has passed.
\<close>

theorem watchdog_acts_when_stuck:
  assumes "checkAndForceReconnect isOpen now err handlers isOpen' now' a = (act, a')"
    and "\<And>b. mq_pending (handlers b) = mq_pending b \<and> mq_cfg (handlers b) = mq_cfg b"
  shows "(act \<noteq> NoAction \<longleftrightarrow> \<not> isOpen \<and> mq_disconnectedAt a \<noteq> zeroTime \<and>
      mc_ReconnectStuckAfter (mq_cfg a) \<le> now - mq_disconnectedAt a) \<and>
    mq_pending a' = mq_pending a \<and>
    (act = NoAction \<longrightarrow> a' = a) \<and>
    (act \<noteq> NoAction \<and> \<not> isOpen' \<longrightarrow>
      (\<forall>t. t - now' < mc_ReconnectStuckAfter (mq_cfg a) \<longrightarrow>
         fst (checkAndForceReconnect b t e h b' t' a') = NoAction))"
  using assms by (auto simp: checkAndForceReconnect_def Let_def split: if_splits)

theorem watchdog_acts_when_stuck_witness:
  "fst (checkAndForceReconnect False (60 * nanosPerSecond) None (\<lambda>a. a) False (61 * nanosPerSecond)
     (newMQTTAdapter sampleMqttConfig (10 * nanosPerSecond))) \<noteq> NoAction"
proof -
  let ?a = "newMQTTAdapter sampleMqttConfig (10 * nanosPerSecond)"
  obtain act a' where c: "checkAndForceReconnect False (60 * nanosPerSecond) None (\<lambda>a. a) False (61 * nanosPerSecond) ?a =
    (act, a')" by fastforce
  have "mq_disconnectedAt ?a = 10 * nanosPerSecond" "mc_ReconnectStuckAfter (mq_cfg ?a) = 45 * nanosPerSecond"
    by (simp_all add: newMQTTAdapter_def Let_def sampleMqttConfig_def defaultReconnectStuckAfter_def)
  then show ?thesis
    using watchdog_acts_when_stuck [OF c] unfolding c by (simp add: zeroTime_def nanosPerSecond_def)
qed

end
