(* ===== verification/Config.thy ===== *)
theory Config
  imports Mqtt Acquisition
begin

text \<open>
  The configuration file and its editing: \<^verbatim>\<open>src/internal/config/config.go\<close> (the sections of
  \<^verbatim>\<open>config.yaml\<close>, the defaults that \<^verbatim>\<open>Load\<close> fills in, \<^verbatim>\<open>Save\<close>), the choice of
  the transport in \<^verbatim>\<open>src/cmd/gateway/adapter.go\<close>, and the settings page's handlers in
  \<^verbatim>\<open>src/internal/api/settings.go\<close>.

  The YAML library is a parameter (\<open>marshal\<close>, \<open>unmarshal\<close>), used through its round trip; so are
  \<^verbatim>\<open>url.Parse\<close> (only the host it finds matters), the file system and the trial connection to
  the broker. \<^verbatim>\<open>os.ExpandEnv\<close> and \<^verbatim>\<open>path/filepath\<close> are written out.

  The results: loading fills in exactly the missing values and is idempotent; what is saved is loaded
  back, unless the text contains a dollar sign; a rejected settings request changes nothing, except
  that a bad NTP server is noticed too late.
\<close>

section \<open>Environment variables\<close>

definition isShellSpecialVar :: "char \<Rightarrow> bool" where
  "isShellSpecialVar c = (c \<in> set ''*#$@!?-0123456789'')"

definition isAlphaNum :: "char \<Rightarrow> bool" where
  "isAlphaNum c =
     (let n = (of_char c :: nat)
      in c = CHR ''_'' \<or> 48 \<le> n \<and> n \<le> 57 \<or> 97 \<le> n \<and> n \<le> 122 \<or> 65 \<le> n \<and> n \<le> 90)"

text \<open>The name after a dollar sign and how many characters it takes, as the Go library scans it.\<close>

definition getShellName :: "string \<Rightarrow> string \<times> nat" where
  "getShellName s =
     (case s of
        [] \<Rightarrow> ([], 0)
      | c # r \<Rightarrow>
          (if c = CHR ''{''
           then (if length r > 1 \<and> isShellSpecialVar (r ! 0) \<and> r ! 1 = CHR ''}'' then ([r ! 0], 3)
                 else let name = takeWhile (\<lambda>x. x \<noteq> CHR ''}'') r
                      in if length name = length r then ([], 1)
                         else if name = [] then ([], 2)
                         else (name, length name + 2))
           else if isShellSpecialVar c then ([c], 1)
           else let name = takeWhile isAlphaNum s in (name, length name)))"

function expandEnv :: "(string \<Rightarrow> string) \<Rightarrow> string \<Rightarrow> string" where
  "expandEnv env [] = []"
| "expandEnv env (c # s) =
     (if c = CHR ''$'' \<and> s \<noteq> []
      then let (name, w) = getShellName s
           in (if name \<noteq> [] then env name else if w > 0 then [] else [c]) @ expandEnv env (drop w s)
      else c # expandEnv env s)"
  by pat_completeness auto
termination by (relation "measure (\<lambda>(env, s). length s)") auto

section \<open>The sections of the file\<close>

record gatewayConfig =
  gc_ID :: string
  gc_Name :: string

record apiConfig =
  ac_ListenAddr :: string
  ac_StaticDir :: string

record queueConfig =
  qc_Path :: string
  qc_MaxBytes :: int
  qc_MinFreePercent :: float64
  qc_FlushIntervalMs :: int
  qc_MaintenanceIntervalSec :: int

record forwarderConfig =
  fc_Transport :: string
  fc_ServerURL :: string
  fc_MaxReadingsPerMessage :: int
  fc_PollIntervalMs :: int
  fc_SendTimeoutMs :: int

record logConfig =
  lc_Level :: string
  lc_Format :: string

record mqttTLSConfig =
  mt_Enabled :: bool
  mt_CAFile :: string
  mt_CertFile :: string
  mt_KeyFile :: string
  mt_InsecureSkipVerify :: bool

record mqttFileConfig =
  mf_BrokerURL :: string
  mf_ClientID :: string
  mf_Username :: string
  mf_Password :: string
  mf_QoS :: int
  mf_DataTopic :: string
  mf_AckTopic :: string
  mf_KeepAliveSec :: int
  mf_ConnectTimeoutMs :: int
  mf_PublishTimeoutMs :: int
  mf_AckTimeoutMs :: int
  mf_TLS :: mqttTLSConfig

record timeConfig =
  tm_NTPServer :: string
  tm_Timezone :: string
  tm_SyncIntervalSec :: int
  tm_QueryTimeoutMs :: int
  tm_RTCDevice :: string

record config =
  cf_Gateway :: gatewayConfig
  cf_API :: apiConfig
  cf_DatabasePath :: string
  cf_Queue :: queueConfig
  cf_StoreForwardDisabled :: bool
  cf_Forwarder :: forwarderConfig
  cf_Log :: logConfig
  cf_MQTT :: mqttFileConfig
  cf_Time :: timeConfig

section \<open>Load and Save\<close>

definition orPos :: "int \<Rightarrow> int \<Rightarrow> int" where "orPos d n = (if n \<le> 0 then d else n)"
definition orStr :: "string \<Rightarrow> string \<Rightarrow> string" where "orStr d s = (if s = [] then d else s)"

lemma orPos_simps [simp]: "0 < n \<Longrightarrow> orPos d n = n" "0 < d \<Longrightarrow> 0 < orPos d n"
  by (simp_all add: orPos_def)

lemma orStr_simps [simp]: "s \<noteq> [] \<Longrightarrow> orStr d s = s" "d \<noteq> [] \<Longrightarrow> orStr d s \<noteq> []" "orStr d (orStr d s) = orStr d s"
  by (simp_all add: orStr_def)

definition defaultQueue :: "string \<Rightarrow> queueConfig \<Rightarrow> queueConfig" where
  "defaultQueue dbPath q =
     \<lparr>qc_Path = orStr (joinPath (dirPath dbPath) ''queue.db'') (qc_Path q),
      qc_MaxBytes = orPos (2 ^ 30) (qc_MaxBytes q),
      qc_MinFreePercent = (if f64_le (qc_MinFreePercent q) (f64_of_int 0) then f64_of_int 10 else qc_MinFreePercent q),
      qc_FlushIntervalMs = orPos 2000 (qc_FlushIntervalMs q),
      qc_MaintenanceIntervalSec = orPos 30 (qc_MaintenanceIntervalSec q)\<rparr>"

definition defaultForwarder :: "forwarderConfig \<Rightarrow> forwarderConfig" where
  "defaultForwarder f =
     f\<lparr>fc_MaxReadingsPerMessage := orPos 2000 (fc_MaxReadingsPerMessage f),
       fc_PollIntervalMs := orPos 1000 (fc_PollIntervalMs f),
       fc_SendTimeoutMs := orPos 5000 (fc_SendTimeoutMs f),
       fc_Transport := orStr ''http'' (fc_Transport f)\<rparr>"

definition defaultMQTT :: "string \<Rightarrow> mqttFileConfig \<Rightarrow> mqttFileConfig" where
  "defaultMQTT gatewayID m =
     (let clientID = orStr gatewayID (mf_ClientID m) in
      m\<lparr>mf_QoS := orPos 1 (mf_QoS m),
        mf_ClientID := clientID,
        mf_DataTopic := orStr (''gateway/'' @ clientID @ ''/data'') (mf_DataTopic m),
        mf_AckTopic := orStr (''gateway/'' @ clientID @ ''/ack'') (mf_AckTopic m),
        mf_KeepAliveSec := orPos 30 (mf_KeepAliveSec m),
        mf_ConnectTimeoutMs := orPos 5000 (mf_ConnectTimeoutMs m),
        mf_PublishTimeoutMs := orPos 5000 (mf_PublishTimeoutMs m),
        mf_AckTimeoutMs := orPos 10000 (mf_AckTimeoutMs m)\<rparr>)"

definition defaultTime :: "timeConfig \<Rightarrow> timeConfig" where
  "defaultTime t =
     t\<lparr>tm_SyncIntervalSec := orPos 300 (tm_SyncIntervalSec t),
       tm_QueryTimeoutMs := orPos 3000 (tm_QueryTimeoutMs t),
       tm_RTCDevice := orStr ''/dev/rtc0'' (tm_RTCDevice t),
       tm_Timezone := orStr ''UTC'' (tm_Timezone t)\<rparr>"

definition applyDefaults :: "config \<Rightarrow> config" where
  "applyDefaults c =
     c\<lparr>cf_Queue := defaultQueue (cf_DatabasePath c) (cf_Queue c),
       cf_Forwarder := defaultForwarder (cf_Forwarder c),
       cf_MQTT := defaultMQTT (gc_ID (cf_Gateway c)) (cf_MQTT c),
       cf_Time := defaultTime (cf_Time c)\<rparr>"

text \<open>\<open>file\<close> is the result of \<^verbatim>\<open>os.ReadFile\<close>.\<close>

definition load :: "(string \<Rightarrow> string) \<Rightarrow> (string \<Rightarrow> string + config) \<Rightarrow> string + string \<Rightarrow> string + config" where
  "load env unmarshal file =
     (case file of
        Inl e \<Rightarrow> Inl e
      | Inr raw \<Rightarrow>
          (case unmarshal (expandEnv env raw) of
             Inl e \<Rightarrow> Inl e
           | Inr cfg \<Rightarrow> Inr (applyDefaults cfg)))"

text \<open>
  \<^verbatim>\<open>os.WriteFile\<close> either writes everything or fails and leaves some contents behind: it truncates
  the file before it writes.
\<close>

type_synonym file_writer = "string \<Rightarrow> (string \<times> string) option"

definition saveConfig :: "(config \<Rightarrow> string + string) \<Rightarrow> file_writer \<Rightarrow> config \<Rightarrow> string \<Rightarrow> string option \<times> string" where
  "saveConfig marshal writeFile cfg file =
     (case marshal cfg of
        Inl e \<Rightarrow> (Some (''marshal config: '' @ e), file)
      | Inr data \<Rightarrow>
          (case writeFile data of
             Some (e, left) \<Rightarrow> (Some (''write config: '' @ e), left)
           | None \<Rightarrow> (None, data)))"

section \<open>The transport\<close>

text \<open>
  The certificate files: \<open>readFile\<close> is \<^verbatim>\<open>os.ReadFile\<close>, \<open>appendCerts\<close> whether a text holds a
  certificate, \<open>loadKeyPair\<close> the error of \<^verbatim>\<open>tls.LoadX509KeyPair\<close>.
\<close>

record tlsFiles =
  tf_readFile :: "string \<Rightarrow> string + string"
  tf_appendCerts :: "string \<Rightarrow> bool"
  tf_loadKeyPair :: "string \<Rightarrow> string \<Rightarrow> string option"

definition buildMQTTTLSConfig :: "tlsFiles \<Rightarrow> mqttTLSConfig \<Rightarrow> string + tlsConfig option" where
  "buildMQTTTLSConfig fs cfg =
     (if \<not> mt_Enabled cfg then Inr None
      else let tls = \<lparr>tc_InsecureSkipVerify = mt_InsecureSkipVerify cfg, tc_RootCAs = None, tc_Certificates = []\<rparr>;
               ca = (if mt_CAFile cfg = [] then Inr tls
                     else case tf_readFile fs (mt_CAFile cfg) of
                            Inl e \<Rightarrow> Inl (''read ca_file: '' @ e)
                          | Inr pem \<Rightarrow>
                              (if tf_appendCerts fs pem then Inr (tls\<lparr>tc_RootCAs := Some pem\<rparr>)
                               else Inl (''ca_file '' @ mt_CAFile cfg @ '' contains no valid certificates'')))
           in case ca of
                Inl e \<Rightarrow> Inl e
              | Inr tls \<Rightarrow>
                  (if mt_CertFile cfg \<noteq> [] \<or> mt_KeyFile cfg \<noteq> []
                   then (case tf_loadKeyPair fs (mt_CertFile cfg) (mt_KeyFile cfg) of
                           Some e \<Rightarrow> Inl (''load client certificate: '' @ e)
                         | None \<Rightarrow> Inr (Some (tls\<lparr>tc_Certificates := [(mt_CertFile cfg, mt_KeyFile cfg)]\<rparr>)))
                   else Inr (Some tls)))"

datatype adapterKind = HTTPKind string duration | MQTTKind mqttAdapter

text \<open>
  \<^verbatim>\<open>buildAdapter\<close>. The initial connect of the MQTT client may fail (\<open>connectErr\<close>) without stopping
  the gateway; the result says whether it did, and whether the watchdog was started. (The texts of
  errors here leave out the quotation marks of \<^verbatim>\<open>%q\<close>.)
\<close>

definition mqttConfigOf :: "mqttFileConfig \<Rightarrow> tlsConfig option \<Rightarrow> mqttConfig" where
  "mqttConfigOf m tls =
     \<lparr>mc_BrokerURL = mf_BrokerURL m, mc_ClientID = mf_ClientID m, mc_Username = mf_Username m,
      mc_Password = mf_Password m, mc_QoS = word_of_int (mf_QoS m), mc_DataTopic = mf_DataTopic m,
      mc_AckTopic = mf_AckTopic m, mc_KeepAlive = durationOf (mf_KeepAliveSec m) nanosPerSecond,
      mc_ConnectTimeout = durationOf (mf_ConnectTimeoutMs m) nanosPerMilli,
      mc_PublishTimeout = durationOf (mf_PublishTimeoutMs m) nanosPerMilli,
      mc_AckTimeout = durationOf (mf_AckTimeoutMs m) nanosPerMilli, mc_TLS = tls,
      mc_WatchdogInterval = 0, mc_ReconnectStuckAfter = 0\<rparr>"

definition buildAdapter :: "tlsFiles \<Rightarrow> (mqttAdapter \<Rightarrow> string option) \<Rightarrow> gotime \<Rightarrow> config \<Rightarrow>
    string + adapterKind \<times> string option \<times> bool" where
  "buildAdapter fs connectErr now cfg =
     (let t = fc_Transport (cf_Forwarder cfg) in
      if t = [] \<or> t = ''http''
      then Inr (HTTPKind (fc_ServerURL (cf_Forwarder cfg)) (durationOf (fc_SendTimeoutMs (cf_Forwarder cfg)) nanosPerMilli),
                None, False)
      else if t = ''mqtt''
      then (case buildMQTTTLSConfig fs (mf_TLS (cf_MQTT cfg)) of
              Inl e \<Rightarrow> Inl (''mqtt tls config: '' @ e)
            | Inr tls \<Rightarrow> let a = newMQTTAdapter (mqttConfigOf (cf_MQTT cfg) tls) now
                         in Inr (MQTTKind a, connectErr a, True))
      else Inl (''unknown forwarder transport '' @ t))"

section \<open>The settings page\<close>

record settingsDTO =
  sd_GatewayID :: string
  sd_GatewayName :: string
  sd_Transport :: string
  sd_BrokerURL :: string
  sd_ClientID :: string
  sd_Username :: string
  sd_Password :: string
  sd_QoS :: int
  sd_DataTopic :: string
  sd_AckTopic :: string
  sd_KeepAliveSec :: int
  sd_NTPServer :: string
  sd_Timezone :: string
  sd_SyncIntervalSec :: int
  sd_MaxBytes :: int
  sd_MinFreePercent :: float64
  sd_Enabled :: bool

datatype settingsError =
    InvalidJSON string
  | GatewayIDRequired
  | BrokerURLRequired
  | BrokerURLInvalid string
  | TransportInvalid
  | TLSInvalid string
  | BrokerUnreachable string string
  | NTPServerInvalid string
  | ConfigPathUnknown
  | SaveFailed string

datatype settingsReply =
    Settings settingsDTO
  | Saved
  | Failed int settingsError

definition stripPrefix :: "string \<Rightarrow> string \<Rightarrow> string option" where
  "stripPrefix prefix s = (if hasPrefix prefix (toLower s) then Some (trimSpace (drop (length prefix) s)) else None)"

definition normalizeNTPServer :: "string \<Rightarrow> settingsError + string" where
  "normalizeNTPServer raw =
     (let s = trimSpace raw in
      if s = [] then Inr []
      else let s = (case stripPrefix ''server '' s of
                      Some t \<Rightarrow> t
                    | None \<Rightarrow> (case stripPrefix ''pool '' s of Some t \<Rightarrow> t | None \<Rightarrow> s))
           in if list_ex (\<lambda>c. (of_char c :: nat) \<in> {32, 9, 13, 10}) s then Inl (NTPServerInvalid raw) else Inr s)"

text \<open>\<open>parseHost\<close> is the host \<^verbatim>\<open>url.Parse\<close> finds, or its failure.\<close>

definition normalizeBrokerURL :: "(string \<Rightarrow> string option) \<Rightarrow> string \<Rightarrow> settingsError + string" where
  "normalizeBrokerURL parseHost raw =
     (let s = trimSpace raw in
      if s = [] then Inl BrokerURLRequired
      else case parseHost s of
             None \<Rightarrow> Inl (BrokerURLInvalid raw)
           | Some host \<Rightarrow> (if host = [] then Inl (BrokerURLInvalid raw) else Inr s))"

record settingsEnv =
  se_parseHost :: "string \<Rightarrow> string option"
  se_tlsFiles :: tlsFiles
  se_connect :: "mqttAdapter \<Rightarrow> string option"
  se_now :: gotime
  se_marshal :: "config \<Rightarrow> string + string"
  se_writeFile :: file_writer

text \<open>The trial connection, with a client id of its own.\<close>

definition testMQTTConnect :: "settingsEnv \<Rightarrow> mqttFileConfig \<Rightarrow> string \<Rightarrow> settingsError option" where
  "testMQTTConnect env cfg transport =
     (if transport \<noteq> ''mqtt'' then None
      else case buildMQTTTLSConfig (se_tlsFiles env) (mf_TLS cfg) of
             Inl e \<Rightarrow> Some (TLSInvalid e)
           | Inr tls \<Rightarrow>
               (let t = durationOf (mf_ConnectTimeoutMs cfg) nanosPerMilli;
                    timeout = (if t \<le> 0 then 5 * nanosPerSecond else t);
                    clientID = orStr ''gateway'' (mf_ClientID cfg) @ ''-settings-test-'' @ decimal (se_now env);
                    a = newMQTTAdapter ((mqttConfigOf cfg tls)\<lparr>mc_ClientID := clientID, mc_ConnectTimeout := timeout,
                          mc_PublishTimeout := 0, mc_AckTimeout := 0\<rparr>) (se_now env)
                in case se_connect env a of
                     None \<Rightarrow> None
                   | Some e \<Rightarrow> Some (BrokerUnreachable (mf_BrokerURL cfg) e)))"

record settingsServer =
  sv_cfg :: config
  sv_configPath :: string
  sv_file :: string
  sv_exiting :: bool

definition getSettings :: "settingsServer \<Rightarrow> settingsReply" where
  "getSettings s =
     (let c = sv_cfg s in Settings
      \<lparr>sd_GatewayID = gc_ID (cf_Gateway c), sd_GatewayName = gc_Name (cf_Gateway c),
       sd_Transport = fc_Transport (cf_Forwarder c), sd_BrokerURL = mf_BrokerURL (cf_MQTT c),
       sd_ClientID = mf_ClientID (cf_MQTT c), sd_Username = mf_Username (cf_MQTT c), sd_Password = [],
       sd_QoS = mf_QoS (cf_MQTT c), sd_DataTopic = mf_DataTopic (cf_MQTT c), sd_AckTopic = mf_AckTopic (cf_MQTT c),
       sd_KeepAliveSec = mf_KeepAliveSec (cf_MQTT c), sd_NTPServer = tm_NTPServer (cf_Time c),
       sd_Timezone = tm_Timezone (cf_Time c), sd_SyncIntervalSec = tm_SyncIntervalSec (cf_Time c),
       sd_MaxBytes = qc_MaxBytes (cf_Queue c), sd_MinFreePercent = qc_MinFreePercent (cf_Queue c),
       sd_Enabled = (\<not> cf_StoreForwardDisabled c)\<rparr>)"

definition validateBroker :: "settingsEnv \<Rightarrow> settingsDTO \<Rightarrow> settingsError + string" where
  "validateBroker env dto =
     (if sd_Enabled dto
      then (case normalizeBrokerURL (se_parseHost env) (sd_BrokerURL dto) of
              Inl e \<Rightarrow> Inl e
            | Inr u \<Rightarrow> (if sd_Transport dto = ''http'' \<or> sd_Transport dto = ''mqtt'' then Inr u else Inl TransportInvalid))
      else Inr (trimSpace (sd_BrokerURL dto)))"

definition submittedMQTT :: "string \<Rightarrow> settingsDTO \<Rightarrow> mqttFileConfig \<Rightarrow> mqttFileConfig" where
  "submittedMQTT brokerURL dto m =
     m\<lparr>mf_BrokerURL := brokerURL, mf_ClientID := sd_ClientID dto, mf_Username := sd_Username dto,
       mf_Password := orStr (mf_Password m) (sd_Password dto),
       mf_QoS := orPos (mf_QoS m) (sd_QoS dto),
       mf_DataTopic := orStr (mf_DataTopic m) (sd_DataTopic dto),
       mf_AckTopic := orStr (mf_AckTopic m) (sd_AckTopic dto),
       mf_KeepAliveSec := orPos (mf_KeepAliveSec m) (sd_KeepAliveSec dto)\<rparr>"

definition commitGateway :: "settingsDTO \<Rightarrow> mqttFileConfig \<Rightarrow> config \<Rightarrow> config" where
  "commitGateway dto newMQTT c =
     c\<lparr>cf_Gateway := \<lparr>gc_ID = sd_GatewayID dto, gc_Name = sd_GatewayName dto\<rparr>,
       cf_StoreForwardDisabled := \<not> sd_Enabled dto,
       cf_Forwarder := (cf_Forwarder c)\<lparr>fc_Transport := sd_Transport dto\<rparr>,
       cf_MQTT := newMQTT\<rparr>"

definition commitTime :: "settingsDTO \<Rightarrow> string \<Rightarrow> config \<Rightarrow> config" where
  "commitTime dto ntpServer c =
     c\<lparr>cf_Time := (cf_Time c)\<lparr>tm_NTPServer := ntpServer, tm_Timezone := sd_Timezone dto,
         tm_SyncIntervalSec := orPos (tm_SyncIntervalSec (cf_Time c)) (sd_SyncIntervalSec dto)\<rparr>,
       cf_Queue := (cf_Queue c)\<lparr>qc_MaxBytes := orPos (qc_MaxBytes (cf_Queue c)) (sd_MaxBytes dto),
         qc_MinFreePercent := (if f64_lt (f64_of_int 0) (sd_MinFreePercent dto) then sd_MinFreePercent dto
                               else qc_MinFreePercent (cf_Queue c))\<rparr>\<rparr>"

definition saveSettings :: "settingsEnv \<Rightarrow> string + settingsDTO \<Rightarrow> settingsServer \<Rightarrow> settingsReply \<times> settingsServer" where
  "saveSettings env body s =
     (case body of
        Inl e \<Rightarrow> (Failed 400 (InvalidJSON e), s)
      | Inr dto \<Rightarrow>
          (if sd_GatewayID dto = [] then (Failed 400 GatewayIDRequired, s)
           else case validateBroker env dto of
             Inl e \<Rightarrow> (Failed 400 e, s)
           | Inr brokerURL \<Rightarrow>
               (let newMQTT = submittedMQTT brokerURL dto (cf_MQTT (sv_cfg s)) in
                case (if sd_Enabled dto then testMQTTConnect env newMQTT (sd_Transport dto) else None) of
                  Some e \<Rightarrow> (Failed 400 e, s)
                | None \<Rightarrow>
                    (let s = s\<lparr>sv_cfg := commitGateway dto newMQTT (sv_cfg s)\<rparr> in
                     case normalizeNTPServer (sd_NTPServer dto) of
                       Inl e \<Rightarrow> (Failed 400 e, s)
                     | Inr ntpServer \<Rightarrow>
                         (let s = s\<lparr>sv_cfg := commitTime dto ntpServer (sv_cfg s)\<rparr> in
                          if sv_configPath s = [] then (Failed 500 ConfigPathUnknown, s)
                          else case saveConfig (se_marshal env) (se_writeFile env) (sv_cfg s) (sv_file s) of
                                 (Some e, file) \<Rightarrow> (Failed 500 (SaveFailed e), s\<lparr>sv_file := file\<rparr>)
                               | (None, file) \<Rightarrow> (Saved, s\<lparr>sv_file := file, sv_exiting := True\<rparr>))))))"

section \<open>Defaults\<close>

lemma cleanPath_nonempty [simp]: "cleanPath p \<noteq> []"
  by (simp add: cleanPath_def Let_def)

lemma joinPath_nonempty [simp]: "b \<noteq> [] \<Longrightarrow> joinPath a b \<noteq> []"
  by (simp add: joinPath_def)

lemma f64_ten: "f64_of_int 10 = 0x4024000000000000" "f64_of_int 0 = 0"
proof -
  have "bitLen 10 = 4" "bitLen 1 = 1" by (simp_all add: bitLen.simps)
  then show "f64_of_int 10 = 0x4024000000000000"
    by (simp add: f64_of_int_def f64_round_def f64_round_mag_def f64_exponent_def flog2_def pow2_le_def
        f64_pack_def f64_inf_mag_def Let_def)
  show "f64_of_int 0 = 0"
    by (simp add: f64_of_int_def f64_round_def f64_round_mag_def f64_pack_def)
qed

lemma f64_ten_pos: "f64_le (f64_of_int 10) (f64_of_int 0) = False"
  by (simp add: f64_ten f64_le_def f64_key_def f64_neg_def f64_mag_def bit_numeral_word_iff)

lemma orPos_orPos [simp]: "orPos d (orPos d n) = orPos d n"
  by (simp add: orPos_def)

lemmas section_defaults = defaultQueue_def defaultForwarder_def defaultMQTT_def defaultTime_def Let_def

lemma applyDefaults_idem: "applyDefaults (applyDefaults c) = applyDefaults c"
  by (simp add: applyDefaults_def section_defaults f64_ten_pos)

text \<open>What every component may rely on after \<^verbatim>\<open>Load\<close>.\<close>

definition configOk :: "config \<Rightarrow> bool" where
  "configOk c \<longleftrightarrow>
     qc_Path (cf_Queue c) \<noteq> [] \<and> 0 < qc_MaxBytes (cf_Queue c) \<and>
     \<not> f64_le (qc_MinFreePercent (cf_Queue c)) (f64_of_int 0) \<and>
     0 < qc_FlushIntervalMs (cf_Queue c) \<and> 0 < qc_MaintenanceIntervalSec (cf_Queue c) \<and>
     0 < fc_MaxReadingsPerMessage (cf_Forwarder c) \<and> 0 < fc_PollIntervalMs (cf_Forwarder c) \<and>
     0 < fc_SendTimeoutMs (cf_Forwarder c) \<and> fc_Transport (cf_Forwarder c) \<noteq> [] \<and>
     0 < mf_QoS (cf_MQTT c) \<and> (gc_ID (cf_Gateway c) \<noteq> [] \<longrightarrow> mf_ClientID (cf_MQTT c) \<noteq> []) \<and>
     mf_DataTopic (cf_MQTT c) \<noteq> [] \<and> mf_AckTopic (cf_MQTT c) \<noteq> [] \<and> 0 < mf_KeepAliveSec (cf_MQTT c) \<and>
     0 < mf_ConnectTimeoutMs (cf_MQTT c) \<and> 0 < mf_PublishTimeoutMs (cf_MQTT c) \<and> 0 < mf_AckTimeoutMs (cf_MQTT c) \<and>
     0 < tm_SyncIntervalSec (cf_Time c) \<and> 0 < tm_QueryTimeoutMs (cf_Time c) \<and>
     tm_RTCDevice (cf_Time c) \<noteq> [] \<and> tm_Timezone (cf_Time c) \<noteq> []"

lemma applyDefaults_fixes: "configOk c \<Longrightarrow> gc_ID (cf_Gateway c) \<noteq> [] \<Longrightarrow> applyDefaults c = c"
  by (simp add: configOk_def applyDefaults_def section_defaults)

lemma orStr_id [simp]: "d \<noteq> [] \<Longrightarrow> orStr d s = [] \<longleftrightarrow> False"
  by (simp add: orStr_def)

lemma applyDefaults_ok: "configOk (applyDefaults c)"
  by (simp add: configOk_def applyDefaults_def section_defaults f64_ten_pos)

text \<open>
  Loading the configuration. Whatever the file says, a successful load gives a configuration every
  component can run with (limits and intervals positive, a transport, topics and paths that are not
  empty); it changes nothing in a configuration that is already complete and has a gateway id; and
  with an empty client id the client and the topics are named after the gateway.
\<close>

theorem load_fills_defaults:
  assumes "load env unmarshal file = Inr c"
  shows "configOk c \<and> applyDefaults c = c \<and>
    (\<exists>raw c0. file = Inr raw \<and> unmarshal (expandEnv env raw) = Inr c0 \<and>
       cf_Gateway c = cf_Gateway c0 \<and> cf_API c = cf_API c0 \<and> cf_DatabasePath c = cf_DatabasePath c0 \<and>
       cf_StoreForwardDisabled c = cf_StoreForwardDisabled c0 \<and> cf_Log c = cf_Log c0 \<and>
       (configOk c0 \<and> gc_ID (cf_Gateway c0) \<noteq> [] \<longrightarrow> c = c0) \<and>
       (mf_ClientID (cf_MQTT c0) = [] \<and> mf_DataTopic (cf_MQTT c0) = [] \<longrightarrow>
          mf_DataTopic (cf_MQTT c) = ''gateway/'' @ gc_ID (cf_Gateway c) @ ''/data''))"
proof -
  obtain raw c0 where c0: "file = Inr raw" "unmarshal (expandEnv env raw) = Inr c0" "c = applyDefaults c0"
    using assms by (auto simp: load_def split: sum.splits)
  have same: "cf_Gateway c = cf_Gateway c0" "cf_API c = cf_API c0" "cf_DatabasePath c = cf_DatabasePath c0"
    "cf_StoreForwardDisabled c = cf_StoreForwardDisabled c0" "cf_Log c = cf_Log c0"
    by (simp_all add: c0(3) applyDefaults_def)
  have topic: "mf_DataTopic (cf_MQTT c) = ''gateway/'' @ gc_ID (cf_Gateway c) @ ''/data''"
    if "mf_ClientID (cf_MQTT c0) = []" "mf_DataTopic (cf_MQTT c0) = []"
    using that by (simp add: c0(3) applyDefaults_def section_defaults orStr_def)
  show ?thesis
    using c0 same topic applyDefaults_ok applyDefaults_idem applyDefaults_fixes by blast
qed

definition emptyConfig :: config where
  "emptyConfig =
     \<lparr>cf_Gateway = \<lparr>gc_ID = ''gw'', gc_Name = []\<rparr>, cf_API = \<lparr>ac_ListenAddr = [], ac_StaticDir = []\<rparr>,
      cf_DatabasePath = ''/data/gateway.db'',
      cf_Queue = \<lparr>qc_Path = [], qc_MaxBytes = 0, qc_MinFreePercent = 0, qc_FlushIntervalMs = 0, qc_MaintenanceIntervalSec = 0\<rparr>,
      cf_StoreForwardDisabled = False,
      cf_Forwarder = \<lparr>fc_Transport = [], fc_ServerURL = [], fc_MaxReadingsPerMessage = 0, fc_PollIntervalMs = 0,
        fc_SendTimeoutMs = 0\<rparr>,
      cf_Log = \<lparr>lc_Level = [], lc_Format = []\<rparr>,
      cf_MQTT = \<lparr>mf_BrokerURL = [], mf_ClientID = [], mf_Username = [], mf_Password = [], mf_QoS = 0, mf_DataTopic = [],
        mf_AckTopic = [], mf_KeepAliveSec = 0, mf_ConnectTimeoutMs = 0, mf_PublishTimeoutMs = 0, mf_AckTimeoutMs = 0,
        mf_TLS = \<lparr>mt_Enabled = False, mt_CAFile = [], mt_CertFile = [], mt_KeyFile = [], mt_InsecureSkipVerify = False\<rparr>\<rparr>,
      cf_Time = \<lparr>tm_NTPServer = [], tm_Timezone = [], tm_SyncIntervalSec = 0, tm_QueryTimeoutMs = 0, tm_RTCDevice = []\<rparr>\<rparr>"

theorem load_fills_defaults_witness:
  "configOk (applyDefaults emptyConfig) \<and>
   mf_DataTopic (cf_MQTT (applyDefaults emptyConfig)) = ''gateway/gw/data'' \<and>
   qc_Path (cf_Queue (applyDefaults emptyConfig)) = ''/data/queue.db''"
proof -
  have "load (\<lambda>_. []) (\<lambda>_. Inr emptyConfig) (Inr ''gateway:'') = Inr (applyDefaults emptyConfig)"
    by (simp add: load_def)
  note this' = load_fills_defaults [OF this]
  have "joinPath (dirPath ''/data/gateway.db'') ''queue.db'' = ''/data/queue.db''"
    by (simp add: joinPath_def dirPath_def cleanPath_def cleanStep_def Let_def)
  with this' show ?thesis
    by (simp add: emptyConfig_def applyDefaults_def section_defaults orStr_def)
qed

section \<open>Saving the settings\<close>

lemma expandEnv_plain: "CHR ''$'' \<notin> set s \<Longrightarrow> expandEnv env s = s"
  by (induction s) auto

text \<open>A dollar sign in the text is expanded, whether it was meant as a variable or not.\<close>

lemma expandEnv_variable:
  assumes "CHR ''$'' \<notin> set pre" "name \<noteq> []" "list_all isAlphaNum name" "\<not> isShellSpecialVar (hd name)"
    "post = [] \<or> \<not> isAlphaNum (hd post)" "CHR ''$'' \<notin> set post"
  shows "expandEnv env (pre @ CHR ''$'' # name @ post) = pre @ env name @ post"
  using assms(1)
proof (induction pre)
  case Nil
  have w: "takeWhile isAlphaNum (name @ post) = name"
    using assms(3,5) by (cases post) (auto simp: list_all_iff takeWhile_append2)
  have "hd name \<noteq> CHR ''{''"
    using assms(2,3) by (cases name) (auto simp: isAlphaNum_def Let_def)
  then have "getShellName (name @ post) = (name, length name)"
    using assms(2,4) w by (cases name) (auto simp: getShellName_def Let_def)
  then show ?case using assms(2,6) by (simp add: expandEnv_plain)
qed auto

lemma saveConfig_ok: "saveConfig marshal write cfg file = (None, file') \<Longrightarrow> marshal cfg = Inr file'"
  by (auto simp: saveConfig_def split: sum.splits option.splits)

lemma submittedMQTT_TLS [simp]: "mf_TLS (submittedMQTT u dto m) = mf_TLS m"
  by (simp add: submittedMQTT_def)

lemma normalizeBrokerURL_ok: "normalizeBrokerURL parseHost raw = Inr u \<Longrightarrow> u = trimSpace raw \<and> u \<noteq> []"
  by (auto simp: normalizeBrokerURL_def Let_def split: if_splits option.splits)

lemma validateBroker_ok:
  assumes "validateBroker env dto = Inr u"
  shows "u = trimSpace (sd_BrokerURL dto) \<and>
    (sd_Enabled dto \<longrightarrow> u \<noteq> [] \<and> (sd_Transport dto = ''http'' \<or> sd_Transport dto = ''mqtt''))"
  using assms normalizeBrokerURL_ok by (fastforce simp: validateBroker_def split: if_splits sum.splits)

lemma testMQTTConnect_ok:
  "testMQTTConnect env m ''mqtt'' = None \<Longrightarrow> \<exists>tls. buildMQTTTLSConfig (se_tlsFiles env) (mf_TLS m) = Inr tls"
  by (auto simp: testMQTTConnect_def split: sum.splits)

lemma saveSettings_saved:
  assumes "saveSettings env (Inr dto) s = (Saved, s')"
  shows "\<exists>u ntp. validateBroker env dto = Inr u \<and> normalizeNTPServer (sd_NTPServer dto) = Inr ntp \<and>
    (sd_Enabled dto \<longrightarrow> testMQTTConnect env (submittedMQTT u dto (cf_MQTT (sv_cfg s))) (sd_Transport dto) = None) \<and>
    sd_GatewayID dto \<noteq> [] \<and> sv_exiting s' \<and>
    sv_cfg s' = commitTime dto ntp (commitGateway dto (submittedMQTT u dto (cf_MQTT (sv_cfg s))) (sv_cfg s)) \<and>
    se_marshal env (sv_cfg s') = Inr (sv_file s')"
  using assms
  by (auto simp: saveSettings_def Let_def split: if_splits sum.splits option.splits prod.splits dest: saveConfig_ok)

lemma orPos_split: "orPos d n = (if 0 < n then n else d)"
  by (simp add: orPos_def)

lemma positive_percent: "f64_lt (f64_of_int 0) x \<Longrightarrow> \<not> f64_le x (f64_of_int 0)"
  by (auto simp: f64_lt_def f64_le_def)

text \<open>
  The sections of a configuration with submitted settings, after the next start: each is the section of
  the running configuration \<open>old\<close> (with its defaults) with the submitted values where the page gives
  one; a count that is not positive, a percentage that is not, an empty topic keep the old value.
\<close>

lemma restarted_queue:
  "cf_Queue (applyDefaults (commitTime dto ntp (commitGateway dto m c))) =
     (let q = cf_Queue (applyDefaults c) in
      q\<lparr>qc_MaxBytes := if 0 < sd_MaxBytes dto then sd_MaxBytes dto else qc_MaxBytes q,
        qc_MinFreePercent := if f64_lt (f64_of_int 0) (sd_MinFreePercent dto) then sd_MinFreePercent dto
                             else qc_MinFreePercent q\<rparr>)"
  by (simp add: applyDefaults_def section_defaults commitTime_def commitGateway_def orPos_split positive_percent)

lemma restarted_time:
  "cf_Time (applyDefaults (commitTime dto ntp (commitGateway dto m c))) =
     (let t = cf_Time (applyDefaults c) in
      t\<lparr>tm_NTPServer := ntp, tm_Timezone := orStr ''UTC'' (sd_Timezone dto),
        tm_SyncIntervalSec := if 0 < sd_SyncIntervalSec dto then sd_SyncIntervalSec dto else tm_SyncIntervalSec t\<rparr>)"
  by (simp add: applyDefaults_def section_defaults commitTime_def commitGateway_def orPos_split)

lemma restarted_forwarder:
  "cf_Forwarder (applyDefaults (commitTime dto ntp (commitGateway dto m c))) =
     (cf_Forwarder (applyDefaults c))\<lparr>fc_Transport := orStr ''http'' (sd_Transport dto)\<rparr>"
  by (simp add: applyDefaults_def section_defaults commitTime_def commitGateway_def)

lemma restarted_gateway:
  fixes dto ntp m c
  defines "r \<equiv> applyDefaults (commitTime dto ntp (commitGateway dto m c))"
  shows "gc_ID (cf_Gateway r) = sd_GatewayID dto" "gc_Name (cf_Gateway r) = sd_GatewayName dto"
    "cf_StoreForwardDisabled r = (\<not> sd_Enabled dto)" "cf_API r = cf_API (applyDefaults c)"
    "cf_DatabasePath r = cf_DatabasePath (applyDefaults c)" "cf_Log r = cf_Log (applyDefaults c)"
  unfolding r_def by (simp_all add: applyDefaults_def commitTime_def commitGateway_def)

lemma restarted_mqtt:
  fixes dto ntp u c
  defines "r \<equiv> cf_MQTT (applyDefaults (commitTime dto ntp (commitGateway dto (submittedMQTT u dto (cf_MQTT c)) c)))"
  shows "u = v \<Longrightarrow> mf_BrokerURL r = v"
    "mf_ClientID r = (if sd_ClientID dto = [] then sd_GatewayID dto else sd_ClientID dto)"
    "mf_Username r = sd_Username dto"
    "mf_Password r = (if sd_Password dto = [] then mf_Password (cf_MQTT (applyDefaults c)) else sd_Password dto)"
    "mf_QoS r = (if 0 < sd_QoS dto then sd_QoS dto else mf_QoS (cf_MQTT (applyDefaults c)))"
    "mf_KeepAliveSec r = (if 0 < sd_KeepAliveSec dto then sd_KeepAliveSec dto else mf_KeepAliveSec (cf_MQTT (applyDefaults c)))"
    "let topic = orStr (mf_DataTopic (cf_MQTT c)) (sd_DataTopic dto) in topic \<noteq> [] \<longrightarrow> mf_DataTopic r = topic"
    "let topic = orStr (mf_AckTopic (cf_MQTT c)) (sd_AckTopic dto) in topic \<noteq> [] \<longrightarrow> mf_AckTopic r = topic"
    "mf_TLS r = mf_TLS (cf_MQTT (applyDefaults c))"
proof -
  define m where "m = cf_MQTT c"
  have "r = defaultMQTT (sd_GatewayID dto) (submittedMQTT u dto m)"
    "cf_MQTT (applyDefaults c) = defaultMQTT (gc_ID (cf_Gateway c)) m"
    unfolding r_def m_def by (simp_all add: applyDefaults_def commitTime_def commitGateway_def)
  then show "u = v \<Longrightarrow> mf_BrokerURL r = v"
    "mf_ClientID r = (if sd_ClientID dto = [] then sd_GatewayID dto else sd_ClientID dto)"
    "mf_Username r = sd_Username dto"
    "mf_Password r = (if sd_Password dto = [] then mf_Password (cf_MQTT (applyDefaults c)) else sd_Password dto)"
    "mf_QoS r = (if 0 < sd_QoS dto then sd_QoS dto else mf_QoS (cf_MQTT (applyDefaults c)))"
    "mf_KeepAliveSec r = (if 0 < sd_KeepAliveSec dto then sd_KeepAliveSec dto else mf_KeepAliveSec (cf_MQTT (applyDefaults c)))"
    "let topic = orStr (mf_DataTopic (cf_MQTT c)) (sd_DataTopic dto) in topic \<noteq> [] \<longrightarrow> mf_DataTopic r = topic"
    "let topic = orStr (mf_AckTopic (cf_MQTT c)) (sd_AckTopic dto) in topic \<noteq> [] \<longrightarrow> mf_AckTopic r = topic"
    "mf_TLS r = mf_TLS (cf_MQTT (applyDefaults c))"
    by (simp_all add: defaultMQTT_def submittedMQTT_def Let_def orPos_split orStr_def m_def [symmetric])
qed

lemma restarted_buildable:
  assumes "validateBroker env dto = Inr u"
    and "testMQTTConnect env (submittedMQTT u dto (cf_MQTT c)) (sd_Transport dto) = None" "sd_Enabled dto"
  shows "\<exists>a. buildAdapter (se_tlsFiles env) connectErr now
    (applyDefaults (commitTime dto ntp (commitGateway dto (submittedMQTT u dto (cf_MQTT c)) c))) = Inr a"
proof -
  let ?c = "applyDefaults (commitTime dto ntp (commitGateway dto (submittedMQTT u dto (cf_MQTT c)) c))"
  have tls: "mf_TLS (cf_MQTT ?c) = mf_TLS (submittedMQTT u dto (cf_MQTT c))"
    by (simp add: applyDefaults_def section_defaults commitTime_def commitGateway_def)
  have tr: "sd_Transport dto = ''http'' \<or> sd_Transport dto = ''mqtt''" using validateBroker_ok [OF assms(1)] assms(3) by blast
  then have t: "fc_Transport (cf_Forwarder ?c) = sd_Transport dto" by (auto simp: restarted_forwarder)
  show ?thesis
  proof (cases "sd_Transport dto = ''mqtt''")
    case True
    with assms(2) testMQTTConnect_ok obtain x where "buildMQTTTLSConfig (se_tlsFiles env) (mf_TLS (cf_MQTT ?c)) = Inr x"
      using tls by metis
    then show ?thesis by (simp add: buildAdapter_def t True Let_def) blast
  qed (use tr in \<open>auto simp: buildAdapter_def t\<close>)
qed

text \<open>
  C30: saved settings take effect at the restart. If the settings page's request is answered with
  success, and the written file contains no dollar sign, the next start loads the submitted settings
  (given that reading back what the YAML library has written gives the same configuration): identity,
  broker, credentials (the old password when none is given), switch and transport; quality of service,
  topics and keep-alive; NTP server (normalised), time zone and synchronisation interval; size limit and
  free-space limit of the queue. A number that is not positive and an empty topic keep the running
  value, an empty time zone means \<^verbatim>\<open>UTC\<close>, and everything the page does not show is left as it was.
  If Store \& Forward is enabled, that start can build its transport: neither the transport's name nor
  the certificate files stop it.
\<close>

theorem settings_survive_restart:
  assumes saved: "saveSettings env (Inr dto) s = (Saved, s')"
    and yaml: "\<And>c t. se_marshal env c = Inr t \<Longrightarrow> unmarshal t = Inr c"
    and plain: "CHR ''$'' \<notin> set (sv_file s')"
    and old: "old = applyDefaults (sv_cfg s)"
  shows "\<exists>c ntp. load osEnv unmarshal (Inr (sv_file s')) = Inr c \<and> sv_exiting s' \<and>
    gc_ID (cf_Gateway c) = sd_GatewayID dto \<and> gc_Name (cf_Gateway c) = sd_GatewayName dto \<and>
    cf_StoreForwardDisabled c = (\<not> sd_Enabled dto) \<and>
    mf_BrokerURL (cf_MQTT c) = trimSpace (sd_BrokerURL dto) \<and>
    mf_ClientID (cf_MQTT c) = (if sd_ClientID dto = [] then sd_GatewayID dto else sd_ClientID dto) \<and>
    mf_Username (cf_MQTT c) = sd_Username dto \<and>
    mf_Password (cf_MQTT c) = (if sd_Password dto = [] then mf_Password (cf_MQTT old) else sd_Password dto) \<and>
    mf_QoS (cf_MQTT c) = (if 0 < sd_QoS dto then sd_QoS dto else mf_QoS (cf_MQTT old)) \<and>
    mf_KeepAliveSec (cf_MQTT c) = (if 0 < sd_KeepAliveSec dto then sd_KeepAliveSec dto else mf_KeepAliveSec (cf_MQTT old)) \<and>
    (let topic = orStr (mf_DataTopic (cf_MQTT (sv_cfg s))) (sd_DataTopic dto) in
       topic \<noteq> [] \<longrightarrow> mf_DataTopic (cf_MQTT c) = topic) \<and>
    (let topic = orStr (mf_AckTopic (cf_MQTT (sv_cfg s))) (sd_AckTopic dto) in
       topic \<noteq> [] \<longrightarrow> mf_AckTopic (cf_MQTT c) = topic) \<and>
    mf_TLS (cf_MQTT c) = mf_TLS (cf_MQTT old) \<and>
    normalizeNTPServer (sd_NTPServer dto) = Inr ntp \<and>
    cf_Time c = (cf_Time old)\<lparr>tm_NTPServer := ntp, tm_Timezone := orStr ''UTC'' (sd_Timezone dto),
      tm_SyncIntervalSec := if 0 < sd_SyncIntervalSec dto then sd_SyncIntervalSec dto
                            else tm_SyncIntervalSec (cf_Time old)\<rparr> \<and>
    cf_Queue c = (cf_Queue old)
      \<lparr>qc_MaxBytes := if 0 < sd_MaxBytes dto then sd_MaxBytes dto else qc_MaxBytes (cf_Queue old),
       qc_MinFreePercent := if f64_lt (f64_of_int 0) (sd_MinFreePercent dto) then sd_MinFreePercent dto
                            else qc_MinFreePercent (cf_Queue old)\<rparr> \<and>
    cf_Forwarder c = (cf_Forwarder old)\<lparr>fc_Transport := orStr ''http'' (sd_Transport dto)\<rparr> \<and>
    cf_API c = cf_API old \<and> cf_DatabasePath c = cf_DatabasePath old \<and> cf_Log c = cf_Log old \<and>
    (sd_Enabled dto \<longrightarrow> fc_Transport (cf_Forwarder c) = sd_Transport dto \<and>
       (\<forall>connectErr now. \<exists>a. buildAdapter (se_tlsFiles env) connectErr now c = Inr a))"
proof -
  obtain u ntp where u: "validateBroker env dto = Inr u" and ntp: "normalizeNTPServer (sd_NTPServer dto) = Inr ntp"
    and test: "sd_Enabled dto \<longrightarrow> testMQTTConnect env (submittedMQTT u dto (cf_MQTT (sv_cfg s))) (sd_Transport dto) = None"
    and ex: "sv_exiting s'"
    and cfg: "sv_cfg s' = commitTime dto ntp (commitGateway dto (submittedMQTT u dto (cf_MQTT (sv_cfg s))) (sv_cfg s))"
    and written: "se_marshal env (sv_cfg s') = Inr (sv_file s')"
    using saveSettings_saved [OF saved] by blast
  let ?c = "applyDefaults (commitTime dto ntp (commitGateway dto (submittedMQTT u dto (cf_MQTT (sv_cfg s))) (sv_cfg s)))"
  have l: "load osEnv unmarshal (Inr (sv_file s')) = Inr ?c"
    using yaml [OF written] plain cfg by (simp add: load_def expandEnv_plain)
  have "\<exists>a. buildAdapter (se_tlsFiles env) connectErr now ?c = Inr a" if "sd_Enabled dto" for connectErr now
    using restarted_buildable [OF u _ that] test that by simp
  moreover have "fc_Transport (cf_Forwarder ?c) = sd_Transport dto" if "sd_Enabled dto"
    using validateBroker_ok [OF u] that by (auto simp: restarted_forwarder)
  moreover have "u = trimSpace (sd_BrokerURL dto)" using validateBroker_ok [OF u] by blast
  ultimately show ?thesis unfolding old
    by (intro exI [of _ ?c] exI [of _ ntp] conjI [OF l] conjI [OF ex] conjI impI restarted_gateway restarted_mqtt ntp
          restarted_time [unfolded Let_def] restarted_queue [unfolded Let_def] restarted_forwarder)
      blast+
qed

lemma saveSettings_failed:
  assumes "saveSettings env body s = (Failed code e, s')"
  shows "(code = 400 \<and> s' = s \<and> (\<forall>raw. e \<noteq> NTPServerInvalid raw)) \<or>
    (\<exists>dto u. code = 400 \<and> body = Inr dto \<and> e = NTPServerInvalid (sd_NTPServer dto) \<and>
       s' = s\<lparr>sv_cfg := commitGateway dto (submittedMQTT u dto (cf_MQTT (sv_cfg s))) (sv_cfg s)\<rparr>) \<or>
    (code = 500 \<and> sv_exiting s' = sv_exiting s)"
proof -
  have broker: "validateBroker env dto = Inl err \<Longrightarrow> err \<noteq> NTPServerInvalid raw" for dto err raw
    by (auto simp: validateBroker_def normalizeBrokerURL_def Let_def split: if_splits sum.splits option.splits)
  have test: "testMQTTConnect env m t = Some err \<Longrightarrow> err \<noteq> NTPServerInvalid raw" for m t err raw
    by (auto simp: testMQTTConnect_def Let_def split: if_splits sum.splits option.splits)
  have ntp: "normalizeNTPServer raw = Inl err \<Longrightarrow> err = NTPServerInvalid raw" for raw err
    by (auto simp: normalizeNTPServer_def Let_def split: if_splits)
  show ?thesis
    using assms broker test ntp
    by (auto simp: saveSettings_def Let_def split: if_splits sum.splits option.splits prod.splits)
qed

text \<open>
  C31: rejected settings. A request answered with an error never restarts the gateway; a bad request
  never touches the file and, unless it is the NTP server that is bad, nothing in memory either. A bad
  NTP server is noticed too late: the gateway's identity, the switch and the MQTT settings of the
  rejected request are already in force in memory, and the page shows them.
\<close>

theorem rejected_settings:
  assumes "saveSettings env body s = (Failed code e, s')"
  shows "(code = 400 \<or> code = 500) \<and> sv_exiting s' = sv_exiting s \<and>
    (code = 400 \<longrightarrow> sv_file s' = sv_file s) \<and>
    (code = 400 \<and> (\<forall>raw. e \<noteq> NTPServerInvalid raw) \<longrightarrow> s' = s) \<and>
    (\<forall>raw. code = 400 \<and> e = NTPServerInvalid raw \<longrightarrow>
       (\<exists>dto d. body = Inr dto \<and> getSettings s' = Settings d \<and> cf_Time (sv_cfg s') = cf_Time (sv_cfg s) \<and>
          sd_GatewayID d = sd_GatewayID dto \<and> sd_ClientID d = sd_ClientID dto \<and> sd_Enabled d = sd_Enabled dto))"
  using saveSettings_failed [OF assms]
  by (elim disjE exE conjE) (simp_all add: getSettings_def commitGateway_def submittedMQTT_def Let_def)

definition sampleEnv :: "string \<Rightarrow> config \<Rightarrow> settingsEnv" where
  "sampleEnv t c =
     \<lparr>se_parseHost = (\<lambda>_. Some ''broker:1883''),
      se_tlsFiles = \<lparr>tf_readFile = (\<lambda>_. Inl ''no such file''), tf_appendCerts = (\<lambda>_. False), tf_loadKeyPair = (\<lambda>_ _. None)\<rparr>,
      se_connect = (\<lambda>_. None), se_now = 0,
      se_marshal = (\<lambda>c'. if c' = c then Inr t else Inl ''unsupported''), se_writeFile = (\<lambda>_. None)\<rparr>"

definition sampleDTO :: settingsDTO where
  "sampleDTO =
     \<lparr>sd_GatewayID = ''gw-1'', sd_GatewayName = ''line'', sd_Transport = ''mqtt'', sd_BrokerURL = ''tcp://broker:1883'',
      sd_ClientID = [], sd_Username = ''u'', sd_Password = ''p'', sd_QoS = 1, sd_DataTopic = [], sd_AckTopic = [],
      sd_KeepAliveSec = 30, sd_NTPServer = ''pool ntp.org'', sd_Timezone = ''UTC'', sd_SyncIntervalSec = 0,
      sd_MaxBytes = 0, sd_MinFreePercent = 0, sd_Enabled = True\<rparr>"

definition sampleServer :: settingsServer where
  "sampleServer = \<lparr>sv_cfg = emptyConfig, sv_configPath = ''config.yaml'', sv_file = [], sv_exiting = False\<rparr>"

definition sampleSaved :: config where
  "sampleSaved = commitTime sampleDTO ''ntp.org''
     (commitGateway sampleDTO (submittedMQTT ''tcp://broker:1883'' sampleDTO (cf_MQTT emptyConfig)) emptyConfig)"

lemma sample_ntp: "normalizeNTPServer ''pool ntp.org'' = Inr ''ntp.org''"
  by (simp add: normalizeNTPServer_def stripPrefix_def trimSpace_def isSpace_def toLower_def lowerChar_def Let_def)

lemma sample_save:
  "saveSettings (sampleEnv ''gateway:'' sampleSaved) (Inr sampleDTO) sampleServer =
     (Saved, sampleServer\<lparr>sv_cfg := sampleSaved, sv_file := ''gateway:'', sv_exiting := True\<rparr>)"
proof -
  have b: "validateBroker (sampleEnv t c) sampleDTO = Inr ''tcp://broker:1883''" for t c
    by (simp add: validateBroker_def normalizeBrokerURL_def sampleEnv_def sampleDTO_def trimSpace_def isSpace_def Let_def)
  have m: "testMQTTConnect (sampleEnv t c) (submittedMQTT u d (cf_MQTT emptyConfig)) tr = None" for t c u d tr
    by (simp add: testMQTTConnect_def submittedMQTT_TLS, simp add: sampleEnv_def emptyConfig_def buildMQTTTLSConfig_def Let_def)
  have s: "saveConfig (se_marshal (sampleEnv t c)) (se_writeFile (sampleEnv t c)) c f = (None, t)" for t c f
    by (simp add: saveConfig_def sampleEnv_def)
  have n: "sd_GatewayID sampleDTO \<noteq> []" "sd_NTPServer sampleDTO = ''pool ntp.org''" by (simp_all add: sampleDTO_def)
  show ?thesis
    by (simp add: saveSettings_def b m n sample_ntp sampleServer_def sampleSaved_def [symmetric] s Let_def)
qed

theorem settings_survive_restart_witness:
  "\<exists>c. load (\<lambda>_. []) (\<lambda>t. if t = ''gateway:'' then Inr sampleSaved else Inl ''bad yaml'') (Inr ''gateway:'') = Inr c \<and>
     mf_ClientID (cf_MQTT c) = ''gw-1'' \<and> fc_Transport (cf_Forwarder c) = ''mqtt'' \<and>
     tm_NTPServer (cf_Time c) = ''ntp.org'' \<and> mf_KeepAliveSec (cf_MQTT c) = 30"
proof -
  let ?un = "\<lambda>t. if t = ''gateway:'' then Inr sampleSaved else Inl ''bad yaml''"
  have y: "se_marshal (sampleEnv ''gateway:'' sampleSaved) c = Inr t \<Longrightarrow> ?un t = Inr c" for c t
    by (auto simp: sampleEnv_def split: if_splits)
  have d: "CHR ''$'' \<notin> set (sv_file (sampleServer\<lparr>sv_cfg := sampleSaved, sv_file := ''gateway:'', sv_exiting := True\<rparr>))"
    by simp
  from settings_survive_restart [where unmarshal = ?un and osEnv = "\<lambda>_. []", OF sample_save y d refl] obtain c ntp where
    "load (\<lambda>_. []) ?un (Inr ''gateway:'') = Inr c" "normalizeNTPServer (sd_NTPServer sampleDTO) = Inr ntp"
    "tm_NTPServer (cf_Time c) = ntp" "mf_ClientID (cf_MQTT c) = ''gw-1''" "fc_Transport (cf_Forwarder c) = ''mqtt''"
    "mf_KeepAliveSec (cf_MQTT c) = 30"
    by (auto simp: sampleDTO_def)
  then show ?thesis by (intro exI [of _ c]) (simp add: sampleDTO_def sample_ntp)
qed

theorem rejected_settings_witness:
  "\<exists>s'. saveSettings (sampleEnv [] emptyConfig) (Inr (sampleDTO\<lparr>sd_GatewayID := []\<rparr>)) sampleServer =
     (Failed 400 GatewayIDRequired, s') \<and> s' = sampleServer"
proof -
  have f: "saveSettings (sampleEnv [] emptyConfig) (Inr (sampleDTO\<lparr>sd_GatewayID := []\<rparr>)) sampleServer =
     (Failed 400 GatewayIDRequired, sampleServer)"
    by (simp add: saveSettings_def)
  from rejected_settings [OF f] f show ?thesis by simp
qed

end
