(* ===== verification/NetConfig.thy ===== *)
theory NetConfig
  imports Config
begin

text \<open>
  The host's network settings: \<^verbatim>\<open>src/internal/netconfig/netconfig.go\<close> (reading and changing an
  interface through \<^verbatim>\<open>nmcli\<close>), \<^verbatim>\<open>src/internal/netconfig/service.go\<close> (a change is
  undone unless it is confirmed in time) and the handlers in \<^verbatim>\<open>src/internal/api/network.go\<close>.

  \<^verbatim>\<open>nmcli\<close> is a parameter \<open>run\<close>: given its arguments and the state of the network it answers with
  output, perhaps an error, and a new state. The service is a step relation whose steps are the
  stretches of code between the points where its mutex or a system call lets something else in; an
  operation run alone is the composition of its steps.

  The results: run one after another, the operations keep exactly one armed timer while a change waits
  for confirmation, a confirmed change is never undone and an unconfirmed one is undone to the
  snapshot. Interleaved, they do not.
\<close>

section \<open>The nmcli controller\<close>

record netInfo =
  ni_Interface :: string
  ni_Method :: string
  ni_Address :: string
  ni_Prefix :: int
  ni_Gateway :: string
  ni_DNS :: "string list"

record staticConfig =
  stc_Interface :: string
  stc_Address :: string
  stc_Prefix :: int
  stc_Gateway :: string
  stc_DNS :: "string list"

datatype netError = ErrUnsupported | NetErr string | CurrentFailed netError

definition validateStatic :: "staticConfig \<Rightarrow> string option" where
  "validateStatic cfg =
     (if stc_Interface cfg = [] then Some ''interface is required''
      else if stc_Address cfg = [] then Some ''address is required''
      else if stc_Gateway cfg = [] then Some ''gateway is required''
      else if stc_Prefix cfg \<le> 0 \<or> stc_Prefix cfg > 32 then Some ''prefix must be between 1 and 32''
      else None)"

text \<open>\<^verbatim>\<open>nmcliController\<close>: whether \<^verbatim>\<open>nmcli\<close> is on the path, and running it.\<close>

record 'n nmcli =
  nm_available :: bool
  nm_run :: "string list \<Rightarrow> 'n \<Rightarrow> (string \<times> string option) \<times> 'n"

text \<open>\<^verbatim>\<open>strings.Cut\<close> at a character and \<^verbatim>\<open>strconv.Atoi\<close>, whose error the code ignores.\<close>

definition cutAt :: "char \<Rightarrow> string \<Rightarrow> string \<times> string \<times> bool" where
  "cutAt c s =
     (let a = takeWhile (\<lambda>x. x \<noteq> c) s
      in if length a = length s then (s, [], False) else (a, drop (length a + 1) s, True))"

definition digitOf :: "char \<Rightarrow> nat option" where
  "digitOf c = (let n = of_char c :: nat in if 48 \<le> n \<and> n \<le> 57 then Some (n - 48) else None)"

fun digits :: "string \<Rightarrow> nat \<Rightarrow> nat option" where
  "digits [] acc = Some acc"
| "digits (c # s) acc = (case digitOf c of None \<Rightarrow> None | Some d \<Rightarrow> digits s (10 * acc + d))"

definition atoi :: "string \<Rightarrow> int" where
  "atoi s =
     (let neg = (take 1 s = ''-''); body = (if take 1 s = ''-'' \<or> take 1 s = ''+'' then drop 1 s else s)
      in if body = [] then 0
         else case digits body 0 of
                None \<Rightarrow> 0
              | Some n \<Rightarrow> (if neg then max (- (2 ^ 63)) (- int n) else min (2 ^ 63 - 1) (int n)))"

fun firstConnected :: "string list \<Rightarrow> string option" where
  "firstConnected [] = None"
| "firstConnected (line # rest) =
     (case splitOn (CHR '':'') line of
        device # devType # state # others \<Rightarrow>
          (if state = ''connected'' \<and> (devType = ''ethernet'' \<or> devType = ''wifi'') then Some device
           else firstConnected rest)
      | _ \<Rightarrow> firstConnected rest)"

definition primaryInterface :: "'n nmcli \<Rightarrow> 'n \<Rightarrow> (netError + string) \<times> 'n" where
  "primaryInterface c n =
     (case nm_run c [''-t'', ''-f'', ''DEVICE,TYPE,STATE'', ''device'', ''status''] n of
        ((out, Some e), n) \<Rightarrow> (Inl (NetErr (''nmcli device status: '' @ e)), n)
      | ((out, None), n) \<Rightarrow>
          ((case firstConnected (splitOn (CHR 0x0A) out) of
              None \<Rightarrow> Inl (NetErr ''no connected ethernet/wifi interface found'')
            | Some device \<Rightarrow> Inr device), n))"

fun connectionLine :: "string list \<Rightarrow> string option" where
  "connectionLine [] = None"
| "connectionLine (line # rest) =
     (case cutAt (CHR '':'') line of
        (key, val, ok) \<Rightarrow> (if \<not> ok \<or> key \<noteq> ''GENERAL.CONNECTION'' then connectionLine rest else Some (trimSpace val)))"

definition connectionForInterface :: "'n nmcli \<Rightarrow> string \<Rightarrow> 'n \<Rightarrow> (netError + string) \<times> 'n" where
  "connectionForInterface c iface n =
     (case nm_run c [''-t'', ''-f'', ''GENERAL.CONNECTION'', ''device'', ''show'', iface] n of
        ((out, Some e), n) \<Rightarrow> (Inl (NetErr (''nmcli device show '' @ iface @ '': '' @ e)), n)
      | ((out, None), n) \<Rightarrow>
          ((case connectionLine (splitOn (CHR 0x0A) out) of
              None \<Rightarrow> Inl (NetErr (''could not determine connection profile for interface '' @ iface))
            | Some val \<Rightarrow>
                (if val = [] \<or> val = ''--''
                 then Inl (NetErr (''interface '' @ iface @ '' has no active connection profile''))
                 else Inr val)), n))"

definition infoLine :: "string \<Rightarrow> netInfo \<times> string \<Rightarrow> netInfo \<times> string" where
  "infoLine line p =
     (case cutAt (CHR '':'') line of
        (key, val, ok) \<Rightarrow>
          (let (info, conn) = p in
           if \<not> ok then p
           else if key = ''GENERAL.CONNECTION'' then (info, val)
           else if key = ''IP4.ADDRESS[1]''
           then (case cutAt (CHR ''/'') val of
                   (addr, prefixStr, found) \<Rightarrow> (info\<lparr>ni_Address := addr, ni_Prefix := atoi prefixStr\<rparr>, conn))
           else if key = ''IP4.GATEWAY'' then (info\<lparr>ni_Gateway := val\<rparr>, conn)
           else if hasPrefix ''IP4.DNS['' key
           then ((if val \<noteq> [] then info\<lparr>ni_DNS := ni_DNS info @ [val]\<rparr> else info), conn)
           else p))"

definition methodLine :: "string \<Rightarrow> netInfo \<Rightarrow> netInfo" where
  "methodLine line info =
     (case cutAt (CHR '':'') line of
        (key, val, ok) \<Rightarrow> (if ok \<and> key = ''ipv4.method'' then info\<lparr>ni_Method := trimSpace val\<rparr> else info))"

definition currentInfo :: "'n nmcli \<Rightarrow> 'n \<Rightarrow> (netError + netInfo) \<times> 'n" where
  "currentInfo c n =
     (if \<not> nm_available c then (Inl ErrUnsupported, n)
      else case primaryInterface c n of
        (Inl e, n) \<Rightarrow> (Inl e, n)
      | (Inr iface, n) \<Rightarrow>
          (case nm_run c [''-t'', ''-f'', ''GENERAL.CONNECTION,IP4.ADDRESS,IP4.GATEWAY,IP4.DNS'', ''device'', ''show'', iface] n of
             ((out, Some e), n) \<Rightarrow> (Inl (NetErr (''nmcli device show '' @ iface @ '': '' @ e)), n)
           | ((out, None), n) \<Rightarrow>
               (let (info, conn) = fold infoLine (splitOn (CHR 0x0A) out)
                      (\<lparr>ni_Interface = iface, ni_Method = [], ni_Address = [], ni_Prefix = 0, ni_Gateway = [], ni_DNS = []\<rparr>, [])
                in if conn \<noteq> [] \<and> conn \<noteq> ''--''
                   then (case nm_run c [''-t'', ''-f'', ''ipv4.method'', ''connection'', ''show'', conn] n of
                           ((methodOut, Some e), n) \<Rightarrow> (Inr info, n)
                         | ((methodOut, None), n) \<Rightarrow> (Inr (fold methodLine (splitOn (CHR 0x0A) methodOut) info), n))
                   else (Inr info, n))))"

text \<open>Editing the profile and bringing it up: two commands, each of which can fail.\<close>

definition modAndUp :: "'n nmcli \<Rightarrow> string \<Rightarrow> string list \<Rightarrow> string \<Rightarrow> 'n \<Rightarrow> netError option \<times> 'n" where
  "modAndUp c what args conn n =
     (case nm_run c args n of
        ((out, Some e), n) \<Rightarrow> (Some (NetErr (what @ e)), n)
      | ((out, None), n) \<Rightarrow>
          (case nm_run c [''con'', ''up'', conn] n of
             ((out, Some e), n) \<Rightarrow> (Some (NetErr (''nmcli con up: '' @ e)), n)
           | ((out, None), n) \<Rightarrow> (None, n)))"

definition applyStatic :: "'n nmcli \<Rightarrow> staticConfig \<Rightarrow> 'n \<Rightarrow> netError option \<times> 'n" where
  "applyStatic c cfg n =
     (if \<not> nm_available c then (Some ErrUnsupported, n)
      else case validateStatic cfg of
        Some e \<Rightarrow> (Some (NetErr e), n)
      | None \<Rightarrow>
          (case connectionForInterface c (stc_Interface cfg) n of
             (Inl e, n) \<Rightarrow> (Some e, n)
           | (Inr conn, n) \<Rightarrow>
               modAndUp c ''nmcli con mod: ''
                 ([''con'', ''mod'', conn, ''ipv4.addresses'', stc_Address cfg @ ''/'' @ decimal (stc_Prefix cfg),
                   ''ipv4.gateway'', stc_Gateway cfg, ''ipv4.method'', ''manual''] @
                  (if stc_DNS cfg \<noteq> [] then [''ipv4.dns'', joinWith '','' (stc_DNS cfg)] else [])) conn n))"

definition applyDHCP :: "'n nmcli \<Rightarrow> string \<Rightarrow> 'n \<Rightarrow> netError option \<times> 'n" where
  "applyDHCP c iface n =
     (if \<not> nm_available c then (Some ErrUnsupported, n)
      else if iface = [] then (Some (NetErr ''interface is required''), n)
      else case connectionForInterface c iface n of
        (Inl e, n) \<Rightarrow> (Some e, n)
      | (Inr conn, n) \<Rightarrow>
          modAndUp c ''nmcli con mod (dhcp): '' [''con'', ''mod'', conn, ''ipv4.method'', ''auto''] conn n)"

section \<open>The service\<close>

text \<open>
  The service's fields \<open>ns_previous\<close> and \<open>ns_timer\<close>, and around them: the timers that are armed (their
  number and snapshot), the number of the next timer, calls that have changed the network and not yet
  armed their timer, timers that fired and have not yet undone the change, and reverts that have not
  yet cleared the fields.
\<close>

record 'n netService =
  ns_previous :: "netInfo option"
  ns_timer :: "nat option"
  ns_armed :: "(nat \<times> netInfo) list"
  ns_count :: nat
  ns_arming :: "netInfo list"
  ns_reverting :: "netInfo list"
  ns_clearing :: nat
  ns_net :: 'n

definition newService :: "'n \<Rightarrow> 'n netService" where
  "newService n = \<lparr>ns_previous = None, ns_timer = None, ns_armed = [], ns_count = 0, ns_arming = [], ns_reverting = [],
     ns_clearing = 0, ns_net = n\<rparr>"

definition stopTimer :: "nat option \<Rightarrow> (nat \<times> netInfo) list \<Rightarrow> (nat \<times> netInfo) list" where
  "stopTimer t armed = (case t of None \<Rightarrow> armed | Some i \<Rightarrow> filter (\<lambda>(j, p). j \<noteq> i) armed)"

datatype netChange = ToStatic staticConfig | ToDHCP string

definition change :: "'n nmcli \<Rightarrow> netChange \<Rightarrow> 'n \<Rightarrow> netError option \<times> 'n" where
  "change c ch n = (case ch of ToStatic cfg \<Rightarrow> applyStatic c cfg n | ToDHCP iface \<Rightarrow> applyDHCP c iface n)"

text \<open>\<^verbatim>\<open>applyAndArm\<close> before it takes the mutex, and under it.\<close>

definition applyChange :: "'n nmcli \<Rightarrow> netChange \<Rightarrow> 'n netService \<Rightarrow> (netError + netInfo) \<times> 'n netService" where
  "applyChange c ch s =
     (case currentInfo c (ns_net s) of
        (Inl e, n) \<Rightarrow> (Inl (CurrentFailed e), s\<lparr>ns_net := n\<rparr>)
      | (Inr prev, n) \<Rightarrow>
          (case change c ch n of
             (Some e, n) \<Rightarrow> (Inl e, s\<lparr>ns_net := n\<rparr>)
           | (None, n) \<Rightarrow> (Inr prev, s\<lparr>ns_net := n\<rparr>)))"

definition arm :: "netInfo \<Rightarrow> 'n netService \<Rightarrow> 'n netService" where
  "arm prev s =
     s\<lparr>ns_previous := Some prev, ns_timer := Some (ns_count s), ns_count := ns_count s + 1,
       ns_armed := (ns_count s, prev) # stopTimer (ns_timer s) (ns_armed s)\<rparr>"

text \<open>\<^verbatim>\<open>revert\<close>: the change of the network, and the end under the mutex.\<close>

definition restored :: "netInfo \<Rightarrow> netChange" where
  "restored prev =
     (if ni_Method prev = ''manual''
      then ToStatic \<lparr>stc_Interface = ni_Interface prev, stc_Address = ni_Address prev, stc_Prefix = ni_Prefix prev,
             stc_Gateway = ni_Gateway prev, stc_DNS = ni_DNS prev\<rparr>
      else ToDHCP (ni_Interface prev))"

definition undo :: "'n nmcli \<Rightarrow> netInfo \<Rightarrow> 'n netService \<Rightarrow> 'n netService" where
  "undo c prev s = s\<lparr>ns_net := snd (change c (restored prev) (ns_net s))\<rparr>"

definition clearPending :: "'n netService \<Rightarrow> 'n netService" where
  "clearPending s = s\<lparr>ns_previous := None, ns_timer := None\<rparr>"

definition confirm :: "'n netService \<Rightarrow> string option \<times> 'n netService" where
  "confirm s =
     (if ns_timer s = None then (Some ''no pending network change to confirm'', s)
      else (None, s\<lparr>ns_timer := None, ns_previous := None, ns_armed := stopTimer (ns_timer s) (ns_armed s)\<rparr>))"

definition pendingChange :: "'n netService \<Rightarrow> bool" where
  "pendingChange s \<longleftrightarrow> ns_timer s \<noteq> None"

text \<open>The steps, in any order the scheduler likes.\<close>

inductive nstep :: "'n nmcli \<Rightarrow> 'n netService \<Rightarrow> 'n netService \<Rightarrow> bool" for c where
  Apply: "applyChange c ch s = (Inr prev, s') \<Longrightarrow> nstep c s (s'\<lparr>ns_arming := prev # ns_arming s'\<rparr>)"
| ApplyFails: "applyChange c ch s = (Inl e, s') \<Longrightarrow> nstep c s s'"
| Arm: "prev \<in> set (ns_arming s) \<Longrightarrow> nstep c s (arm prev (s\<lparr>ns_arming := remove1 prev (ns_arming s)\<rparr>))"
| Fire: "(i, prev) \<in> set (ns_armed s) \<Longrightarrow>
    nstep c s (s\<lparr>ns_armed := remove1 (i, prev) (ns_armed s), ns_reverting := prev # ns_reverting s\<rparr>)"
| Undo: "prev \<in> set (ns_reverting s) \<Longrightarrow>
    nstep c s (undo c prev (s\<lparr>ns_reverting := remove1 prev (ns_reverting s), ns_clearing := ns_clearing s + 1\<rparr>))"
| Clear: "ns_clearing s > 0 \<Longrightarrow> nstep c s (clearPending (s\<lparr>ns_clearing := ns_clearing s - 1\<rparr>))"
| Confirm: "nstep c s (snd (confirm s))"

text \<open>The operations one at a time. \<open>TimerFires\<close> is the expiry of the timer armed last, if one is.\<close>

datatype netOp = ApplyOp netChange | ConfirmOp | TimerFires

definition applyAndArm :: "'n nmcli \<Rightarrow> netChange \<Rightarrow> 'n netService \<Rightarrow> netError option \<times> 'n netService" where
  "applyAndArm c ch s =
     (case applyChange c ch s of (Inl e, s) \<Rightarrow> (Some e, s) | (Inr prev, s) \<Rightarrow> (None, arm prev s))"

definition timerFires :: "'n nmcli \<Rightarrow> 'n netService \<Rightarrow> 'n netService" where
  "timerFires c s =
     (case ns_armed s of
        [] \<Rightarrow> s
      | (i, prev) # rest \<Rightarrow> clearPending (undo c prev (s\<lparr>ns_armed := rest\<rparr>)))"

definition runOp :: "'n nmcli \<Rightarrow> netOp \<Rightarrow> 'n netService \<Rightarrow> 'n netService" where
  "runOp c op s =
     (case op of ApplyOp ch \<Rightarrow> snd (applyAndArm c ch s) | ConfirmOp \<Rightarrow> snd (confirm s) | TimerFires \<Rightarrow> timerFires c s)"

section \<open>Handlers\<close>

definition networkConfirmWindow :: duration where "networkConfirmWindow = 45 * nanosPerSecond"

fun isUnsupported :: "netError \<Rightarrow> bool" where
  "isUnsupported ErrUnsupported = True"
| "isUnsupported (CurrentFailed e) = isUnsupported e"
| "isUnsupported (NetErr e) = False"

datatype networkReply =
    NotSupported
  | NetworkStatus netInfo bool
  | Applied int
  | Confirmed
  | NetFailed int "netError + string"

definition getNetworkStatus :: "'n nmcli \<Rightarrow> 'n netService option \<Rightarrow> networkReply \<times> 'n netService option" where
  "getNetworkStatus c svc =
     (case svc of
        None \<Rightarrow> (NotSupported, svc)
      | Some s \<Rightarrow>
          (case currentInfo c (ns_net s) of
             (Inl e, n) \<Rightarrow> ((if isUnsupported e then NotSupported else NetFailed 500 (Inl e)), Some (s\<lparr>ns_net := n\<rparr>))
           | (Inr info, n) \<Rightarrow> (NetworkStatus info (pendingChange s), Some (s\<lparr>ns_net := n\<rparr>))))"

definition applyHandler :: "'n nmcli \<Rightarrow> string + netChange \<Rightarrow> 'n netService option \<Rightarrow> networkReply \<times> 'n netService option" where
  "applyHandler c req svc =
     (case svc of
        None \<Rightarrow> (NetFailed 503 (Inl ErrUnsupported), svc)
      | Some s \<Rightarrow>
          (case req of
             Inl e \<Rightarrow> (NetFailed 400 (Inr (''invalid JSON: '' @ e)), svc)
           | Inr ch \<Rightarrow>
               (case applyAndArm c ch s of
                  (Some e, s) \<Rightarrow> (NetFailed (if isUnsupported e then 503 else 400) (Inl e), Some s)
                | (None, s) \<Rightarrow> (Applied (networkConfirmWindow div nanosPerSecond), Some s))))"

definition applyNetwork :: "'n nmcli \<Rightarrow> string + staticConfig \<Rightarrow> 'n netService option \<Rightarrow> networkReply \<times> 'n netService option" where
  "applyNetwork c req svc = applyHandler c (map_sum id ToStatic req) svc"

definition applyNetworkDHCP :: "'n nmcli \<Rightarrow> string + string \<Rightarrow> 'n netService option \<Rightarrow> networkReply \<times> 'n netService option" where
  "applyNetworkDHCP c req svc = applyHandler c (map_sum id ToDHCP req) svc"

definition confirmNetwork :: "'n netService option \<Rightarrow> networkReply \<times> 'n netService option" where
  "confirmNetwork svc =
     (case svc of
        None \<Rightarrow> (NetFailed 503 (Inl ErrUnsupported), svc)
      | Some s \<Rightarrow>
          (case confirm s of
             (Some e, s) \<Rightarrow> (NetFailed 400 (Inr e), Some s)
           | (None, s) \<Rightarrow> (Confirmed, Some s)))"

section \<open>One operation at a time\<close>

text \<open>Nothing is half done.\<close>

definition quiet :: "'n netService \<Rightarrow> bool" where
  "quiet s \<longleftrightarrow> ns_arming s = [] \<and> ns_reverting s = [] \<and> ns_clearing s = 0"

text \<open>Either no change is waiting and no timer armed, or exactly the timer of the change that waits.\<close>

definition netInv :: "'n netService \<Rightarrow> bool" where
  "netInv s \<longleftrightarrow> quiet s \<and>
     (ns_timer s = None \<and> ns_previous s = None \<and> ns_armed s = [] \<or>
      (\<exists>i p. ns_timer s = Some i \<and> ns_previous s = Some p \<and> ns_armed s = [(i, p)]))"

lemma applyChange_sel:
  assumes "applyChange c ch s = (r, s')"
  shows "s' = s\<lparr>ns_net := ns_net s'\<rparr>"
  using assms by (auto simp: applyChange_def split: prod.splits sum.splits option.splits)

lemma applyChange_current: "applyChange c ch s = (Inr prev, s') \<Longrightarrow> fst (currentInfo c (ns_net s)) = Inr prev"
  by (auto simp: applyChange_def split: prod.splits sum.splits option.splits)

lemma applyAndArm_ok:
  assumes "applyAndArm c ch s = (None, s')"
  shows "\<exists>prev s1. applyChange c ch s = (Inr prev, s1) \<and> s' = arm prev s1"
  using assms by (auto simp: applyAndArm_def split: prod.splits sum.splits)

lemma applyAndArm_err:
  assumes "applyAndArm c ch s = (Some e, s')"
  shows "applyChange c ch s = (Inl e, s')"
  using assms by (auto simp: applyAndArm_def split: prod.splits sum.splits)

lemma netInv_arm:
  assumes "netInv s" "applyChange c ch s = (Inr prev, s1)"
  shows "netInv (arm prev s1)" "ns_armed (arm prev s1) = [(ns_count s, prev)]" "ns_timer (arm prev s1) = Some (ns_count s)"
proof -
  obtain n where "s1 = s\<lparr>ns_net := n\<rparr>" using applyChange_sel [OF assms(2)] by metis
  with assms(1) show "netInv (arm prev s1)" "ns_armed (arm prev s1) = [(ns_count s, prev)]"
      "ns_timer (arm prev s1) = Some (ns_count s)"
    by (auto simp: netInv_def quiet_def arm_def stopTimer_def)
qed

lemma netInv_net [simp]: "netInv (s\<lparr>ns_net := n\<rparr>) = netInv s"
  by (simp add: netInv_def quiet_def)

lemma netInv_confirm: "netInv s \<Longrightarrow> netInv (snd (confirm s)) \<and> ns_armed (snd (confirm s)) = []"
  by (auto simp: netInv_def quiet_def confirm_def stopTimer_def)

lemma netInv_timer: "netInv s \<Longrightarrow> netInv (timerFires c s) \<and> ns_timer (timerFires c s) = None"
  by (auto simp: netInv_def quiet_def timerFires_def undo_def clearPending_def)

lemma netInv_runOp:
  assumes "netInv s"
  shows "netInv (runOp c op s)"
proof (cases op)
  case (ApplyOp ch)
  obtain r s1 where a: "applyChange c ch s = (r, s1)" by fastforce
  show ?thesis
  proof (cases r)
    case (Inl e)
    obtain n where "s1 = s\<lparr>ns_net := n\<rparr>" using applyChange_sel [OF a] by metis
    with assms show ?thesis by (simp add: runOp_def ApplyOp applyAndArm_def a Inl)
  next
    case (Inr prev)
    with netInv_arm(1) [OF assms] a show ?thesis by (simp add: runOp_def ApplyOp applyAndArm_def)
  qed
qed (simp_all add: runOp_def netInv_confirm netInv_timer assms)

lemma netInv_run: "netInv s \<Longrightarrow> netInv (fold (runOp c) ops s)"
  by (induction ops arbitrary: s) (simp_all add: netInv_runOp)

text \<open>Run alone, an operation is the composition of its steps.\<close>

lemma runOp_nsteps:
  assumes "netInv s"
  shows "(nstep c)\<^sup>*\<^sup>* s (runOp c op s)"
proof (cases op)
  case (ApplyOp ch)
  obtain r s1 where a: "applyChange c ch s = (r, s1)" by fastforce
  show ?thesis
  proof (cases r)
    case (Inl e)
    with nstep.ApplyFails a show ?thesis by (fastforce simp: runOp_def ApplyOp applyAndArm_def)
  next
    case (Inr prev)
    obtain n where s1: "s1 = s\<lparr>ns_net := n\<rparr>" using applyChange_sel [OF a] by metis
    have "nstep c s (s1\<lparr>ns_arming := prev # ns_arming s1\<rparr>)" using nstep.Apply a Inr by fast
    moreover have "nstep c (s1\<lparr>ns_arming := prev # ns_arming s1\<rparr>) (arm prev s1)"
      using nstep.Arm [of prev "s1\<lparr>ns_arming := prev # ns_arming s1\<rparr>" c] by (simp add: s1)
    ultimately show ?thesis by (simp add: runOp_def ApplyOp applyAndArm_def a Inr)
  qed
next
  case ConfirmOp
  then show ?thesis using nstep.Confirm [of c s] by (simp add: runOp_def r_into_rtranclp)
next
  case TimerFires
  show ?thesis
  proof (cases "ns_armed s")
    case Nil
    then show ?thesis by (simp add: TimerFires runOp_def timerFires_def)
  next
    case (Cons x rest)
    obtain i p where x: "x = (i, p)" by fastforce
    let ?s1 = "s\<lparr>ns_armed := rest, ns_reverting := [p]\<rparr>"
    let ?s2 = "undo c p (s\<lparr>ns_armed := rest, ns_clearing := 1\<rparr>)"
    have q: "ns_reverting s = []" "ns_clearing s = 0" using assms by (simp_all add: netInv_def quiet_def)
    have "nstep c s ?s1" using nstep.Fire [of i p s c] by (simp add: Cons x q)
    moreover have "nstep c ?s1 ?s2"
      using nstep.Undo [of p ?s1 c] q by (cases s) (simp add: undo_def)
    moreover have "nstep c ?s2 (timerFires c s)"
      using nstep.Clear [of ?s2 c] q Cons x by (cases s) (simp add: timerFires_def undo_def clearPending_def)
    ultimately show ?thesis by (simp add: TimerFires runOp_def)
  qed
qed

lemma run_nsteps: "netInv s \<Longrightarrow> (nstep c)\<^sup>*\<^sup>* s (fold (runOp c) ops s)"
proof (induction ops arbitrary: s)
  case (Cons op ops)
  then show ?case using runOp_nsteps netInv_runOp rtranclp_trans by (metis fold_simps(2))
qed simp

lemma netInv_newService: "netInv (newService n)"
  by (simp add: netInv_def quiet_def newService_def)

lemma timers_idle: "ns_armed s = [] \<Longrightarrow> fold (runOp c) (replicate k TimerFires) s = s"
  by (induction k) (simp_all add: runOp_def timerFires_def)

text \<open>
  C32: confirm or revert. Run the service's operations one after another in any order, applies that
  fail included. At every moment either no change waits for confirmation and no timer is armed, or
  one change waits and exactly its timer is armed. After a successful apply, the expiry of the timer
  asks for the configuration read just before the change, once; a confirmation succeeds and no timer
  that expires later changes anything. A failed apply leaves the earlier change and its timer as they
  were.
\<close>

theorem confirm_or_revert:
  fixes c :: "'n nmcli" and n :: 'n and ops :: "netOp list"
  defines "s \<equiv> fold (runOp c) ops (newService n)"
  shows "netInv s \<and> (nstep c)\<^sup>*\<^sup>* (newService n) s \<and>
    (\<forall>ch s'. applyAndArm c ch s = (None, s') \<longrightarrow>
       (\<exists>prev. fst (currentInfo c (ns_net s)) = Inr prev \<and> pendingChange s' \<and>
          ns_net (timerFires c s') = snd (change c (restored prev) (ns_net s')) \<and>
          \<not> pendingChange (timerFires c s') \<and> timerFires c (timerFires c s') = timerFires c s' \<and>
          fst (confirm s') = None \<and>
          (\<forall>k. fold (runOp c) (replicate k TimerFires) (snd (confirm s')) = snd (confirm s')))) \<and>
    (\<forall>ch e s'. applyAndArm c ch s = (Some e, s') \<longrightarrow>
       ns_timer s' = ns_timer s \<and> ns_previous s' = ns_previous s \<and> ns_armed s' = ns_armed s)"
proof -
  have inv: "netInv s" unfolding s_def by (intro netInv_run netInv_newService)
  have ok: "\<exists>prev. fst (currentInfo c (ns_net s)) = Inr prev \<and> pendingChange s' \<and>
          ns_net (timerFires c s') = snd (change c (restored prev) (ns_net s')) \<and>
          \<not> pendingChange (timerFires c s') \<and> timerFires c (timerFires c s') = timerFires c s' \<and>
          fst (confirm s') = None \<and>
          (\<forall>k. fold (runOp c) (replicate k TimerFires) (snd (confirm s')) = snd (confirm s'))"
    if ap: "applyAndArm c ch s = (None, s')" for ch s'
  proof -
    obtain prev s1 where a: "applyChange c ch s = (Inr prev, s1)" and s': "s' = arm prev s1"
      using applyAndArm_ok [OF ap] by blast
    have i: "netInv s'" and armed: "ns_armed s' = [(ns_count s, prev)]" and t: "ns_timer s' = Some (ns_count s)"
      using netInv_arm [OF inv a] by (simp_all add: s')
    have "ns_armed (timerFires c s') = []" by (simp add: timerFires_def armed undo_def clearPending_def)
    then have "timerFires c (timerFires c s') = timerFires c s'" by (simp add: timerFires_def [of c "timerFires c s'"])
    then show ?thesis
      using applyChange_current [OF a] netInv_timer [OF i] netInv_confirm [OF i] timers_idle [of "snd (confirm s')" c] t armed
      by (intro exI [of _ prev]) (simp add: pendingChange_def timerFires_def undo_def clearPending_def confirm_def)
  qed
  have err: "ns_timer s' = ns_timer s \<and> ns_previous s' = ns_previous s \<and> ns_armed s' = ns_armed s"
    if ap: "applyAndArm c ch s = (Some e, s')" for ch e s'
  proof -
    obtain m where "s' = s\<lparr>ns_net := m\<rparr>" using applyChange_sel [OF applyAndArm_err [OF ap]] by metis
    then show ?thesis by simp
  qed
  show ?thesis using inv ok err run_nsteps [OF netInv_newService, where c = c and ops = ops] unfolding s_def by blast
qed

text \<open>
  A network for the examples: one wired interface with one profile, whose address is the state and
  which \<^verbatim>\<open>con mod\<close> sets.
\<close>

definition sampleRun :: "string list \<Rightarrow> string \<Rightarrow> (string \<times> string option) \<times> string" where
  "sampleRun args addr =
     (if args ! 0 = ''con''
      then (([], None), if args ! 1 = ''mod'' \<and> args ! 3 = ''ipv4.addresses'' then args ! 4 else addr)
      else if args ! 3 = ''connection'' then ((''ipv4.method:manual'', None), addr)
      else if args ! 4 = ''status'' then ((''eth0:ethernet:connected'', None), addr)
      else ((''GENERAL.CONNECTION:wired'' @ [CHR 0x0A] @ ''IP4.ADDRESS[1]:'' @ addr @ [CHR 0x0A] @ ''IP4.GATEWAY:10.0.0.254'', None), addr))"

definition sampleNmcli :: "string nmcli" where
  "sampleNmcli = \<lparr>nm_available = True, nm_run = sampleRun\<rparr>"

definition toAddress :: "string \<Rightarrow> netChange" where
  "toAddress a = ToStatic \<lparr>stc_Interface = ''eth0'', stc_Address = a, stc_Prefix = 24, stc_Gateway = ''10.0.0.254'', stc_DNS = []\<rparr>"

definition infoAt :: "string \<Rightarrow> netInfo" where
  "infoAt a = \<lparr>ni_Interface = ''eth0'', ni_Method = ''manual'', ni_Address = a, ni_Prefix = 24, ni_Gateway = ''10.0.0.254'', ni_DNS = []\<rparr>"

lemmas net_eval = currentInfo_def primaryInterface_def sampleNmcli_def sampleRun_def cutAt_def infoLine_def
  methodLine_def atoi_def digitOf_def connectionForInterface_def trimSpace_def isSpace_def modAndUp_def
  applyStatic_def validateStatic_def numeral_nat

lemma sample_current: "currentInfo sampleNmcli ''10.0.0.1/24'' = (Inr (infoAt ''10.0.0.1''), ''10.0.0.1/24'')"
  by (simp add: net_eval infoAt_def)

lemma decimal_24: "decimal 24 = ''24''"
  by code_simp

lemma sample_change:
  "change sampleNmcli (toAddress ''10.0.0.2'') ''10.0.0.1/24'' = (None, ''10.0.0.2/24'')"
  "change sampleNmcli (toAddress ''10.0.0.1'') ''10.0.0.2/24'' = (None, ''10.0.0.1/24'')"
  by (simp_all add: change_def toAddress_def decimal_24 net_eval)

lemma sample_restored: "restored (infoAt a) = toAddress a"
  by (simp add: restored_def infoAt_def toAddress_def)

lemma sample_applied:
  "applyAndArm sampleNmcli (toAddress ''10.0.0.2'') (newService ''10.0.0.1/24'') =
     (None, arm (infoAt ''10.0.0.1'') (newService ''10.0.0.2/24''))"
  by (simp add: applyAndArm_def applyChange_def sample_current sample_change newService_def)

theorem confirm_or_revert_witness:
  "\<exists>s'. applyAndArm sampleNmcli (toAddress ''10.0.0.2'') (newService ''10.0.0.1/24'') = (None, s') \<and>
     ns_net s' = ''10.0.0.2/24'' \<and> ns_net (timerFires sampleNmcli s') = ''10.0.0.1/24'' \<and> fst (confirm s') = None"
proof -
  let ?s' = "arm (infoAt ''10.0.0.1'') (newService ''10.0.0.2/24'')"
  have "ns_net (newService n) = n" for n :: string by (simp add: newService_def)
  with confirm_or_revert [of sampleNmcli "[]" "''10.0.0.1/24''"] sample_applied
  have "ns_net (timerFires sampleNmcli ?s') = snd (change sampleNmcli (restored (infoAt ''10.0.0.1'')) (ns_net ?s'))"
    "fst (confirm ?s') = None"
    by (auto simp: sample_current)
  then show ?thesis
    by (intro exI [of _ ?s']) (simp add: sample_applied sample_restored, simp add: arm_def newService_def sample_change)
qed

section \<open>Interleaved operations\<close>

lemma applyChange_net:
  "applyChange c ch s = (r, s') \<Longrightarrow> ns_net t = ns_net s \<Longrightarrow> applyChange c ch t = (r, t\<lparr>ns_net := ns_net s'\<rparr>)"
  by (auto simp: applyChange_def split: prod.splits sum.splits option.splits)

lemma apply_fired:
  assumes "netInv s" "applyAndArm c ch s = (None, s1)"
  shows "\<exists>prev. fst (currentInfo c (ns_net s)) = Inr prev \<and> ns_armed s1 = [(ns_count s, prev)] \<and>
    ns_timer s1 = Some (ns_count s) \<and> quiet s1 \<and>
    nstep c s1 (s1\<lparr>ns_armed := [], ns_reverting := [prev]\<rparr>)"
proof -
  obtain prev s0 where a: "applyChange c ch s = (Inr prev, s0)" and s1: "s1 = arm prev s0"
    using applyAndArm_ok [OF assms(2)] by blast
  note i = netInv_arm [OF assms(1) a]
  have "quiet s1" using i(1) by (simp add: s1 netInv_def)
  moreover have "nstep c s1 (s1\<lparr>ns_armed := [], ns_reverting := [prev]\<rparr>)"
    using nstep.Fire [of "ns_count s" prev s1 c] i(2) \<open>quiet s1\<close> by (simp add: s1 quiet_def)
  ultimately show ?thesis using applyChange_current [OF a] i(2,3) by (simp add: s1)
qed

text \<open>A revert under way does not stop a confirmation from being answered with success.\<close>

lemma confirm_during_revert:
  assumes t1: "ns_timer s1 = Some i" and q: "quiet s1"
    and fire: "nstep c s1 (s1\<lparr>ns_armed := [], ns_reverting := [prev]\<rparr>)"
  shows "\<exists>s2 s3. (nstep c)\<^sup>*\<^sup>* s1 s2 \<and> fst (confirm s2) = None \<and> (nstep c)\<^sup>*\<^sup>* (snd (confirm s2)) s3 \<and> quiet s3 \<and>
    ns_net s3 = snd (change c (restored prev) (ns_net s1))"
proof -
  let ?fired = "s1\<lparr>ns_armed := [], ns_reverting := [prev]\<rparr>"
  let ?conf = "snd (confirm ?fired)"
  have conf: "fst (confirm ?fired) = None" "?conf = ?fired\<lparr>ns_timer := None, ns_previous := None\<rparr>"
    using t1 by (simp_all add: confirm_def stopTimer_def)
  let ?u1 = "undo c prev (?conf\<lparr>ns_reverting := [], ns_clearing := 1\<rparr>)"
  have "nstep c ?conf ?u1" using nstep.Undo [of prev ?conf c] q by (simp add: conf(2) quiet_def)
  moreover have "nstep c ?u1 (clearPending (?u1\<lparr>ns_clearing := 0\<rparr>))"
    using nstep.Clear [of ?u1 c] by (simp add: undo_def)
  ultimately have "(nstep c)\<^sup>*\<^sup>* ?conf (clearPending (?u1\<lparr>ns_clearing := 0\<rparr>))" by simp
  moreover have "quiet (clearPending (?u1\<lparr>ns_clearing := 0\<rparr>))"
    "ns_net (clearPending (?u1\<lparr>ns_clearing := 0\<rparr>)) = snd (change c (restored prev) (ns_net s1))"
    using q by (simp_all add: conf(2) quiet_def undo_def clearPending_def)
  ultimately show ?thesis
    using fire conf(1) r_into_rtranclp [of "nstep c" s1 ?fired] by blast
qed

text \<open>The end of a revert clears the pending change of an apply that came in between.\<close>

lemma apply_during_revert:
  assumes armed: "ns_armed s1 = [(i, prev)]" and t1: "ns_timer s1 = Some i" and q: "quiet s1"
    and fire: "nstep c s1 (s1\<lparr>ns_armed := [], ns_reverting := [prev]\<rparr>)"
    and ap: "applyChange c ch' (timerFires c s1) = (Inr prev', t)"
  shows "\<exists>s4. (nstep c)\<^sup>*\<^sup>* s1 s4 \<and> quiet s4 \<and> ns_net s4 = ns_net t \<and> fst (confirm s4) \<noteq> None \<and>
    snd ` set (ns_armed s4) = {prev'}"
proof -
  let ?fired = "s1\<lparr>ns_armed := [], ns_reverting := [prev]\<rparr>"
  let ?u = "undo c prev (s1\<lparr>ns_armed := [], ns_clearing := 1\<rparr>)"
  let ?v = "?u\<lparr>ns_net := ns_net t, ns_arming := [prev']\<rparr>"
  let ?w = "arm prev' (?u\<lparr>ns_net := ns_net t\<rparr>)"
  have "nstep c ?fired ?u" using nstep.Undo [of prev ?fired c] q by (cases s1) (simp add: undo_def quiet_def)
  moreover have "applyChange c ch' ?u = (Inr prev', ?u\<lparr>ns_net := ns_net t\<rparr>)"
    by (rule applyChange_net [OF ap]) (simp add: timerFires_def armed undo_def clearPending_def)
  then have "nstep c ?u ?v" using nstep.Apply [of c ch' ?u prev'] q by (simp add: undo_def quiet_def)
  moreover have "nstep c ?v ?w" using nstep.Arm [of prev' ?v c] q by (cases s1) (simp add: undo_def quiet_def)
  moreover have "nstep c ?w (clearPending (?w\<lparr>ns_clearing := 0\<rparr>))"
    using nstep.Clear [of ?w c] by (simp add: undo_def arm_def)
  ultimately have "(nstep c)\<^sup>*\<^sup>* s1 (clearPending (?w\<lparr>ns_clearing := 0\<rparr>))"
    using fire by (meson converse_rtranclp_into_rtranclp rtranclp.rtrancl_refl)
  then show ?thesis
    using q by (intro exI [of _ "clearPending (?w\<lparr>ns_clearing := 0\<rparr>)"])
      (simp add: quiet_def undo_def arm_def clearPending_def confirm_def stopTimer_def t1)
qed

text \<open>
  C33: confirmation races with the revert. After a successful apply there is a schedule in which the
  timer fires, the confirmation is then answered with success, and the change is undone all the same.
  There is another in which a second change, applied while the revert of the first is finishing, can
  no longer be confirmed although its timer is armed: the end of the revert has cleared the pending
  change of the second.
\<close>

theorem confirm_races_with_revert:
  assumes inv: "netInv s" and applied: "applyAndArm c ch s = (None, s1)"
  shows "\<exists>prev. fst (currentInfo c (ns_net s)) = Inr prev \<and>
    (\<exists>s2 s3. (nstep c)\<^sup>*\<^sup>* s1 s2 \<and> fst (confirm s2) = None \<and> (nstep c)\<^sup>*\<^sup>* (snd (confirm s2)) s3 \<and> quiet s3 \<and>
       ns_net s3 = snd (change c (restored prev) (ns_net s1))) \<and>
    (\<forall>ch' prev' t. applyChange c ch' (timerFires c s1) = (Inr prev', t) \<longrightarrow>
       (\<exists>s4. (nstep c)\<^sup>*\<^sup>* s1 s4 \<and> quiet s4 \<and> ns_net s4 = ns_net t \<and> fst (confirm s4) \<noteq> None \<and>
          snd ` set (ns_armed s4) = {prev'}))"
proof -
  obtain prev where cur: "fst (currentInfo c (ns_net s)) = Inr prev"
    and armed: "ns_armed s1 = [(ns_count s, prev)]" and t1: "ns_timer s1 = Some (ns_count s)" and q: "quiet s1"
    and fire: "nstep c s1 (s1\<lparr>ns_armed := [], ns_reverting := [prev]\<rparr>)"
    using apply_fired [OF inv applied] by blast
  show ?thesis
    using cur confirm_during_revert [OF t1 q fire] apply_during_revert [OF armed t1 q fire] by blast
qed

theorem confirm_races_with_revert_witness:
  "\<exists>s1 s4. applyAndArm sampleNmcli (toAddress ''10.0.0.2'') (newService ''10.0.0.1/24'') = (None, s1) \<and>
     (nstep sampleNmcli)\<^sup>*\<^sup>* s1 s4 \<and> ns_net s4 = ''10.0.0.2/24'' \<and> fst (confirm s4) \<noteq> None \<and>
     snd ` set (ns_armed s4) = {infoAt ''10.0.0.1''}"
proof -
  let ?s1 = "arm (infoAt ''10.0.0.1'') (newService ''10.0.0.2/24'')"
  let ?r = "timerFires sampleNmcli ?s1"
  have "ns_net ?r = ''10.0.0.1/24''"
    by (simp add: timerFires_def arm_def newService_def stopTimer_def undo_def clearPending_def sample_restored sample_change)
  then have "applyChange sampleNmcli (toAddress ''10.0.0.2'') ?r = (Inr (infoAt ''10.0.0.1''), ?r\<lparr>ns_net := ''10.0.0.2/24''\<rparr>)"
    by (simp add: applyChange_def sample_current sample_change)
  with confirm_races_with_revert [OF netInv_newService sample_applied]
  obtain s4 where "(nstep sampleNmcli)\<^sup>*\<^sup>* ?s1 s4 \<and> ns_net s4 = ns_net (?r\<lparr>ns_net := ''10.0.0.2/24''\<rparr>) \<and>
      fst (confirm s4) \<noteq> None \<and> snd ` set (ns_armed s4) = {infoAt ''10.0.0.1''}"
    by blast
  then show ?thesis using sample_applied by (intro exI [of _ ?s1] exI [of _ s4]) simp
qed

section \<open>What the revert cannot restore\<close>

text \<open>A static configuration without a gateway is refused by the validation: the revert does nothing.\<close>

lemma undo_without_gateway:
  assumes "ni_Method prev = ''manual''" "ni_Gateway prev = []"
  shows "undo c prev s = s"
  using assms by (auto simp: undo_def change_def restored_def applyStatic_def validateStatic_def)

text \<open>
  If the profile is edited but cannot be brought up, the apply fails: the profile stays edited and no
  timer is armed for it.
\<close>

lemma failed_up_leaves_profile:
  assumes avail: "nm_available c"
    and cur: "currentInfo c (ns_net s) = (Inr prev, n1)"
    and conn: "iface \<noteq> []" "connectionForInterface c iface n1 = (Inr conn, n2)"
    and edited: "nm_run c [''con'', ''mod'', conn, ''ipv4.method'', ''auto''] n2 = ((out, None), n3)"
    and up: "nm_run c [''con'', ''up'', conn] n3 = ((out', Some e), n4)"
  shows "applyAndArm c (ToDHCP iface) s = (Some (NetErr (''nmcli con up: '' @ e)), s\<lparr>ns_net := n4\<rparr>)"
  by (simp add: applyAndArm_def applyChange_def cur change_def applyDHCP_def avail conn modAndUp_def edited up)

text \<open>
  The snapshot is of the first connected interface, whichever interface the change is for: the revert
  of a change to another interface does not touch that interface's profile.
\<close>

lemma infoLine_interface [simp]: "ni_Interface (fst (infoLine line p)) = ni_Interface (fst p)"
  by (auto simp: infoLine_def split: prod.splits)

lemma fold_infoLine_interface: "ni_Interface (fst (fold infoLine ls p)) = ni_Interface (fst p)"
  by (induction ls arbitrary: p) simp_all

lemma fold_methodLine_interface: "ni_Interface (fold methodLine ls info) = ni_Interface info"
  by (induction ls arbitrary: info) (auto simp: methodLine_def split: prod.splits)

lemma snapshot_of_primary:
  assumes "currentInfo c n = (Inr prev, n')"
  shows "\<exists>n''. primaryInterface c n = (Inr (ni_Interface prev), n'') \<and>
    (restored prev = ToDHCP (ni_Interface prev) \<or>
     (\<exists>cfg. restored prev = ToStatic cfg \<and> stc_Interface cfg = ni_Interface prev))"
proof -
  obtain iface n1 where p: "primaryInterface c n = (Inr iface, n1)"
    using assms by (auto simp: currentInfo_def split: if_splits prod.splits sum.splits)
  have i: "ni_Interface info = iface"
    if "fold infoLine ls (\<lparr>ni_Interface = iface, ni_Method = [], ni_Address = [], ni_Prefix = 0, ni_Gateway = [], ni_DNS = []\<rparr>, []) =
        (info, conn)" for ls info conn
    using fold_infoLine_interface [of ls] that by (metis fst_conv netInfo.select_convs(1))
  have "ni_Interface prev = iface"
    using assms by (auto simp: currentInfo_def p fold_methodLine_interface split: if_splits prod.splits sum.splits option.splits
        dest: i)
  with p show ?thesis by (simp add: restored_def)
qed

end
