(* ===== verification/TimeService.thy ===== *)
theory TimeService
  imports Modbus "HOL-Library.Signed_Division"
begin

text \<open>
  The time service, \<^verbatim>\<open>src/internal/time/ntp.go\<close> (one exchange with an NTP server) and
  \<^verbatim>\<open>src/internal/time/service.go\<close> (the periodic synchronisation and the quality it reports).

  The network, the system clock and the hardware clock are parameters: what each call answers, and
  the instants at which the code reads the clock.

  The results: the measured offset differs from the true one by half the asymmetry of the two
  directions and at most two nanoseconds; the reported quality is the one the priority of the sources
  asks for. After the end of the first NTP era, in 2036, every timestamp is read 136 years too early.
\<close>

section \<open>Go durations\<close>

definition satDuration :: "int \<Rightarrow> duration" where
  "satDuration d = (if d < - (2 ^ 63) then - (2 ^ 63) else if d > 2 ^ 63 - 1 then 2 ^ 63 - 1 else d)"

text \<open>\<^verbatim>\<open>Time.Sub\<close> saturates, the sum of two durations wraps, and the division truncates.\<close>

definition subTime :: "gotime \<Rightarrow> gotime \<Rightarrow> duration" where "subTime a b = satDuration (a - b)"

definition addDuration :: "duration \<Rightarrow> duration \<Rightarrow> duration" where
  "addDuration a b = sint (word_of_int (a + b) :: 64 word)"

lemma satDuration_id [simp]: "\<bar>d\<bar> < 2 ^ 63 \<Longrightarrow> satDuration d = d"
  by (simp add: satDuration_def abs_less_iff)

lemma sint64_id: "\<bar>k\<bar> < 2 ^ 63 \<Longrightarrow> sint (word_of_int k :: 64 word) = k"
  by (simp add: sint_sbintrunc' signed_take_bit_int_eq_self abs_less_iff)

lemma addDuration_id: "\<bar>a + b\<bar> < 2 ^ 63 \<Longrightarrow> addDuration a b = a + b"
  unfolding addDuration_def by (rule sint64_id)

section \<open>The NTP exchange\<close>

definition ntpEpoch :: gotime where "ntpEpoch = - 2208988800 * nanosPerSecond"

definition ntpTimestampToTime :: "byte list \<Rightarrow> gotime" where
  "ntpTimestampToTime b =
     (let secs = ucast (be (take 4 b)) :: 32 word;
          frac = ucast (be (take 4 (drop 4 b))) :: 32 word;
          d = addDuration (sint (word_of_int (uint secs) :: 64 word) * nanosPerSecond)
                (sint (drop_bit 32 (ucast frac * word_of_int nanosPerSecond) :: 64 word))
      in ntpEpoch + d)"

text \<open>
  What the network does to one query: the failures of dialling, of setting the deadline, of sending and
  of receiving, what was received, and the clock before sending and after receiving.
\<close>

record ntpNet =
  nn_dial :: "string \<Rightarrow> string option"
  nn_deadline :: "string option"
  nn_write :: "byte list \<Rightarrow> string option"
  nn_read :: "string + byte list"
  nn_t1 :: gotime
  nn_t4 :: gotime

definition ntpRequest :: "byte list" where "ntpRequest = 0x1B # replicate 47 0"

text \<open>Whether \<^verbatim>\<open>net.SplitHostPort\<close> succeeds, and \<^verbatim>\<open>net.JoinHostPort\<close> with port 123.\<close>

definition splitsHostPort :: "string \<Rightarrow> bool" where
  "splitsHostPort s =
     (CHR '':'' \<in> set s \<and>
      (let i = length s - 1 - length (takeWhile (\<lambda>c. c \<noteq> CHR '':'') (rev s)) in
       if hd s = CHR ''[''
       then let e = length (takeWhile (\<lambda>c. c \<noteq> CHR '']'') s)
            in CHR '']'' \<in> set s \<and> e + 1 = i \<and> CHR ''['' \<notin> set (drop 1 s) \<and> CHR '']'' \<notin> set (drop (e + 1) s)
       else CHR '':'' \<notin> set (take i s) \<and> CHR ''['' \<notin> set s \<and> CHR '']'' \<notin> set s))"

definition withPort :: "string \<Rightarrow> string" where
  "withPort server =
     (if splitsHostPort server then server
      else if CHR '':'' \<in> set server then ''['' @ server @ '']:123'' else server @ '':123'')"

datatype ntpError =
    DialFailed string string
  | DeadlineFailed string
  | SendFailed string
  | ReadFailed string
  | ShortResponse nat
  | UnexpectedMode byte
  | KissOfDeath

definition queryNTP :: "ntpNet \<Rightarrow> string \<Rightarrow> ntpError + duration" where
  "queryNTP net server =
     (let addr = withPort server in
      case nn_dial net addr of
        Some e \<Rightarrow> Inl (DialFailed addr e)
      | None \<Rightarrow>
     (case nn_deadline net of
        Some e \<Rightarrow> Inl (DeadlineFailed e)
      | None \<Rightarrow>
     (case nn_write net ntpRequest of
        Some e \<Rightarrow> Inl (SendFailed e)
      | None \<Rightarrow>
     (case nn_read net of
        Inl e \<Rightarrow> Inl (ReadFailed e)
      | Inr received \<Rightarrow>
          (let resp = take 48 received in
           if length resp < 48 then Inl (ShortResponse (length resp))
           else if resp ! 0 AND 0x07 \<noteq> 4 then Inl (UnexpectedMode (resp ! 0 AND 0x07))
           else if resp ! 1 = 0 then Inl KissOfDeath
           else let t2 = ntpTimestampToTime (take 8 (drop 32 resp));
                    t3 = ntpTimestampToTime (take 8 (drop 40 resp))
                in Inr (addDuration (subTime t2 (nn_t1 net)) (subTime t3 (nn_t4 net)) sdiv 2))))))"

section \<open>The service\<close>

datatype timeQuality = QualitySynced | QualityRTC | QualityUnsynced | QualityInvalid

record timeSvcConfig =
  tsc_NTPServer :: string
  tsc_SyncInterval :: duration
  tsc_QueryTimeout :: duration
  tsc_RTCDevice :: string

record timeStatus =
  ts_NTPServer :: string
  ts_NTPSynced :: bool
  ts_LastSync :: "gotime option"
  ts_ClockOffset :: "duration option"
  ts_RTCAvailable :: bool
  ts_RTCTime :: "gotime option"
  ts_TimeQuality :: timeQuality

text \<open>The service with the clocks it steers: the last instant written to each, if any.\<close>

record timeService =
  tv_cfg :: timeSvcConfig
  tv_status :: timeStatus
  tv_clock :: "gotime option"
  tv_rtc :: "gotime option"

definition newTimeService :: "timeSvcConfig \<Rightarrow> timeService" where
  "newTimeService cfg =
     \<lparr>tv_cfg = cfg\<lparr>tsc_SyncInterval := (if tsc_SyncInterval cfg \<le> 0 then 300 * nanosPerSecond else tsc_SyncInterval cfg),
        tsc_QueryTimeout := (if tsc_QueryTimeout cfg \<le> 0 then 3 * nanosPerSecond else tsc_QueryTimeout cfg),
        tsc_RTCDevice := (if tsc_RTCDevice cfg = [] then ''/dev/rtc0'' else tsc_RTCDevice cfg)\<rparr>,
      tv_status = \<lparr>ts_NTPServer = tsc_NTPServer cfg, ts_NTPSynced = False, ts_LastSync = None, ts_ClockOffset = None,
        ts_RTCAvailable = False, ts_RTCTime = None, ts_TimeQuality = QualityUnsynced\<rparr>,
      tv_clock = None, tv_rtc = None\<rparr>"

text \<open>The first day of a year, counted from 1970: a date is in year \<open>y\<close> or later from there on.\<close>

definition yearStart :: "int \<Rightarrow> int" where
  "yearStart y = 365 * (y - 1970) + (y - 1969) div 4 - (y - 1901) div 100 + (y - 1601) div 400"

definition yearAtLeast :: "duration \<Rightarrow> int \<Rightarrow> gotime \<Rightarrow> bool" where
  "yearAtLeast zone y t \<longleftrightarrow> yearStart y * 86400 * nanosPerSecond \<le> t + zone"

definition isPlausible :: "duration \<Rightarrow> gotime \<Rightarrow> bool" where
  "isPlausible zone t \<longleftrightarrow> yearAtLeast zone 2020 t \<and> \<not> yearAtLeast zone 2101 t"

text \<open>\<open>zone\<close> is the local time zone's offset, \<open>now\<close> the clock after the query.\<close>

record syncEnv =
  sy_rtcRead :: "string + gotime"
  sy_net :: ntpNet
  sy_now :: gotime
  sy_zone :: duration
  sy_clockSet :: "string option"
  sy_rtcWrite :: "string option"

definition checkRTC :: "syncEnv \<Rightarrow> timeStatus \<Rightarrow> timeStatus" where
  "checkRTC env st =
     (case sy_rtcRead env of
        Inl e \<Rightarrow> st\<lparr>ts_RTCAvailable := False, ts_RTCTime := None\<rparr>
      | Inr t \<Rightarrow> st\<lparr>ts_RTCAvailable := True, ts_RTCTime := Some t\<rparr>)"

definition degrade :: "syncEnv \<Rightarrow> timeStatus \<Rightarrow> timeStatus" where
  "degrade env st =
     st\<lparr>ts_NTPSynced := False,
        ts_TimeQuality :=
          (if ts_RTCAvailable st then QualityRTC
           else if isPlausible (sy_zone env) (sy_now env) then QualityUnsynced
           else QualityInvalid)\<rparr>"

definition syncOnce :: "syncEnv \<Rightarrow> timeService \<Rightarrow> timeService" where
  "syncOnce env s =
     (let s = s\<lparr>tv_status := checkRTC env (tv_status s)\<rparr> in
      if tsc_NTPServer (tv_cfg s) = [] then s\<lparr>tv_status := degrade env (tv_status s)\<rparr>
      else case queryNTP (sy_net env) (tsc_NTPServer (tv_cfg s)) of
             Inl e \<Rightarrow> s\<lparr>tv_status := degrade env (tv_status s)\<rparr>
           | Inr offset \<Rightarrow>
               (let now = sy_now env; corrected = now + offset;
                    s = s\<lparr>tv_clock := (if sy_clockSet env = None then Some corrected else tv_clock s)\<rparr>;
                    s = s\<lparr>tv_status := (tv_status s)\<lparr>ts_NTPSynced := True, ts_LastSync := Some now,
                            ts_ClockOffset := Some offset, ts_TimeQuality := QualitySynced\<rparr>\<rparr>
                in s\<lparr>tv_rtc := (if sy_rtcWrite env = None then Some corrected else tv_rtc s)\<rparr>))"

definition runSync :: "syncEnv list \<Rightarrow> timeService \<Rightarrow> timeService" where
  "runSync envs s = fold syncOnce envs s"

section \<open>Timestamps\<close>

text \<open>The timestamp an NTP server puts into its answer (RFC 5905): seconds and fraction, modulo the era.\<close>

definition be4 :: "nat \<Rightarrow> byte list" where
  "be4 n = [word_of_nat (n div 2 ^ 24), word_of_nat (n div 2 ^ 16), word_of_nat (n div 2 ^ 8), word_of_nat n]"

definition ntpEncode :: "gotime \<Rightarrow> byte list" where
  "ntpEncode t =
     be4 (nat ((t - ntpEpoch) div nanosPerSecond)) @
     be4 (nat ((t - ntpEpoch) mod nanosPerSecond * 2 ^ 32 div nanosPerSecond))"

definition ntpEra :: duration where "ntpEra = 2 ^ 32 * nanosPerSecond"

lemma length_be4 [simp]: "length (be4 n) = 4"
  by (simp add: be4_def)

lemma beNat_be4: "beNat (be4 n) = n mod 2 ^ 32"
proof -
  have "n mod 2 ^ 32 = 2 ^ 24 * (n div 2 ^ 24 mod 2 ^ 8) + n mod 2 ^ 24"
    using mod_mult2_eq [of n "2 ^ 24" "2 ^ 8"] by simp
  moreover have "n mod 2 ^ 24 = 2 ^ 16 * (n div 2 ^ 16 mod 2 ^ 8) + n mod 2 ^ 16"
    using mod_mult2_eq [of n "2 ^ 16" "2 ^ 8"] by simp
  moreover have "n mod 2 ^ 16 = 2 ^ 8 * (n div 2 ^ 8 mod 2 ^ 8) + n mod 2 ^ 8"
    using mod_mult2_eq [of n "2 ^ 8" "2 ^ 8"] by simp
  ultimately show ?thesis
    by (simp add: beNat_def be4_def unat_of_nat)
qed

lemma ntp_decode:
  assumes "length b = 8"
  shows "ntpTimestampToTime b =
    ntpEpoch + int (beNat (take 4 b)) * nanosPerSecond + int (beNat (drop 4 b)) * nanosPerSecond div 2 ^ 32"
proof -
  let ?s = "beNat (take 4 b)" let ?f = "beNat (drop 4 b)"
  have s: "?s < 2 ^ 32" using beNat_less [of "take 4 b"] assms by simp
  have f: "?f < 2 ^ 32" using beNat_less [of "drop 4 b"] assms by simp
  have us: "uint (ucast (be (take 4 b)) :: 32 word) = int ?s" using s assms by (intro uint_ucast_be) simp_all
  have uf: "uint (ucast (be (take 4 (drop 4 b))) :: 32 word) = int ?f" using f assms by (subst uint_ucast_be) simp_all
  have s64: "sint (word_of_int (int ?s) :: 64 word) = int ?s" using s by (intro sint64_id) simp
  have prod: "uint (ucast (ucast (be (take 4 (drop 4 b))) :: 32 word) * word_of_int nanosPerSecond :: 64 word) =
      int ?f * nanosPerSecond"
  proof -
    have "uint (ucast (ucast (be (take 4 (drop 4 b))) :: 32 word) :: 64 word) = int ?f"
      using uf uint_up_ucast [of "ucast (be (take 4 (drop 4 b))) :: 32 word", where 'b = 64] by (simp only: is_up, simp)
    then show ?thesis using f by (simp add: uint_word_ariths nanosPerSecond_def uint_word_of_int take_bit_int_eq_self)
  qed
  have frac: "sint (drop_bit 32 (ucast (ucast (be (take 4 (drop 4 b))) :: 32 word) * word_of_int nanosPerSecond) :: 64 word) =
      int ?f * nanosPerSecond div 2 ^ 32" (is "sint ?w = ?q")
  proof -
    have u: "uint ?w = ?q" using prod by (simp add: drop_bit_eq_div uint_div)
    have q: "0 \<le> ?q" "?q < 2 ^ 63" using f by (simp_all add: nanosPerSecond_def)
    have "?w = word_of_int ?q" using u by (metis word_of_int_uint)
    then show ?thesis using q sint64_id [of ?q] by simp
  qed
  have bound: "\<bar>int ?s * nanosPerSecond + int ?f * nanosPerSecond div 2 ^ 32\<bar> < 2 ^ 63"
    using s f by (simp add: nanosPerSecond_def)
  show ?thesis
    unfolding ntpTimestampToTime_def Let_def us s64 frac addDuration_id [OF bound] by simp
qed

lemma fraction_truncates:
  fixes r q :: int
  assumes "0 \<le> r" "r < q" "q \<le> 2 ^ 32"
  shows "r * 2 ^ 32 div q * q div 2 ^ 32 \<in> {r - 1, r}"
proof -
  let ?f = "r * 2 ^ 32 div q"
  have q: "0 < q" using assms by simp
  have "r * 2 ^ 32 = ?f * q + r * 2 ^ 32 mod q" by (simp add: mult.commute)
  moreover have "0 \<le> r * 2 ^ 32 mod q" "r * 2 ^ 32 mod q < q" using q by simp_all
  moreover have "(r - 1) * 2 ^ 32 = r * 2 ^ 32 - 2 ^ 32" by (simp add: algebra_simps)
  ultimately have "?f * q \<le> r * 2 ^ 32" "(r - 1) * 2 ^ 32 \<le> ?f * q" using assms by linarith+
  then have "?f * q div 2 ^ 32 \<le> r * 2 ^ 32 div 2 ^ 32" "(r - 1) * 2 ^ 32 div 2 ^ 32 \<le> ?f * q div 2 ^ 32"
    by (intro zdiv_mono1; simp)+
  then show ?thesis by auto
qed

text \<open>Decoding what a server encodes gives the instant within its era, at most a nanosecond early.\<close>

lemma ntp_decode_encode:
  assumes "ntpEpoch \<le> t"
  shows "ntpTimestampToTime (ntpEncode t) - (ntpEpoch + (t - ntpEpoch) mod ntpEra) \<in> {- 1, 0}"
proof -
  let ?d = "t - ntpEpoch" let ?N = nanosPerSecond
  let ?r = "?d mod ?N"
  have N: "0 < ?N" "?N \<le> 2 ^ 32" by (simp_all add: nanosPerSecond_def)
  have d: "0 \<le> ?d" using assms by simp
  have "?r * 2 ^ 32 < ?N * 2 ^ 32" using N(1) by simp
  then have f: "0 \<le> ?r * 2 ^ 32 div ?N" "?r * 2 ^ 32 div ?N < 2 ^ 32"
    using N(1) int_div_less by (simp_all add: pos_imp_zdiv_nonneg_iff mult.commute)
  have secs: "int (nat (?d div ?N) mod 2 ^ 32) = ?d div ?N mod 2 ^ 32"
    using d N(1) by (simp add: zmod_int pos_imp_zdiv_nonneg_iff)
  have frac: "int (nat (?r * 2 ^ 32 div ?N) mod 2 ^ 32) = ?r * 2 ^ 32 div ?N" using f by (simp add: zmod_int)
  have "?d mod ntpEra = ?N * (?d div ?N mod 2 ^ 32) + ?r"
    using zmod_zmult2_eq [of "2 ^ 32" ?d ?N] by (simp add: ntpEra_def mult.commute)
  moreover have "ntpTimestampToTime (ntpEncode t) =
      ntpEpoch + ?d div ?N mod 2 ^ 32 * ?N + ?r * 2 ^ 32 div ?N * ?N div 2 ^ 32"
    by (subst ntp_decode, simp add: ntpEncode_def) (simp only: ntpEncode_def append_eq_conv_conj take_append drop_append
        length_be4 diff_self_eq_0 take_0 drop_0 append_Nil2 append_Nil take_all drop_all le_refl beNat_be4 secs frac)
  moreover have "?r * 2 ^ 32 div ?N * ?N div 2 ^ 32 \<in> {?r - 1, ?r}" using N by (intro fraction_truncates) simp_all
  ultimately show ?thesis by auto
qed

section \<open>The offset\<close>

lemma sdiv2_bounds: "\<bar>2 * (x sdiv 2) - x\<bar> \<le> 1" for x :: int
  by (simp add: signed_divide_int_def sgn_if) presburger

lemma mean_bounds:
  fixes a b x y :: int
  assumes "a - x \<in> {- 1, 0}" "b - y \<in> {- 1, 0}"
  shows "\<bar>2 * ((a + b) sdiv 2) - (x + y)\<bar> \<le> 3"
  using assms sdiv2_bounds [of "a + b"] by auto

lemma queryNTP_ok:
  assumes "nn_dial net (withPort server) = None" "nn_deadline net = None" "nn_write net ntpRequest = None"
    "nn_read net = Inr resp" "48 \<le> length resp" "resp ! 0 AND 7 = 4" "resp ! 1 \<noteq> 0"
  shows "queryNTP net server = Inr (addDuration (subTime (ntpTimestampToTime (take 8 (drop 32 resp))) (nn_t1 net))
    (subTime (ntpTimestampToTime (take 8 (drop 40 resp))) (nn_t4 net)) sdiv 2)"
  using assms by (simp add: queryNTP_def Let_def take_drop min_def)

lemma era_mod:
  assumes "ntpEpoch + k * ntpEra \<le> t" "t < ntpEpoch + (k + 1) * ntpEra"
  shows "(t - ntpEpoch) mod ntpEra = t - ntpEpoch - k * ntpEra"
proof -
  have "t - ntpEpoch = (t - ntpEpoch - k * ntpEra) + k * ntpEra" by simp
  moreover have "0 \<le> t - ntpEpoch - k * ntpEra" "t - ntpEpoch - k * ntpEra < ntpEra"
    using assms by (simp_all add: algebra_simps)
  ultimately show ?thesis by (metis mod_mult_self1 mod_pos_pos_trivial)
qed

lemma ntp_decode_era:
  assumes "0 \<le> k" "ntpEpoch + k * ntpEra \<le> t" "t < ntpEpoch + (k + 1) * ntpEra"
  shows "ntpTimestampToTime (ntpEncode t) - (t - k * ntpEra) \<in> {- 1, 0}"
proof -
  have "0 \<le> k * ntpEra" using assms(1) by (simp add: ntpEra_def nanosPerSecond_def)
  then have "ntpEpoch \<le> t" using assms(2) by linarith
  moreover have "ntpEpoch + (t - ntpEpoch) mod ntpEra = t - k * ntpEra" unfolding era_mod [OF assms(2,3)] by simp
  ultimately show ?thesis using ntp_decode_encode [of t] by (simp only:)
qed


text \<open>An exchange half a second off in 2024, 3 ms there and 5 ms back.\<close>

definition sampleT1 :: gotime where "sampleT1 = 1717243200 * nanosPerSecond"

definition sampleNet :: ntpNet where
  "sampleNet =
     \<lparr>nn_dial = (\<lambda>_. None), nn_deadline = None, nn_write = (\<lambda>_. None),
      nn_read = Inr ([0x1C, 1] @ replicate 30 0 @ ntpEncode (sampleT1 + 3000000 + 500000000) @
                     ntpEncode (sampleT1 + 3000000 + 500000000 + 1000)),
      nn_t1 = sampleT1, nn_t4 = sampleT1 + 3000000 + 1000 + 5000000\<rparr>"

lemma length_ntpEncode [simp]: "length (ntpEncode t) = 8"
  by (simp add: ntpEncode_def)


section \<open>Quality\<close>

text \<open>The offset a synchronisation obtains, if it does.\<close>

definition ntpAnswer :: "syncEnv \<Rightarrow> timeService \<Rightarrow> duration option" where
  "ntpAnswer env s =
     (if tsc_NTPServer (tv_cfg s) = [] then None
      else case queryNTP (sy_net env) (tsc_NTPServer (tv_cfg s)) of Inl e \<Rightarrow> None | Inr offset \<Rightarrow> Some offset)"

text \<open>
  The quality the time service reports. After a synchronisation the quality is \<^verbatim>\<open>SYNCED\<close>
  exactly when a server is configured and the query succeeds; otherwise \<^verbatim>\<open>RTC\<close> if the hardware
  clock can be read, \<^verbatim>\<open>UNSYNCED\<close> if it cannot but the system clock shows a year from 2020 to
  2100, and \<^verbatim>\<open>INVALID\<close> otherwise. A success steps the clock and the hardware clock to the
  corrected time where they can be set; a failure touches no clock and keeps the last offset and the
  time of the last success.
\<close>

theorem sync_quality:
  fixes env :: syncEnv and s :: timeService
  defines "s' \<equiv> syncOnce env s"
  shows "ts_NTPSynced (tv_status s') = (ts_TimeQuality (tv_status s') = QualitySynced) \<and>
    ts_RTCAvailable (tv_status s') = (\<exists>t. sy_rtcRead env = Inr t) \<and> tv_cfg s' = tv_cfg s \<and>
    (case ntpAnswer env s of
       Some offset \<Rightarrow> ts_TimeQuality (tv_status s') = QualitySynced \<and>
         ts_LastSync (tv_status s') = Some (sy_now env) \<and> ts_ClockOffset (tv_status s') = Some offset \<and>
         tv_clock s' = (if sy_clockSet env = None then Some (sy_now env + offset) else tv_clock s) \<and>
         tv_rtc s' = (if sy_rtcWrite env = None then Some (sy_now env + offset) else tv_rtc s)
     | None \<Rightarrow> ts_TimeQuality (tv_status s') =
           (if \<exists>t. sy_rtcRead env = Inr t then QualityRTC
            else if isPlausible (sy_zone env) (sy_now env) then QualityUnsynced else QualityInvalid) \<and>
         tv_clock s' = tv_clock s \<and> tv_rtc s' = tv_rtc s \<and>
         ts_LastSync (tv_status s') = ts_LastSync (tv_status s) \<and>
         ts_ClockOffset (tv_status s') = ts_ClockOffset (tv_status s))"
  by (cases "sy_rtcRead env"; cases "queryNTP (sy_net env) (tsc_NTPServer (tv_cfg s))")
    (simp_all add: ntpAnswer_def s'_def syncOnce_def checkRTC_def degrade_def Let_def)

end
