(* ===== verification/Api.thy ===== *)
theory Api
  imports Config
begin

text \<open>
  The configuration part of the HTTP interface, \<^verbatim>\<open>src/internal/api\<close>: the handlers that list,
  create, update and delete connections, devices and data points, and the export and import of the
  whole configuration (\<^verbatim>\<open>configio.go\<close>).

  A request arrives as what decoding its path and body gave, or their error. The handlers run on the
  configuration database of \<^verbatim>\<open>ConfigDb\<close> and ask the acquisition manager to reload. A function tells
  for each database call of a request whether SQLite carries it out.

  The results: whatever requests arrive, the database stays well formed and every row in it valid, an
  error changes nothing, and after a success the pollers run what the database says. Importing a
  gateway's own export changes nothing. Importing it into an empty gateway can lose data points.
\<close>

section \<open>Transfer objects\<close>

record connectionDTO =
  cd_ID :: int
  cd_Name :: string
  cd_Protocol :: string
  cd_Interface :: string
  cd_IPAddress :: string
  cd_Port :: int
  cd_BaudRate :: int
  cd_DataBits :: int
  cd_Parity :: string
  cd_StopBits :: int
  cd_TimeoutMs :: int
  cd_Retry :: int
  cd_Enabled :: bool
  cd_NextDeviceDelayMs :: int

definition toConnectionDTO :: "connection \<Rightarrow> connectionDTO" where
  "toConnectionDTO c =
     \<lparr>cd_ID = cn_ID c, cd_Name = cn_Name c, cd_Protocol = cn_Protocol c, cd_Interface = cn_Interface c,
      cd_IPAddress = cn_IPAddress c, cd_Port = cn_Port c, cd_BaudRate = cn_BaudRate c, cd_DataBits = cn_DataBits c,
      cd_Parity = cn_Parity c, cd_StopBits = cn_StopBits c, cd_TimeoutMs = cn_TimeoutMs c, cd_Retry = cn_Retry c,
      cd_Enabled = cn_Enabled c, cd_NextDeviceDelayMs = cn_NextDeviceDelayMs c\<rparr>"

definition toConnection :: "connectionDTO \<Rightarrow> connection" where
  "toConnection dto =
     \<lparr>cn_ID = cd_ID dto, cn_Name = cd_Name dto, cn_Protocol = cd_Protocol dto, cn_Interface = cd_Interface dto,
      cn_IPAddress = cd_IPAddress dto, cn_Port = cd_Port dto, cn_TimeoutMs = cd_TimeoutMs dto, cn_Retry = cd_Retry dto,
      cn_Enabled = cd_Enabled dto, cn_NextDeviceDelayMs = cd_NextDeviceDelayMs dto, cn_BaudRate = cd_BaudRate dto,
      cn_DataBits = cd_DataBits dto, cn_Parity = cd_Parity dto, cn_StopBits = cd_StopBits dto\<rparr>"

text \<open>The status of a device and the latest value of a data point ride along in replies.\<close>

record deviceDTO = device +
  dd_Status :: string
  dd_LastSeen :: "gotime option"
  dd_LastPollDurationMs :: "int option"
  dd_DatapointsPolled :: int
  dd_BlockReads :: int

record dataPointDTO = dataPoint +
  pd_LastValue :: "float64 option"
  pd_LastQuality :: string
  pd_LastReadAt :: "gotime option"

definition toDeviceDTO :: "(int \<rightharpoonup> statusInfo) \<Rightarrow> device \<Rightarrow> deviceDTO" where
  "toDeviceDTO st d =
     (let dto = device.extend d \<lparr>dd_Status = [], dd_LastSeen = None, dd_LastPollDurationMs = None,
                  dd_DatapointsPolled = 0, dd_BlockReads = 0\<rparr> in
      case st (dv_ID d) of
        None \<Rightarrow> dto
      | Some info \<Rightarrow>
          (let dto = dto\<lparr>dd_Status := si_Quality info, dd_LastSeen := Some (si_LastSeen info)\<rparr> in
           if si_DatapointsPolled info > 0
           then dto\<lparr>dd_LastPollDurationMs := Some (si_LastPollDurationMs info),
                  dd_DatapointsPolled := si_DatapointsPolled info, dd_BlockReads := si_BlockReads info\<rparr>
           else dto))"

definition toDevice :: "deviceDTO \<Rightarrow> device" where
  "toDevice dto = device.truncate dto"

definition toDataPointDTO :: "dataPoint \<Rightarrow> dataPointDTO" where
  "toDataPointDTO dp = dataPoint.extend dp \<lparr>pd_LastValue = None, pd_LastQuality = [], pd_LastReadAt = None\<rparr>"

definition withLatest :: "(int \<rightharpoonup> latestValue) \<Rightarrow> dataPointDTO \<Rightarrow> dataPointDTO" where
  "withLatest latest dto =
     (case latest (dp_ID dto) of
        None \<Rightarrow> dto
      | Some lv \<Rightarrow> dto\<lparr>pd_LastValue := lv_Value lv, pd_LastQuality := lv_Quality lv, pd_LastReadAt := Some (lv_At lv)\<rparr>)"

definition toDataPoint :: "dataPointDTO \<Rightarrow> dataPoint" where
  "toDataPoint dto = dataPoint.truncate dto"

section \<open>Handlers\<close>

record apiServer =
  as_db :: confdb
  as_running :: running
  as_status :: "int \<rightharpoonup> statusInfo"
  as_latest :: "int \<rightharpoonup> latestValue"

datatype apiError = InvalidBody string | InvalidID string | InvalidEntity string | RepoFailed repo_err

datatype apiReply =
    ConnectionsReply "connectionDTO list"
  | DevicesReply "deviceDTO list"
  | DataPointsReply "dataPointDTO list"
  | ConnectionReply int connectionDTO
  | DeviceReply int deviceDTO
  | DataPointReply int dataPointDTO
  | NoContent
  | ApiFailed int apiError

text \<open>Which database calls succeed: reading, the check for use, writing, and those of the reload.\<close>

record apiIO =
  io_get :: bool
  io_count :: bool
  io_write :: bool
  io_reload :: bool

definition reloadServer :: "apiIO \<Rightarrow> apiServer \<Rightarrow> apiServer" where
  "reloadServer io s = s\<lparr>as_running := fst (reload (io_reload io) (as_db s) (as_running s))\<rparr>"

definition repoStatus :: "repo_err \<Rightarrow> int" where
  "repoStatus e = (case e of ErrNotFound \<Rightarrow> 404 | ErrInUse \<Rightarrow> 409 | _ \<Rightarrow> 500)"

definition repoFailed :: "repo_err \<Rightarrow> apiReply" where
  "repoFailed e = ApiFailed (repoStatus e) (RepoFailed e)"

definition listConnections :: "apiIO \<Rightarrow> apiServer \<Rightarrow> apiReply" where
  "listConnections io s =
     (if \<not> io_get io then ApiFailed 500 (RepoFailed ErrSql)
      else ConnectionsReply (map toConnectionDTO (cnList (as_db s))))"

definition createConnection :: "apiIO \<Rightarrow> string + connectionDTO \<Rightarrow> apiServer \<Rightarrow> apiReply \<times> apiServer" where
  "createConnection io body s =
     (case body of
        Inl e \<Rightarrow> (ApiFailed 400 (InvalidBody e), s)
      | Inr dto \<Rightarrow>
          (let c = toConnection dto in
           case validateConnection c of
             Some e \<Rightarrow> (ApiFailed 400 (InvalidEntity e), s)
           | None \<Rightarrow>
               (case cnCreate (io_write io) c (as_db s) of
                  (Inl e, db) \<Rightarrow> (ApiFailed 500 (RepoFailed e), s\<lparr>as_db := db\<rparr>)
                | (Inr i, db) \<Rightarrow> (ConnectionReply 201 (toConnectionDTO (c\<lparr>cn_ID := i\<rparr>)), reloadServer io (s\<lparr>as_db := db\<rparr>)))))"

definition updateConnection :: "apiIO \<Rightarrow> string + int \<Rightarrow> string + connectionDTO \<Rightarrow> apiServer \<Rightarrow> apiReply \<times> apiServer" where
  "updateConnection io path body s =
     (case path of
        Inl e \<Rightarrow> (ApiFailed 400 (InvalidID e), s)
      | Inr i \<Rightarrow>
     (case body of
        Inl e \<Rightarrow> (ApiFailed 400 (InvalidBody e), s)
      | Inr dto \<Rightarrow>
          (let c = (toConnection dto)\<lparr>cn_ID := i\<rparr> in
           case validateConnection c of
             Some e \<Rightarrow> (ApiFailed 400 (InvalidEntity e), s)
           | None \<Rightarrow>
               (case cnUpdate (io_write io) i c (as_db s) of
                  (Some e, db) \<Rightarrow> (repoFailed e, s\<lparr>as_db := db\<rparr>)
                | (None, db) \<Rightarrow> (ConnectionReply 200 (toConnectionDTO c), reloadServer io (s\<lparr>as_db := db\<rparr>))))))"

definition deleteConnection :: "apiIO \<Rightarrow> string + int \<Rightarrow> apiServer \<Rightarrow> apiReply \<times> apiServer" where
  "deleteConnection io path s =
     (case path of
        Inl e \<Rightarrow> (ApiFailed 400 (InvalidID e), s)
      | Inr i \<Rightarrow>
          (case cnDelete (io_count io) (io_write io) i (as_db s) of
             (Some e, db) \<Rightarrow> (repoFailed e, s\<lparr>as_db := db\<rparr>)
           | (None, db) \<Rightarrow> (NoContent, reloadServer io (s\<lparr>as_db := db\<rparr>))))"

definition listDevices :: "apiIO \<Rightarrow> apiServer \<Rightarrow> apiReply" where
  "listDevices io s =
     (if \<not> io_get io then ApiFailed 500 (RepoFailed ErrSql)
      else DevicesReply (map (toDeviceDTO (as_status s)) (dvList (as_db s))))"

definition createDevice :: "apiIO \<Rightarrow> string + deviceDTO \<Rightarrow> apiServer \<Rightarrow> apiReply \<times> apiServer" where
  "createDevice io body s =
     (case body of
        Inl e \<Rightarrow> (ApiFailed 400 (InvalidBody e), s)
      | Inr dto \<Rightarrow>
          (let d = toDevice dto in
           case validateDevice d of
             Some e \<Rightarrow> (ApiFailed 400 (InvalidEntity e), s)
           | None \<Rightarrow>
               (case dvCreate (io_write io) d (as_db s) of
                  (Inl e, db) \<Rightarrow> (ApiFailed 500 (RepoFailed e), s\<lparr>as_db := db\<rparr>)
                | (Inr i, db) \<Rightarrow>
                    (DeviceReply 201 (toDeviceDTO (as_status s) (d\<lparr>dv_ID := i\<rparr>)), reloadServer io (s\<lparr>as_db := db\<rparr>)))))"

definition updateDevice :: "apiIO \<Rightarrow> string + int \<Rightarrow> string + deviceDTO \<Rightarrow> apiServer \<Rightarrow> apiReply \<times> apiServer" where
  "updateDevice io path body s =
     (case path of
        Inl e \<Rightarrow> (ApiFailed 400 (InvalidID e), s)
      | Inr i \<Rightarrow>
     (case body of
        Inl e \<Rightarrow> (ApiFailed 400 (InvalidBody e), s)
      | Inr dto \<Rightarrow>
          (let d = (toDevice dto)\<lparr>dv_ID := i\<rparr> in
           case validateDevice d of
             Some e \<Rightarrow> (ApiFailed 400 (InvalidEntity e), s)
           | None \<Rightarrow>
               (case dvUpdate (io_write io) i d (as_db s) of
                  (Some e, db) \<Rightarrow> (repoFailed e, s\<lparr>as_db := db\<rparr>)
                | (None, db) \<Rightarrow> (DeviceReply 200 (toDeviceDTO (as_status s) d), reloadServer io (s\<lparr>as_db := db\<rparr>))))))"

definition deleteDevice :: "apiIO \<Rightarrow> string + int \<Rightarrow> apiServer \<Rightarrow> apiReply \<times> apiServer" where
  "deleteDevice io path s =
     (case path of
        Inl e \<Rightarrow> (ApiFailed 400 (InvalidID e), s)
      | Inr i \<Rightarrow>
          (case dvDelete (io_write io) i (as_db s) of
             (Some e, db) \<Rightarrow> (repoFailed e, s\<lparr>as_db := db\<rparr>)
           | (None, db) \<Rightarrow> (NoContent, reloadServer io (s\<lparr>as_db := db\<rparr>))))"

definition listDataPoints :: "apiIO \<Rightarrow> string + int \<Rightarrow> apiServer \<Rightarrow> apiReply" where
  "listDataPoints io path s =
     (case path of
        Inl e \<Rightarrow> ApiFailed 400 (InvalidID e)
      | Inr deviceID \<Rightarrow>
          (if \<not> io_get io then ApiFailed 500 (RepoFailed ErrSql)
           else DataPointsReply (map (\<lambda>dp. withLatest (as_latest s) (toDataPointDTO dp)) (dpListByDevice deviceID (as_db s)))))"

definition createDataPoint :: "apiIO \<Rightarrow> string + int \<Rightarrow> string + dataPointDTO \<Rightarrow> apiServer \<Rightarrow> apiReply \<times> apiServer" where
  "createDataPoint io path body s =
     (case path of
        Inl e \<Rightarrow> (ApiFailed 400 (InvalidID e), s)
      | Inr deviceID \<Rightarrow>
     (case dvGet (io_get io) deviceID (as_db s) of
        Inl e \<Rightarrow> (repoFailed e, s)
      | Inr d \<Rightarrow>
     (case body of
        Inl e \<Rightarrow> (ApiFailed 400 (InvalidBody e), s)
      | Inr dto \<Rightarrow>
          (let dp = (toDataPoint dto)\<lparr>dp_DeviceID := deviceID\<rparr> in
           case validateDataPoint dp of
             Some e \<Rightarrow> (ApiFailed 400 (InvalidEntity e), s)
           | None \<Rightarrow>
               (case dpCreate (io_write io) dp (as_db s) of
                  (Inl e, db) \<Rightarrow> (ApiFailed 500 (RepoFailed e), s\<lparr>as_db := db\<rparr>)
                | (Inr i, db) \<Rightarrow>
                    (DataPointReply 201 (toDataPointDTO (dp\<lparr>dp_ID := i\<rparr>)), reloadServer io (s\<lparr>as_db := db\<rparr>)))))))"

definition updateDataPoint :: "apiIO \<Rightarrow> string + int \<Rightarrow> string + dataPointDTO \<Rightarrow> apiServer \<Rightarrow> apiReply \<times> apiServer" where
  "updateDataPoint io path body s =
     (case path of
        Inl e \<Rightarrow> (ApiFailed 400 (InvalidID e), s)
      | Inr i \<Rightarrow>
     (case dpGet (io_get io) i (as_db s) of
        Inl e \<Rightarrow> (repoFailed e, s)
      | Inr existing \<Rightarrow>
     (case body of
        Inl e \<Rightarrow> (ApiFailed 400 (InvalidBody e), s)
      | Inr dto \<Rightarrow>
          (let dp = (toDataPoint dto)\<lparr>dp_ID := i, dp_DeviceID := dp_DeviceID existing\<rparr> in
           case validateDataPoint dp of
             Some e \<Rightarrow> (ApiFailed 400 (InvalidEntity e), s)
           | None \<Rightarrow>
               (case dpUpdate (io_write io) i dp (as_db s) of
                  (Some e, db) \<Rightarrow> (repoFailed e, s\<lparr>as_db := db\<rparr>)
                | (None, db) \<Rightarrow> (DataPointReply 200 (toDataPointDTO dp), reloadServer io (s\<lparr>as_db := db\<rparr>)))))))"

definition deleteDataPoint :: "apiIO \<Rightarrow> string + int \<Rightarrow> apiServer \<Rightarrow> apiReply \<times> apiServer" where
  "deleteDataPoint io path s =
     (case path of
        Inl e \<Rightarrow> (ApiFailed 400 (InvalidID e), s)
      | Inr i \<Rightarrow>
          (case dpDelete (io_write io) i (as_db s) of
             (Some e, db) \<Rightarrow> (repoFailed e, s\<lparr>as_db := db\<rparr>)
           | (None, db) \<Rightarrow> (NoContent, reloadServer io (s\<lparr>as_db := db\<rparr>))))"

text \<open>The routes of \<^verbatim>\<open>NewRouter\<close> that concern the configuration.\<close>

datatype apiRequest =
    ListConnections
  | CreateConnection "string + connectionDTO"
  | UpdateConnection "string + int" "string + connectionDTO"
  | DeleteConnection "string + int"
  | ListDevices
  | CreateDevice "string + deviceDTO"
  | UpdateDevice "string + int" "string + deviceDTO"
  | DeleteDevice "string + int"
  | ListDataPoints "string + int"
  | CreateDataPoint "string + int" "string + dataPointDTO"
  | UpdateDataPoint "string + int" "string + dataPointDTO"
  | DeleteDataPoint "string + int"

definition serve :: "apiIO \<Rightarrow> apiRequest \<Rightarrow> apiServer \<Rightarrow> apiReply \<times> apiServer" where
  "serve io req s =
     (case req of
        ListConnections \<Rightarrow> (listConnections io s, s)
      | CreateConnection body \<Rightarrow> createConnection io body s
      | UpdateConnection path body \<Rightarrow> updateConnection io path body s
      | DeleteConnection path \<Rightarrow> deleteConnection io path s
      | ListDevices \<Rightarrow> (listDevices io s, s)
      | CreateDevice body \<Rightarrow> createDevice io body s
      | UpdateDevice path body \<Rightarrow> updateDevice io path body s
      | DeleteDevice path \<Rightarrow> deleteDevice io path s
      | ListDataPoints path \<Rightarrow> (listDataPoints io path s, s)
      | CreateDataPoint path body \<Rightarrow> createDataPoint io path body s
      | UpdateDataPoint path body \<Rightarrow> updateDataPoint io path body s
      | DeleteDataPoint path \<Rightarrow> deleteDataPoint io path s)"

section \<open>Export and import\<close>

record configExport =
  ce_ExportedAt :: gotime
  ce_Gateway :: gatewayConfig
  ce_Forwarder :: forwarderConfig
  ce_BrokerURL :: string
  ce_ClientID :: string
  ce_Username :: string
  ce_QoS :: int
  ce_DataTopic :: string
  ce_AckTopic :: string
  ce_KeepAliveSec :: int
  ce_TLSEnabled :: bool
  ce_NTPServer :: string
  ce_Timezone :: string
  ce_Connections :: "connectionDTO list"
  ce_Devices :: "(deviceDTO \<times> dataPointDTO list) list"

text \<open>
  \<^verbatim>\<open>exportConfig\<close>: the password is left out. \<open>io\<close> numbers the database calls, one for the data
  points of each device.
\<close>

definition exportConfig :: "(nat \<Rightarrow> bool) \<Rightarrow> gotime \<Rightarrow> config \<Rightarrow> apiServer \<Rightarrow> apiError + configExport" where
  "exportConfig io now cfg s =
     (if \<not> io 0 \<or> \<not> io 1 \<or> \<not> list_all (\<lambda>i. io (2 + i)) [0..<length (dvList (as_db s))]
      then Inl (RepoFailed ErrSql)
      else Inr
        \<lparr>ce_ExportedAt = now, ce_Gateway = cf_Gateway cfg, ce_Forwarder = cf_Forwarder cfg,
         ce_BrokerURL = mf_BrokerURL (cf_MQTT cfg), ce_ClientID = mf_ClientID (cf_MQTT cfg),
         ce_Username = mf_Username (cf_MQTT cfg), ce_QoS = mf_QoS (cf_MQTT cfg), ce_DataTopic = mf_DataTopic (cf_MQTT cfg),
         ce_AckTopic = mf_AckTopic (cf_MQTT cfg), ce_KeepAliveSec = mf_KeepAliveSec (cf_MQTT cfg),
         ce_TLSEnabled = mt_Enabled (mf_TLS (cf_MQTT cfg)), ce_NTPServer = tm_NTPServer (cf_Time cfg),
         ce_Timezone = tm_Timezone (cf_Time cfg),
         ce_Connections = map toConnectionDTO (cnList (as_db s)),
         ce_Devices = map (\<lambda>d. (toDeviceDTO (as_status s) d, map toDataPointDTO (dpListByDevice (dv_ID d) (as_db s))))
           (dvList (as_db s))\<rparr>)"

datatype importError =
    BadConnection string string
  | BadDevice string string
  | BadDataPoint string string string
  | UpdateConnectionFailed string repo_err
  | CreateConnectionFailed string repo_err
  | ConnectionNotInPayload string int
  | UpdateDeviceFailed string repo_err
  | CreateDeviceFailed string repo_err
  | UpdateDataPointFailed string repo_err
  | CreateDataPointFailed string repo_err

record configImportResult =
  ir_ConnectionsCreated :: int
  ir_ConnectionsUpdated :: int
  ir_DevicesCreated :: int
  ir_DevicesUpdated :: int
  ir_DataPointsCreated :: int
  ir_DataPointsUpdated :: int
  ir_Errors :: "importError list"

definition emptyResult :: configImportResult where
  "emptyResult = \<lparr>ir_ConnectionsCreated = 0, ir_ConnectionsUpdated = 0, ir_DevicesCreated = 0, ir_DevicesUpdated = 0,
     ir_DataPointsCreated = 0, ir_DataPointsUpdated = 0, ir_Errors = []\<rparr>"

text \<open>The import's variables, with the number of database calls made so far.\<close>

record importState =
  im_db :: confdb
  im_connIDMap :: "int \<rightharpoonup> int"
  im_result :: configImportResult
  im_calls :: nat

definition importErrors :: "configExport \<Rightarrow> importError list" where
  "importErrors payload =
     concat (map (\<lambda>c. case validateConnection (toConnection c) of None \<Rightarrow> [] | Some e \<Rightarrow> [BadConnection (cd_Name c) e])
       (ce_Connections payload)) @
     concat (map (\<lambda>(d, dps). case validateDevice (toDevice d) of
          Some e \<Rightarrow> [BadDevice (dv_Name d) e]
        | None \<Rightarrow> concat (map (\<lambda>p. case validateDataPoint (toDataPoint p) of
              None \<Rightarrow> [] | Some e \<Rightarrow> [BadDataPoint (dv_Name d) (dp_TagName p) e]) dps))
       (ce_Devices payload))"

definition noteError :: "importError \<Rightarrow> importState \<Rightarrow> importState" where
  "noteError e st = st\<lparr>im_result := (im_result st)\<lparr>ir_Errors := ir_Errors (im_result st) @ [e]\<rparr>\<rparr>"

definition called :: "importState \<Rightarrow> importState" where
  "called st = st\<lparr>im_calls := im_calls st + 1\<rparr>"

definition importConnection :: "(nat \<Rightarrow> bool) \<Rightarrow> connectionDTO \<Rightarrow> importState \<Rightarrow> importState" where
  "importConnection io cexp st =
     (let c = toConnection cexp;
          (found, st) = (if cd_ID cexp \<noteq> 0
                         then (case cnGet (io (im_calls st)) (cd_ID cexp) (im_db st) of Inr _ \<Rightarrow> True | Inl _ \<Rightarrow> False, called st)
                         else (False, st))
      in if found
         then (case cnUpdate (io (im_calls st)) (cd_ID cexp) c (im_db st) of
                 (Some e, db) \<Rightarrow> noteError (UpdateConnectionFailed (cd_Name cexp) e) (called st)
               | (None, db) \<Rightarrow>
                   (called st)\<lparr>im_db := db, im_connIDMap := (im_connIDMap st)(cd_ID cexp \<mapsto> cd_ID cexp),
                     im_result := (im_result st)\<lparr>ir_ConnectionsUpdated := ir_ConnectionsUpdated (im_result st) + 1\<rparr>\<rparr>)
         else (case cnCreate (io (im_calls st)) c (im_db st) of
                 (Inl e, db) \<Rightarrow> noteError (CreateConnectionFailed (cd_Name cexp) e) (called st)
               | (Inr i, db) \<Rightarrow>
                   (called st)\<lparr>im_db := db, im_connIDMap := (im_connIDMap st)(cd_ID cexp \<mapsto> i),
                     im_result := (im_result st)\<lparr>ir_ConnectionsCreated := ir_ConnectionsCreated (im_result st) + 1\<rparr>\<rparr>))"

definition importDataPoint :: "(nat \<Rightarrow> bool) \<Rightarrow> int \<Rightarrow> dataPointDTO \<Rightarrow> importState \<Rightarrow> importState" where
  "importDataPoint io deviceID dto st =
     (let dp = (toDataPoint dto)\<lparr>dp_DeviceID := deviceID\<rparr>;
          (found, st) = (if dp_ID dto \<noteq> 0
                         then (case dpGet (io (im_calls st)) (dp_ID dto) (im_db st) of Inr _ \<Rightarrow> True | Inl _ \<Rightarrow> False, called st)
                         else (False, st))
      in if found
         then (case dpUpdate (io (im_calls st)) (dp_ID dto) dp (im_db st) of
                 (Some e, db) \<Rightarrow> noteError (UpdateDataPointFailed (dp_TagName dto) e) (called st)
               | (None, db) \<Rightarrow>
                   (called st)\<lparr>im_db := db,
                     im_result := (im_result st)\<lparr>ir_DataPointsUpdated := ir_DataPointsUpdated (im_result st) + 1\<rparr>\<rparr>)
         else (case dpCreate (io (im_calls st)) dp (im_db st) of
                 (Inl e, db) \<Rightarrow> noteError (CreateDataPointFailed (dp_TagName dto) e) (called st)
               | (Inr i, db) \<Rightarrow>
                   (called st)\<lparr>im_db := db,
                     im_result := (im_result st)\<lparr>ir_DataPointsCreated := ir_DataPointsCreated (im_result st) + 1\<rparr>\<rparr>))"

definition importDevice :: "(nat \<Rightarrow> bool) \<Rightarrow> deviceDTO \<times> dataPointDTO list \<Rightarrow> importState \<Rightarrow> importState" where
  "importDevice io dexp st =
     (case dexp of (dto, dps) \<Rightarrow>
        (case im_connIDMap st (dv_ConnectionID dto) of
           None \<Rightarrow> noteError (ConnectionNotInPayload (dv_Name dto) (dv_ConnectionID dto)) st
         | Some newConnID \<Rightarrow>
             (let d = (toDevice dto)\<lparr>dv_ConnectionID := newConnID\<rparr>;
                  (found, st) = (if dv_ID dto \<noteq> 0
                                 then (case dvGet (io (im_calls st)) (dv_ID dto) (im_db st) of Inr _ \<Rightarrow> True | Inl _ \<Rightarrow> False, called st)
                                 else (False, st))
              in if found
                 then (case dvUpdate (io (im_calls st)) (dv_ID dto) d (im_db st) of
                         (Some e, db) \<Rightarrow> noteError (UpdateDeviceFailed (dv_Name dto) e) (called st)
                       | (None, db) \<Rightarrow>
                           fold (importDataPoint io (dv_ID dto)) dps
                             ((called st)\<lparr>im_db := db,
                                im_result := (im_result st)\<lparr>ir_DevicesUpdated := ir_DevicesUpdated (im_result st) + 1\<rparr>\<rparr>))
                 else (case dvCreate (io (im_calls st)) d (im_db st) of
                         (Inl e, db) \<Rightarrow> noteError (CreateDeviceFailed (dv_Name dto) e) (called st)
                       | (Inr i, db) \<Rightarrow>
                           fold (importDataPoint io i) dps
                             ((called st)\<lparr>im_db := db,
                                im_result := (im_result st)\<lparr>ir_DevicesCreated := ir_DevicesCreated (im_result st) + 1\<rparr>\<rparr>)))))"

definition importConfig :: "(nat \<Rightarrow> bool) \<Rightarrow> apiIO \<Rightarrow> string + configExport \<Rightarrow> apiServer \<Rightarrow>
    int \<times> (apiError + configImportResult) \<times> apiServer" where
  "importConfig io rio body s =
     (case body of
        Inl e \<Rightarrow> (400, Inl (InvalidBody e), s)
      | Inr payload \<Rightarrow>
          (if importErrors payload \<noteq> [] then (400, Inr (emptyResult\<lparr>ir_Errors := importErrors payload\<rparr>), s)
           else let st = fold (importConnection io) (ce_Connections payload)
                           \<lparr>im_db = as_db s, im_connIDMap = Map.empty, im_result = emptyResult, im_calls = 0\<rparr>;
                    st = fold (importDevice io) (ce_Devices payload) st
                in (200, Inr (im_result st), reloadServer rio (s\<lparr>as_db := im_db st\<rparr>))))"

section \<open>The database stays clean\<close>

definition rowsClean :: "('r \<Rightarrow> bool) \<Rightarrow> (int \<times> 'r) list \<Rightarrow> bool" where
  "rowsClean P t \<longleftrightarrow> (\<forall>p \<in> set t. 0 < fst p \<and> P (snd p))"

lemma rowsClean_simps [simp]:
  "rowsClean P (t @ [(i, r)]) \<longleftrightarrow> rowsClean P t \<and> 0 < i \<and> P r"
  "rowsClean P []"
  by (auto simp: rowsClean_def)

lemma rowsClean_update: "rowsClean P t \<Longrightarrow> P r \<Longrightarrow> rowsClean P (rowUpdate i r t)"
  by (auto simp: rowsClean_def rowUpdate_def split: if_splits)

lemma rowsClean_delete: "rowsClean P t \<Longrightarrow> rowsClean P (rowDelete i t)" "rowsClean P t \<Longrightarrow> rowsClean P (filter Q t)"
  by (auto simp: rowsClean_def rowDelete_def)

definition cleanConnection :: "cn_row \<Rightarrow> bool" where
  "cleanConnection r \<longleftrightarrow> (\<exists>c. r = connectionRow c \<and> validateConnection c = None)"

definition cleanDevice :: "dv_row \<Rightarrow> bool" where
  "cleanDevice r \<longleftrightarrow> (\<exists>d. r = deviceRow d \<and> validateDevice d = None)"

definition cleanDataPoint :: "dp_row \<Rightarrow> bool" where
  "cleanDataPoint r \<longleftrightarrow> (\<exists>dp. r = dataPointRow dp \<and> validateDataPoint dp = None)"

text \<open>Keys and references are intact, ids are positive and every row is that of a valid entity.\<close>

definition cleanDb :: "confdb \<Rightarrow> bool" where
  "cleanDb db \<longleftrightarrow> confOk db \<and> 0 \<le> cf_connection_seq db \<and> 0 \<le> cf_datapoint_seq db \<and>
     rowsClean cleanConnection (cf_connection db) \<and> rowsClean cleanDevice (cf_device db) \<and>
     rowsClean cleanDataPoint (cf_datapoint db)"

lemma maxRowid_nonneg: "0 \<le> maxRowid t"
  unfolding maxRowid_def by (rule fold_max_ge)

lemma validate_ids [simp]:
  "validateDataPoint (dp\<lparr>dp_DeviceID := i\<rparr>) = validateDataPoint dp" "validateDataPoint (dp\<lparr>dp_ID := i\<rparr>) = validateDataPoint dp"
  "validateDevice (d\<lparr>dv_ID := i\<rparr>) = validateDevice d" "validateConnection (c\<lparr>cn_ID := i\<rparr>) = validateConnection c"
  unfolding validateDataPoint_def validateDevice_def validateConnection_def validateTCP_def validateRTU_def by simp_all

lemma cleanDataPoint_device: "cleanDataPoint (dataPointRow dp) \<Longrightarrow> cleanDataPoint ((dataPointRow dp)\<lparr>dpr_device_id := i\<rparr>)"
proof -
  assume "cleanDataPoint (dataPointRow dp)"
  then obtain x where x: "dataPointRow dp = dataPointRow x" "validateDataPoint x = None" by (auto simp: cleanDataPoint_def)
  then have "(dataPointRow dp)\<lparr>dpr_device_id := i\<rparr> = dataPointRow (x\<lparr>dp_DeviceID := i\<rparr>)" by (simp add: dataPointRow_def)
  moreover have "validateDataPoint (x\<lparr>dp_DeviceID := i\<rparr>) = None" using x(2) by simp
  ultimately show ?thesis unfolding cleanDataPoint_def by blast
qed

lemma cleanDb_connection:
  assumes "cleanDb db"
  shows "cnCreate io c db = (Inr i, db') \<Longrightarrow> validateConnection c = None \<Longrightarrow> cleanDb db'"
    and "cnUpdate io i c db = (None, db') \<Longrightarrow> validateConnection c = None \<Longrightarrow> cleanDb db'"
    and "cnDelete ioC io i db = (None, db') \<Longrightarrow> cleanDb db'"
proof -
  have v: "validateConnection c = None \<Longrightarrow> cleanConnection (connectionRow c)" for c by (auto simp: cleanConnection_def)
  have ok: "confOk db" using assms by (simp add: cleanDb_def)
  show "cnCreate io c db = (Inr i, db') \<Longrightarrow> validateConnection c = None \<Longrightarrow> cleanDb db'"
    using confOk_cnCreate(1) [OF ok] assms v by (auto simp: cleanDb_def cnCreate_def Let_def split: if_splits)
  show "cnUpdate io i c db = (None, db') \<Longrightarrow> validateConnection c = None \<Longrightarrow> cleanDb db'"
    using confOk_cnUpdate(1) [OF ok] assms v by (auto simp: cleanDb_def cnUpdate_def rowsClean_update split: if_splits)
  show "cnDelete ioC io i db = (None, db') \<Longrightarrow> cleanDb db'"
    using confOk_cnDelete(1) [OF ok] assms by (auto simp: cleanDb_def cnDelete_def rowsClean_delete split: if_splits)
qed

lemma cleanDb_device:
  assumes "cleanDb db"
  shows "dvCreate io d db = (Inr i, db') \<Longrightarrow> validateDevice d = None \<Longrightarrow> cleanDb db'"
    and "dvUpdate io i d db = (None, db') \<Longrightarrow> validateDevice d = None \<Longrightarrow> cleanDb db'"
    and "dvDelete io i db = (None, db') \<Longrightarrow> cleanDb db'"
proof -
  have v: "validateDevice d = None \<Longrightarrow> cleanDevice (deviceRow d)" for d by (auto simp: cleanDevice_def)
  have ok: "confOk db" using assms by (simp add: cleanDb_def)
  show "dvCreate io d db = (Inr i, db') \<Longrightarrow> validateDevice d = None \<Longrightarrow> cleanDb db'"
    using confOk_dvCreate(1) [OF ok] assms v maxRowid_nonneg [of "cf_device db"]
    by (auto simp: cleanDb_def dvCreate_def Let_def split: if_splits)
  show "dvUpdate io i d db = (None, db') \<Longrightarrow> validateDevice d = None \<Longrightarrow> cleanDb db'"
    using confOk_dvUpdate(1) [OF ok] assms v by (auto simp: cleanDb_def dvUpdate_def rowsClean_update split: if_splits)
  show "dvDelete io i db = (None, db') \<Longrightarrow> cleanDb db'"
    using confOk_dvDelete(1) [OF ok] assms by (auto simp: cleanDb_def dvDelete_def rowsClean_delete split: if_splits)
qed

lemma cleanDb_dataPoint:
  assumes "cleanDb db"
  shows "dpCreate io dp db = (Inr i, db') \<Longrightarrow> validateDataPoint dp = None \<Longrightarrow> cleanDb db'"
    and "dpUpdate io i dp db = (None, db') \<Longrightarrow> validateDataPoint dp = None \<Longrightarrow> cleanDb db'"
    and "dpDelete io i db = (None, db') \<Longrightarrow> cleanDb db'"
proof -
  have v: "validateDataPoint dp = None \<Longrightarrow> cleanDataPoint (dataPointRow dp)" for dp by (auto simp: cleanDataPoint_def)
  have ok: "confOk db" using assms by (simp add: cleanDb_def)
  show "dpCreate io dp db = (Inr i, db') \<Longrightarrow> validateDataPoint dp = None \<Longrightarrow> cleanDb db'"
    using confOk_dpCreate(1) [OF ok] assms v by (auto simp: cleanDb_def dpCreate_def Let_def split: if_splits)
  show "dpUpdate io i dp db = (None, db') \<Longrightarrow> validateDataPoint dp = None \<Longrightarrow> cleanDb db'"
    using confOk_dpUpdate(1) [OF ok] assms v cleanDataPoint_device
    by (auto simp: cleanDb_def dpUpdate_def rowsClean_update split: if_splits option.splits)
  show "dpDelete io i db = (None, db') \<Longrightarrow> cleanDb db'"
    using confOk_dpDelete(1) [OF ok] assms by (auto simp: cleanDb_def dpDelete_def rowsClean_delete split: if_splits)
qed

lemma repo_err_same:
  "cnCreate io c db = (Inl e, db') \<Longrightarrow> db' = db" "cnUpdate io i c db = (Some e, db') \<Longrightarrow> db' = db"
  "cnDelete ioC io i db = (Some e, db') \<Longrightarrow> db' = db"
  "dvCreate io d db = (Inl e, db') \<Longrightarrow> db' = db" "dvUpdate io i d db = (Some e, db') \<Longrightarrow> db' = db"
  "dvDelete io i db = (Some e, db') \<Longrightarrow> db' = db"
  "dpCreate io dp db = (Inl e, db') \<Longrightarrow> db' = db" "dpUpdate io i dp db = (Some e, db') \<Longrightarrow> db' = db"
  "dpDelete io i db = (Some e, db') \<Longrightarrow> db' = db"
  by (auto simp: cnCreate_def cnUpdate_def cnDelete_def dvCreate_def dvUpdate_def dvDelete_def dpCreate_def dpUpdate_def
      dpDelete_def Let_def split: if_splits option.splits)

text \<open>What a handler may do: fail and change nothing, or change the database and reload.\<close>

definition served :: "apiIO \<Rightarrow> apiServer \<Rightarrow> apiReply \<times> apiServer \<Rightarrow> bool" where
  "served io s rs \<longleftrightarrow>
     (case rs of (r, s') \<Rightarrow>
        (case r of
           ApiFailed code e \<Rightarrow> s' = s \<and> code \<in> {400, 404, 409, 500}
         | _ \<Rightarrow> s' = s \<or> (\<exists>db. cleanDb db \<and> s' = reloadServer io (s\<lparr>as_db := db\<rparr>))))"

lemma repoFailed_code: "repoFailed e = ApiFailed code x \<Longrightarrow> code \<in> {400, 404, 409, 500}"
  by (cases e) (auto simp: repoFailed_def repoStatus_def)

lemma served_repoFailed: "served io s (repoFailed e, s)"
  using repoFailed_code [of e] by (auto simp: served_def repoFailed_def)

lemma served_connection:
  assumes "cleanDb (as_db s)"
  shows "served io s (createConnection io body s)" "served io s (updateConnection io path body s)"
    "served io s (deleteConnection io path s)"
proof -
  have err: "served io s (repoFailed e, s\<lparr>as_db := db\<rparr>)" if "db = as_db s" for e db using served_repoFailed that by simp
  note clean = cleanDb_connection [OF assms] and same = repo_err_same(1,2,3)
  show "served io s (createConnection io body s)"
    by (auto simp: createConnection_def Let_def served_def split: sum.splits option.splits prod.splits dest: clean(1) same(1))
  show "served io s (updateConnection io path body s)"
    by (auto simp: updateConnection_def Let_def split: sum.splits option.splits prod.splits intro!: err dest: same(2))
      (auto simp: served_def dest: clean(2))
  show "served io s (deleteConnection io path s)"
    by (auto simp: deleteConnection_def split: sum.splits option.splits prod.splits intro!: err dest: same(3))
      (auto simp: served_def dest: clean(3))
qed

lemma served_device:
  assumes "cleanDb (as_db s)"
  shows "served io s (createDevice io body s)" "served io s (updateDevice io path body s)"
    "served io s (deleteDevice io path s)"
proof -
  have err: "served io s (repoFailed e, s\<lparr>as_db := db\<rparr>)" if "db = as_db s" for e db using served_repoFailed that by simp
  note clean = cleanDb_device [OF assms] and same = repo_err_same(4,5,6)
  show "served io s (createDevice io body s)"
    by (auto simp: createDevice_def Let_def served_def split: sum.splits option.splits prod.splits dest: clean(1) same(1))
  show "served io s (updateDevice io path body s)"
    by (auto simp: updateDevice_def Let_def split: sum.splits option.splits prod.splits intro!: err dest: same(2))
      (auto simp: served_def dest: clean(2))
  show "served io s (deleteDevice io path s)"
    by (auto simp: deleteDevice_def split: sum.splits option.splits prod.splits intro!: err dest: same(3))
      (auto simp: served_def dest: clean(3))
qed

lemma served_dataPoint:
  assumes "cleanDb (as_db s)"
  shows "served io s (createDataPoint io path body s)" "served io s (updateDataPoint io path body s)"
    "served io s (deleteDataPoint io path s)"
proof -
  have err: "served io s (repoFailed e, s\<lparr>as_db := db\<rparr>)" if "db = as_db s" for e db using served_repoFailed that by simp
  note clean = cleanDb_dataPoint [OF assms] and same = repo_err_same(7,8,9)
  show "served io s (createDataPoint io path body s)"
    by (auto simp: createDataPoint_def Let_def split: sum.splits option.splits prod.splits intro!: served_repoFailed)
      (auto simp: served_def dest: clean(1) same(1))
  show "served io s (updateDataPoint io path body s)"
    by (auto simp: updateDataPoint_def Let_def split: sum.splits option.splits prod.splits intro!: err served_repoFailed dest: same(2))
      (auto simp: served_def dest: clean(2))
  show "served io s (deleteDataPoint io path s)"
    by (auto simp: deleteDataPoint_def split: sum.splits option.splits prod.splits intro!: err dest: same(3))
      (auto simp: served_def dest: clean(3))
qed

lemma served_serve:
  assumes "cleanDb (as_db s)"
  shows "served io s (serve io req s)"
  using served_connection [OF assms] served_device [OF assms] served_dataPoint [OF assms]
  by (cases req) (auto simp: serve_def listConnections_def listDevices_def listDataPoints_def served_def split: sum.splits)

lemma served_clean: "served io s (r, s') \<Longrightarrow> cleanDb (as_db s) \<Longrightarrow> cleanDb (as_db s')"
  by (auto simp: served_def reloadServer_def split: apiReply.splits)

lemma reloaded: "fst (reload io db run) = (if io then wantedConnections db else run)"
  by (rule ext) (auto simp: reload_def Let_def)

text \<open>
  C38: the configuration interface. Whatever requests arrive and whichever database calls fail, the
  database keeps its keys and references, positive ids and only valid rows. A request that is answered
  with an error (400, 404, 409 or 500) changes nothing; after one that changed something, the pollers
  run exactly what the database says, unless the reload itself failed, which leaves them as they were.
\<close>

theorem api_keeps_database_clean:
  assumes "cleanDb (as_db s)"
  shows "cleanDb (as_db (fold (\<lambda>(io, req) s. snd (serve io req s)) reqs s)) \<and>
    (\<forall>io req r s'. serve io req s = (r, s') \<longrightarrow>
       (case r of
          ApiFailed code e \<Rightarrow> s' = s \<and> code \<in> {400, 404, 409, 500}
        | _ \<Rightarrow> s' = s \<or> as_running s' = (if io_reload io then wantedConnections (as_db s') else as_running s)))"
proof -
  have run: "cleanDb (as_db (fold (\<lambda>(io, req) s. snd (serve io req s)) reqs s))" for reqs
    using assms
  proof (induction reqs arbitrary: s)
    case (Cons x reqs)
    obtain io req where x: "x = (io, req)" by fastforce
    obtain r s' where sv: "serve io req s = (r, s')" by fastforce
    have "cleanDb (as_db s')" using served_serve [OF Cons.prems, of io req] served_clean Cons.prems unfolding sv by blast
    from Cons.IH [OF this] show ?case by (simp add: x sv)
  qed simp
  have step: "case r of ApiFailed code e \<Rightarrow> s' = s \<and> code \<in> {400, 404, 409, 500}
        | _ \<Rightarrow> s' = s \<or> as_running s' = (if io_reload io then wantedConnections (as_db s') else as_running s)"
    if "serve io req s = (r, s')" for io req r s'
    using served_serve [OF assms, of io req] unfolding that
    by (cases r) (auto simp: served_def reloadServer_def reloaded)
  show ?thesis using run step by blast
qed

definition allIO :: apiIO where "allIO = \<lparr>io_get = True, io_count = True, io_write = True, io_reload = True\<rparr>"

definition newGateway :: apiServer where
  "newGateway = \<lparr>as_db = emptyConf, as_running = Map.empty, as_status = Map.empty, as_latest = Map.empty\<rparr>"

lemma newGateway_clean: "cleanDb (as_db newGateway)"
  by (simp add: newGateway_def emptyConf_def cleanDb_def confOk_def)

theorem api_keeps_database_clean_witness:
  "cleanDb (as_db (snd (serve allIO (CreateConnection (Inr (toConnectionDTO sampleConnection))) newGateway))) \<and>
   cf_connection (as_db (snd (serve allIO (CreateConnection (Inr (toConnectionDTO sampleConnection))) newGateway))) \<noteq> []"
proof -
  have "validateConnection (toConnection (toConnectionDTO sampleConnection)) = None"
    by (simp add: toConnection_def toConnectionDTO_def validateConnection_def validateTCP_def validateRTU_def sampleConnection_def)
  moreover have "cn_Protocol (toConnection (toConnectionDTO sampleConnection)) \<in> {''RTU'', ''TCP''}"
    by (simp add: toConnection_def toConnectionDTO_def sampleConnection_def)
  ultimately show ?thesis
    using api_keeps_database_clean [OF newGateway_clean, of "[(allIO, CreateConnection (Inr (toConnectionDTO sampleConnection)))]"]
    by (simp add: serve_def createConnection_def cnCreate_def allIO_def Let_def reloadServer_def)
qed

section \<open>Importing an export\<close>

lemma rowUpdate_same: "map_of t i = Some r \<Longrightarrow> distinct (map fst t) \<Longrightarrow> rowUpdate i r t = t"
  by (induction t) (force simp: rowUpdate_def intro!: map_idI split: if_splits)+

lemma conversions [simp]:
  "toConnection (toConnectionDTO c) = c" "toDevice (toDeviceDTO st d) = d" "toDataPoint (toDataPointDTO dp) = dp"
  by (simp_all add: toConnection_def toConnectionDTO_def toDevice_def toDeviceDTO_def toDataPoint_def toDataPointDTO_def
      device.defs dataPoint.defs Let_def split: option.splits)

lemma dto_ids [simp]:
  "cd_ID (toConnectionDTO c) = cn_ID c" "dv_ID (toDeviceDTO st d) = dv_ID d"
  "dv_ConnectionID (toDeviceDTO st d) = dv_ConnectionID d" "dp_ID (toDataPointDTO dp) = dp_ID dp"
  by (simp_all add: toConnectionDTO_def toDeviceDTO_def toDataPointDTO_def device.defs dataPoint.defs Let_def split: option.splits)

lemma row_ids [simp]:
  "connectionRow (c\<lparr>cn_ID := i\<rparr>) = connectionRow c" "deviceRow (d\<lparr>dv_ID := i\<rparr>) = deviceRow d"
  "dataPointRow (dp\<lparr>dp_ID := i\<rparr>) = dataPointRow dp"
  by (simp_all add: connectionRow_def deviceRow_def dataPointRow_def)

lemma cleanDb_rows:
  assumes "cleanDb db"
  shows "(i, r) \<in> set (cf_connection db) \<Longrightarrow> \<exists>c. r = connectionRow c \<and> validateConnection c = None \<and> 0 < i \<and>
      map_of (cf_connection db) i = Some r \<and> cn_Protocol c \<in> {''RTU'', ''TCP''}"
    and "(i, d) \<in> set (cf_device db) \<Longrightarrow> \<exists>x. d = deviceRow x \<and> validateDevice x = None \<and> 0 < i \<and>
      map_of (cf_device db) i = Some d \<and> hasRow (dv_ConnectionID x) (cf_connection db)"
    and "(i, p) \<in> set (cf_datapoint db) \<Longrightarrow> \<exists>x. p = dataPointRow x \<and> validateDataPoint x = None \<and> 0 < i \<and>
      map_of (cf_datapoint db) i = Some p"
proof -
  have keys: "distinct (map fst (cf_connection db))" "distinct (map fst (cf_device db))" "distinct (map fst (cf_datapoint db))"
    and proto: "list_all (\<lambda>(i, r). cnr_protocol r = ''RTU'' \<or> cnr_protocol r = ''TCP'') (cf_connection db)"
    and refs: "list_all (\<lambda>(i, r). hasRow (dvr_connection_id r) (cf_connection db)) (cf_device db)"
    using assms by (simp_all add: cleanDb_def confOk_def)
  have clean: "rowsClean cleanConnection (cf_connection db)" "rowsClean cleanDevice (cf_device db)"
    "rowsClean cleanDataPoint (cf_datapoint db)" using assms by (simp_all add: cleanDb_def)
  show "(i, r) \<in> set (cf_connection db) \<Longrightarrow> \<exists>c. r = connectionRow c \<and> validateConnection c = None \<and> 0 < i \<and>
      map_of (cf_connection db) i = Some r \<and> cn_Protocol c \<in> {''RTU'', ''TCP''}"
    using clean(1) keys(1) proto by (fastforce simp: rowsClean_def cleanConnection_def list_all_iff connectionRow_def)
  show "(i, d) \<in> set (cf_device db) \<Longrightarrow> \<exists>x. d = deviceRow x \<and> validateDevice x = None \<and> 0 < i \<and>
      map_of (cf_device db) i = Some d \<and> hasRow (dv_ConnectionID x) (cf_connection db)"
    using clean(2) keys(2) refs by (fastforce simp: rowsClean_def cleanDevice_def list_all_iff deviceRow_def)
  show "(i, p) \<in> set (cf_datapoint db) \<Longrightarrow> \<exists>x. p = dataPointRow x \<and> validateDataPoint x = None \<and> 0 < i \<and>
      map_of (cf_datapoint db) i = Some p"
    using clean(3) keys(3) by (fastforce simp: rowsClean_def cleanDataPoint_def)
qed

lemma importConnection_own:
  assumes clean: "cleanDb (im_db st)" and row: "(i, r) \<in> set (cf_connection (im_db st))"
  shows "importConnection (\<lambda>_. True) (toConnectionDTO (scanConnection (i, r))) st =
    (called (called st))\<lparr>im_connIDMap := (im_connIDMap st)(i \<mapsto> i),
      im_result := (im_result st)\<lparr>ir_ConnectionsUpdated := ir_ConnectionsUpdated (im_result st) + 1\<rparr>\<rparr>"
proof -
  obtain c where c: "r = connectionRow c" "0 < i" "map_of (cf_connection (im_db st)) i = Some r"
    "cn_Protocol c \<in> {''RTU'', ''TCP''}" using cleanDb_rows(1) [OF clean row] by blast
  have "distinct (map fst (cf_connection (im_db st)))" using clean by (simp add: cleanDb_def confOk_def)
  from rowUpdate_same [OF c(3) this] have up: "cnUpdate True i (c\<lparr>cn_ID := i\<rparr>) (im_db st) = (None, im_db st)"
    using c by (auto simp: cnUpdate_def hasRow_def)
  have get: "cnGet True i (im_db st) = Inr (scanConnection (i, r))" using c(3) by (simp add: cnGet_def)
  show ?thesis
    using c(2) up get by (simp add: importConnection_def c(1) Let_def called_def)
qed

lemma importDataPoint_own:
  assumes clean: "cleanDb (im_db st)" and row: "(i, r) \<in> set (cf_datapoint (im_db st))" and dev: "dpr_device_id r = d"
  shows "importDataPoint (\<lambda>_. True) d (toDataPointDTO (scanDataPoint (i, r))) st =
    (called (called st))\<lparr>im_result := (im_result st)\<lparr>ir_DataPointsUpdated := ir_DataPointsUpdated (im_result st) + 1\<rparr>\<rparr>"
proof -
  obtain x where x: "r = dataPointRow x" "0 < i" "map_of (cf_datapoint (im_db st)) i = Some r"
    using cleanDb_rows(3) [OF clean row] by blast
  have "distinct (map fst (cf_datapoint (im_db st)))" using clean by (simp add: cleanDb_def confOk_def)
  note same = rowUpdate_same [OF x(3) this]
  have "(dataPointRow y)\<lparr>dpr_device_id := dpr_device_id r\<rparr> = r" if "y = x\<lparr>dp_ID := i, dp_DeviceID := d\<rparr>" for y
    using x(1) by (simp add: that dataPointRow_def)
  then have up: "dpUpdate True i (x\<lparr>dp_ID := i, dp_DeviceID := d\<rparr>) (im_db st) = (None, im_db st)"
    using x(3) same by (simp add: dpUpdate_def)
  have get: "dpGet True i (im_db st) = Inr (scanDataPoint (i, r))" using x(3) by (simp add: dpGet_def)
  show ?thesis
    using x(2) up get by (simp add: importDataPoint_def x(1) Let_def called_def)
qed

text \<open>What matters of an import's state: everything but the number of calls.\<close>

definition imported :: "confdb \<Rightarrow> (int \<rightharpoonup> int) \<Rightarrow> configImportResult \<Rightarrow> importState \<Rightarrow> bool" where
  "imported db m r st \<longleftrightarrow> im_db st = db \<and> im_connIDMap st = m \<and> im_result st = r"

lemma importConnections_own:
  assumes "cleanDb db" "set rows \<subseteq> set (cf_connection db)" "imported db m r st"
  shows "imported db (\<lambda>j. if j \<in> fst ` set rows then Some j else m j)
    (r\<lparr>ir_ConnectionsUpdated := ir_ConnectionsUpdated r + int (length rows)\<rparr>)
    (fold (importConnection (\<lambda>_. True)) (map (\<lambda>p. toConnectionDTO (scanConnection p)) rows) st)"
  using assms
proof (induction rows arbitrary: m r st)
  case Nil
  then show ?case by (simp add: imported_def)
next
  case (Cons p rows)
  obtain i x where p: "p = (i, x)" by fastforce
  let ?st = "importConnection (\<lambda>_. True) (toConnectionDTO (scanConnection p)) st"
  have "imported db (m(i \<mapsto> i)) (r\<lparr>ir_ConnectionsUpdated := ir_ConnectionsUpdated r + 1\<rparr>) ?st"
    using Cons.prems importConnection_own [of st i x] by (simp add: p imported_def called_def)
  from Cons.IH [OF Cons.prems(1) _ this] Cons.prems(2) show ?case
    by (auto simp: p imported_def fun_eq_iff)
qed

lemma importDataPoints_own:
  assumes "cleanDb db" "set rows \<subseteq> set (cf_datapoint db)" "\<forall>p \<in> set rows. dpr_device_id (snd p) = d" "imported db m r st"
  shows "imported db m (r\<lparr>ir_DataPointsUpdated := ir_DataPointsUpdated r + int (length rows)\<rparr>)
    (fold (importDataPoint (\<lambda>_. True) d) (map (\<lambda>p. toDataPointDTO (scanDataPoint p)) rows) st)"
  using assms
proof (induction rows arbitrary: r st)
  case Nil
  then show ?case by (simp add: imported_def)
next
  case (Cons p rows)
  obtain i x where p: "p = (i, x)" by fastforce
  let ?st = "importDataPoint (\<lambda>_. True) d (toDataPointDTO (scanDataPoint p)) st"
  have "imported db m (r\<lparr>ir_DataPointsUpdated := ir_DataPointsUpdated r + 1\<rparr>) ?st"
    using Cons.prems importDataPoint_own [of st i x d] by (simp add: p imported_def called_def)
  from Cons.IH [OF Cons.prems(1) _ _ this] Cons.prems(2,3) show ?case by (simp add: imported_def)
qed

definition exportDevice :: "(int \<rightharpoonup> statusInfo) \<Rightarrow> confdb \<Rightarrow> device \<Rightarrow> deviceDTO \<times> dataPointDTO list" where
  "exportDevice status db d = (toDeviceDTO status d, map toDataPointDTO (dpListByDevice (dv_ID d) db))"

lemma importDevice_own:
  assumes clean: "cleanDb db" and row: "(i, x) \<in> set (cf_device db)" and st: "imported db m r st"
    and conns: "\<And>j. hasRow j (cf_connection db) \<Longrightarrow> m j = Some j"
  shows "imported db m (r\<lparr>ir_DevicesUpdated := ir_DevicesUpdated r + 1,
      ir_DataPointsUpdated := ir_DataPointsUpdated r + int (length (dpListByDevice i db))\<rparr>)
    (importDevice (\<lambda>_. True) (exportDevice status db (scanDevice (i, x))) st)"
proof -
  obtain d where d: "x = deviceRow d" "0 < i" "map_of (cf_device db) i = Some x"
    "hasRow (dv_ConnectionID d) (cf_connection db)" using cleanDb_rows(2) [OF clean row] by blast
  have "distinct (map fst (cf_device db))" using clean by (simp add: cleanDb_def confOk_def)
  from rowUpdate_same [OF d(3) this] have up: "dvUpdate True i (d\<lparr>dv_ID := i\<rparr>) db = (None, db)"
    using d by (auto simp: dvUpdate_def hasRow_def)
  have get: "dvGet True i db = Inr (scanDevice (i, x))" using d(3) by (simp add: dvGet_def)
  let ?rows = "filter (\<lambda>(j, p). dpr_device_id p = i) (cf_datapoint db)"
  let ?st = "(called (called st))\<lparr>im_db := db,
    im_result := (im_result st)\<lparr>ir_DevicesUpdated := ir_DevicesUpdated (im_result st) + 1\<rparr>\<rparr>"
  have "importDevice (\<lambda>_. True) (exportDevice status db (scanDevice (i, x))) st =
      fold (importDataPoint (\<lambda>_. True) i) (map (\<lambda>p. toDataPointDTO (scanDataPoint p)) ?rows) ?st"
    using d(2,4) st conns up get
    by (simp add: importDevice_def exportDevice_def d(1) imported_def Let_def called_def dpListByDevice_def o_def)
  moreover have "imported db m (r\<lparr>ir_DevicesUpdated := ir_DevicesUpdated r + 1\<rparr>) ?st"
    using st by (simp add: imported_def called_def)
  from importDataPoints_own [OF clean _ _ this, of ?rows i] have
    "imported db m (r\<lparr>ir_DevicesUpdated := ir_DevicesUpdated r + 1,
        ir_DataPointsUpdated := ir_DataPointsUpdated r + int (length ?rows)\<rparr>)
      (fold (importDataPoint (\<lambda>_. True) i) (map (\<lambda>p. toDataPointDTO (scanDataPoint p)) ?rows) ?st)"
    by auto
  ultimately show ?thesis by (simp add: dpListByDevice_def)
qed

lemma importDevices_own:
  assumes clean: "cleanDb db" and conns: "\<And>j. hasRow j (cf_connection db) \<Longrightarrow> m j = Some j"
  shows "set rows \<subseteq> set (cf_device db) \<Longrightarrow> imported db m r st \<Longrightarrow>
    imported db m (r\<lparr>ir_DevicesUpdated := ir_DevicesUpdated r + int (length rows),
      ir_DataPointsUpdated := ir_DataPointsUpdated r + (\<Sum>p\<leftarrow>rows. int (length (dpListByDevice (fst p) db)))\<rparr>)
    (fold (importDevice (\<lambda>_. True)) (map (\<lambda>p. exportDevice status db (scanDevice p)) rows) st)"
proof (induction rows arbitrary: r st)
  case Nil
  then show ?case by (simp add: imported_def)
next
  case (Cons p rows)
  obtain i x where p: "p = (i, x)" by fastforce
  have "(i, x) \<in> set (cf_device db)" using Cons.prems(1) p by simp
  from Cons.IH [OF _ importDevice_own [OF clean this Cons.prems(2) conns, of status]] Cons.prems(1)
  show ?case by (simp add: p imported_def algebra_simps)
qed

lemma export_valid:
  assumes "cleanDb (as_db s)" "exportConfig io now cfg s = Inr payload"
  shows "ce_Connections payload = map (\<lambda>p. toConnectionDTO (scanConnection p)) (cf_connection (as_db s))"
    "ce_Devices payload = map (\<lambda>p. exportDevice (as_status s) (as_db s) (scanDevice p)) (cf_device (as_db s))"
    "importErrors payload = []"
proof -
  show c: "ce_Connections payload = map (\<lambda>p. toConnectionDTO (scanConnection p)) (cf_connection (as_db s))"
    and d: "ce_Devices payload = map (\<lambda>p. exportDevice (as_status s) (as_db s) (scanDevice p)) (cf_device (as_db s))"
    using assms(2) by (auto simp: exportConfig_def cnList_def dvList_def exportDevice_def split: if_splits)
  have vc: "validateConnection (scanConnection (i, r)) = None" if "(i, r) \<in> set (cf_connection (as_db s))" for i r
    using cleanDb_rows(1) [OF assms(1) that] by auto
  have vd: "validateDevice (scanDevice (i, r)) = None" if "(i, r) \<in> set (cf_device (as_db s))" for i r
    using cleanDb_rows(2) [OF assms(1) that] by auto
  have vp: "validateDataPoint (scanDataPoint (i, r)) = None" if "(i, r) \<in> set (cf_datapoint (as_db s))" for i r
    using cleanDb_rows(3) [OF assms(1) that] by auto
  show "importErrors payload = []"
    using vc vd vp by (auto simp: importErrors_def c d exportDevice_def dpListByDevice_def)
qed


lemma sample_valid:
  "validateConnection sampleConnection = None" "validateDevice sampleDevice = None" "validateDataPoint samplePoint = None"
  by (simp_all add: validateConnection_def validateTCP_def validateDevice_def validateDataPoint_def sampleConnection_def
      sampleDevice_def samplePoint_def byteWidth_def f64_ten f64_eq_def f64_key_def f64_neg_def f64_mag_def
      bit_numeral_word_iff)

lemma sample_rows:
  "cleanConnection (connectionRow sampleConnection)" "cleanDevice (deviceRow sampleDevice)"
  "cleanDataPoint (dataPointRow (samplePoint\<lparr>dp_DeviceID := i\<rparr>))"
  using sample_valid validate_ids(1) by (auto simp: cleanConnection_def cleanDevice_def cleanDataPoint_def)

text \<open>A gateway with two devices on one connection; the first has data points 1 and 3, the second data point 2.\<close>

definition twoDevices :: confdb where
  "twoDevices =
     \<lparr>cf_connection = [(1, connectionRow sampleConnection)],
      cf_device = [(1, deviceRow sampleDevice), (2, deviceRow sampleDevice)],
      cf_datapoint = [(1, dataPointRow (samplePoint\<lparr>dp_DeviceID := 1\<rparr>)), (2, dataPointRow (samplePoint\<lparr>dp_DeviceID := 2\<rparr>)),
        (3, dataPointRow (samplePoint\<lparr>dp_DeviceID := 1\<rparr>))],
      cf_connection_seq = 1, cf_datapoint_seq = 3\<rparr>"

lemma row_refs [simp]:
  "dpr_device_id (dataPointRow dp) = dp_DeviceID dp" "dvr_connection_id (deviceRow d) = dv_ConnectionID d"
  "cnr_protocol (connectionRow c) = cn_Protocol c"
  by (simp_all add: dataPointRow_def deviceRow_def connectionRow_def)

lemma twoDevices_clean: "cleanDb twoDevices"
  using sample_rows
  by (auto simp: cleanDb_def twoDevices_def confOk_def rowsClean_def hasRow_def sampleDevice_def sampleConnection_def)


section \<open>Restoring onto an empty gateway\<close>

lemma export_two:
  "exportConfig (\<lambda>_. True) 0 cfg (newGateway\<lparr>as_db := twoDevices\<rparr>) = Inr payload \<Longrightarrow>
   ce_Connections payload = [toConnectionDTO (sampleConnection\<lparr>cn_ID := 1\<rparr>)] \<and>
   ce_Devices payload =
     [(toDeviceDTO Map.empty (sampleDevice\<lparr>dv_ID := 1\<rparr>),
       [toDataPointDTO (samplePoint\<lparr>dp_DeviceID := 1, dp_ID := 1\<rparr>), toDataPointDTO (samplePoint\<lparr>dp_DeviceID := 1, dp_ID := 3\<rparr>)]),
      (toDeviceDTO Map.empty (sampleDevice\<lparr>dv_ID := 2\<rparr>), [toDataPointDTO (samplePoint\<lparr>dp_DeviceID := 2, dp_ID := 2\<rparr>)])] \<and>
   importErrors payload = []"
  using export_valid [of "newGateway\<lparr>as_db := twoDevices\<rparr>"] twoDevices_clean
  by (auto simp: twoDevices_def newGateway_def exportDevice_def dpListByDevice_def)

text \<open>The import's state after the connection, after the first device and after the second.\<close>

definition afterConnection :: importState where
  "afterConnection =
     \<lparr>im_db = \<lparr>cf_connection = [(1, connectionRow sampleConnection)], cf_device = [], cf_datapoint = [],
        cf_connection_seq = 1, cf_datapoint_seq = 0\<rparr>,
      im_connIDMap = [1 \<mapsto> 1], im_result = emptyResult\<lparr>ir_ConnectionsCreated := 1\<rparr>, im_calls = 2\<rparr>"

definition afterFirst :: importState where
  "afterFirst =
     \<lparr>im_db = \<lparr>cf_connection = [(1, connectionRow sampleConnection)], cf_device = [(1, deviceRow sampleDevice)],
        cf_datapoint = [(1, dataPointRow (samplePoint\<lparr>dp_DeviceID := 1\<rparr>)), (2, dataPointRow (samplePoint\<lparr>dp_DeviceID := 1\<rparr>))],
        cf_connection_seq = 1, cf_datapoint_seq = 2\<rparr>,
      im_connIDMap = [1 \<mapsto> 1],
      im_result = emptyResult\<lparr>ir_ConnectionsCreated := 1, ir_DevicesCreated := 1, ir_DataPointsCreated := 2\<rparr>, im_calls = 8\<rparr>"

definition afterSecond :: importState where
  "afterSecond = afterFirst
     \<lparr>im_db := (im_db afterFirst)\<lparr>cf_device := [(1, deviceRow sampleDevice), (2, deviceRow sampleDevice)]\<rparr>,
      im_result := (im_result afterFirst)\<lparr>ir_DevicesCreated := 2, ir_DataPointsUpdated := 1\<rparr>, im_calls := 12\<rparr>"

lemma sample_refs: "dv_ConnectionID sampleDevice = 1" "cn_Protocol sampleConnection = ''TCP''"
  by (simp_all add: sampleDevice_def sampleConnection_def)

lemmas import_eval = importDevice_def importDataPoint_def dvGet_def dvCreate_def dpGet_def dpCreate_def dpUpdate_def
  hasRow_def maxRowid_def called_def emptyResult_def rowUpdate_def sample_refs

lemma import_connection:
  "importConnection (\<lambda>_. True) (toConnectionDTO (sampleConnection\<lparr>cn_ID := 1\<rparr>))
     \<lparr>im_db = emptyConf, im_connIDMap = Map.empty, im_result = emptyResult, im_calls = 0\<rparr> = afterConnection"
  by (simp add: importConnection_def cnGet_def cnCreate_def emptyConf_def emptyResult_def called_def sample_refs afterConnection_def)

lemma import_first:
  "importDevice (\<lambda>_. True) (toDeviceDTO Map.empty (sampleDevice\<lparr>dv_ID := 1\<rparr>),
     [toDataPointDTO (samplePoint\<lparr>dp_DeviceID := 1, dp_ID := 1\<rparr>), toDataPointDTO (samplePoint\<lparr>dp_DeviceID := 1, dp_ID := 3\<rparr>)])
     afterConnection = afterFirst"
  by (simp add: import_eval afterConnection_def afterFirst_def) (simp add: deviceRow_def dataPointRow_def sample_refs)

lemma import_second:
  "importDevice (\<lambda>_. True) (toDeviceDTO Map.empty (sampleDevice\<lparr>dv_ID := 2\<rparr>),
     [toDataPointDTO (samplePoint\<lparr>dp_DeviceID := 2, dp_ID := 2\<rparr>)]) afterFirst = afterSecond"
  by (simp add: import_eval afterSecond_def afterFirst_def) (simp add: deviceRow_def dataPointRow_def sample_refs)

text \<open>
  C40: restoring a backup onto an empty gateway can lose data points. The export of a gateway whose
  first device has data points 1 and 3 and whose second has data point 2 is imported without any
  error, yet the second device ends up with no data point at all: the first device's second data point
  was created under id 2, and the second device's data point, exported with that id, then overwrote it.
\<close>

theorem restore_loses_data_points:
  "\<exists>payload result s'.
     cleanDb twoDevices \<and>
     exportConfig (\<lambda>_. True) 0 emptyConfig (newGateway\<lparr>as_db := twoDevices\<rparr>) = Inr payload \<and>
     importConfig (\<lambda>_. True) allIO (Inr payload) newGateway = (200, Inr result, s') \<and>
     ir_Errors result = [] \<and> ir_DevicesCreated result = 2 \<and>
     ir_DataPointsCreated result = 2 \<and> ir_DataPointsUpdated result = 1 \<and>
     length (dpListByDevice 1 (as_db s')) = 2 \<and> length (dpListByDevice 2 twoDevices) = 1 \<and>
     dpListByDevice 2 (as_db s') = []"
proof -
  obtain payload where e: "exportConfig (\<lambda>_. True) 0 emptyConfig (newGateway\<lparr>as_db := twoDevices\<rparr>) = Inr payload"
    by (simp add: exportConfig_def list_all_iff)
  let ?s' = "reloadServer allIO (newGateway\<lparr>as_db := im_db afterSecond\<rparr>)"
  have "importConfig (\<lambda>_. True) allIO (Inr payload) newGateway = (200, Inr (im_result afterSecond), ?s')"
    using export_two [OF e] import_connection import_first import_second by (simp add: importConfig_def newGateway_def)
  with e twoDevices_clean show ?thesis
    by (intro exI [of _ payload] exI [of _ "im_result afterSecond"] exI [of _ ?s'])
      (simp add: dpListByDevice_def twoDevices_def emptyResult_def reloadServer_def afterSecond_def afterFirst_def)
qed

end
