(* ===== verification/ModbusSim.thy ===== *)
theory ModbusSim
  imports Acquisition "HOL-Library.Monad_Syntax"
begin

text \<open>
  The Modbus TCP simulator, \<^verbatim>\<open>src/cmd/modbus-sim/main.go\<close>: the seeded register banks,
  the answer to one request (\<^verbatim>\<open>handlePDU\<close>) and the session loop of a connection
  (\<^verbatim>\<open>handleConn\<close>).

  A Go index out of range panics; here it is the value \<open>None\<close> of the loops that index a
  bank. The bytes a peer sends before it closes its side are a list, and \<open>canWrite n\<close> says
  whether the answer to request \<open>n\<close> can be written. The session loop is a
  \<^theory_text>\<open>partial_function\<close>, in which a session that never ends has the value \<open>None\<close>.

  The results: no request makes the simulator index outside a bank; every session over a finite
  stream ends, having answered at most one request per seven bytes; requests sent back to back
  are answered in order, each with its own transaction and unit and with exactly the registers it
  asked for; a float stored in a bank comes back through a request and the gateway's decoder.
\<close>

section \<open>Requests\<close>

definition fcReadCoils :: byte where "fcReadCoils = 1"
definition fcReadDiscreteInputs :: byte where "fcReadDiscreteInputs = 2"
definition fcReadHoldingRegisters :: byte where "fcReadHoldingRegisters = 3"
definition fcReadInputRegisters :: byte where "fcReadInputRegisters = 4"
definition exIllegalFunction :: byte where "exIllegalFunction = 1"
definition exIllegalDataAddr :: byte where "exIllegalDataAddr = 2"

lemmas sim_consts = fcReadCoils_def fcReadDiscreteInputs_def fcReadHoldingRegisters_def
  fcReadInputRegisters_def exIllegalFunction_def exIllegalDataAddr_def

text \<open>\<^verbatim>\<open>binary.BigEndian.Uint16\<close> of a slice of two bytes, and the two bytes of a value.\<close>

definition u16be :: "byte list \<Rightarrow> uint16" where
  "u16be bs = push_bit 8 (ucast (bs ! 0)) OR ucast (bs ! 1)"

definition u16bytes :: "uint16 \<Rightarrow> byte list" where
  "u16bytes v = [ucast (drop_bit 8 v), ucast v]"

lemma unat16_less: "unat w < 65536" for w :: uint16
  using unsigned_less [of w, where 'a = nat] by simp

lemma unat_Suc_less: "i < q \<Longrightarrow> unat (i + 1) = Suc (unat i) \<and> unat i < unat q" for i q :: uint16
  using unat16_less [of q] by (simp add: word_less_nat_alt unat_word_ariths)

text \<open>The loop over the registers of one answer, from register \<open>i\<close> on.\<close>

function registerLoop :: "uint16 list \<Rightarrow> uint16 \<Rightarrow> uint16 \<Rightarrow> uint16 \<Rightarrow> byte list option" where
  "registerLoop bank address quantity i =
     (if i < quantity then
        (if unat (address + i) < length bank then
           do { out \<leftarrow> registerLoop bank address quantity (i + 1);
                Some (u16bytes (bank ! unat (address + i)) @ out) }
         else None)
      else Some [])"
  by pat_completeness auto

termination
proof (relation "measure (\<lambda>(bank, address, quantity, i). unat quantity - unat i)")
  fix address quantity i :: uint16 and bank :: "uint16 list"
  assume "i < quantity"
  note unat_Suc_less [OF this]
  then show "((bank, address, quantity, i + 1), bank, address, quantity, i)
      \<in> measure (\<lambda>(bank, address, quantity, i). unat quantity - unat i)" by (auto simp: diff_less_mono2)
qed simp

declare registerLoop.simps [simp del]

definition handlePDU :: "byte list \<Rightarrow> uint16 list \<Rightarrow> uint16 list \<Rightarrow> byte list option" where
  "handlePDU pdu holding input =
     (if length pdu < 1 then Some [0x80, exIllegalFunction]
      else let fc = pdu ! 0 in
        if fc = fcReadHoldingRegisters \<or> fc = fcReadInputRegisters then
          (if length pdu \<noteq> 5 then Some [fc OR 0x80, exIllegalDataAddr]
           else let address = u16be (take 2 (drop 1 pdu));
                    quantity = u16be (take 2 (drop 3 pdu));
                    bank = (if fc = fcReadInputRegisters then input else holding)
                in if unat address + unat quantity > length bank \<or> quantity = 0 \<or> quantity > 125
                   then Some [fc OR 0x80, exIllegalDataAddr]
                   else do { out \<leftarrow> registerLoop bank address quantity 0;
                             Some ([fc, ucast (quantity * 2)] @ out) })
        else if fc = fcReadCoils \<or> fc = fcReadDiscreteInputs then
          (if length pdu \<noteq> 5 then Some [fc OR 0x80, exIllegalDataAddr]
           else let quantity = u16be (take 2 (drop 3 pdu))
                in if quantity = 0 \<or> quantity > 2000 then Some [fc OR 0x80, exIllegalDataAddr]
                   else let byteCount = (quantity + 7) div 8
                        in Some ([fc, ucast byteCount] @ replicate (unat byteCount) 0))
        else Some [fc OR 0x80, exIllegalFunction])"

section \<open>Sessions\<close>

datatype sessionEnd = PeerClosed | ShortHeader | BadLength | ShortPDU | WriteFailed | Panicked

definition responseFrame :: "byte list \<Rightarrow> byte \<Rightarrow> byte list \<Rightarrow> byte list" where
  "responseFrame transactionID unitID resp =
     (let respLen = word_of_nat (length resp + 1) :: uint16
      in transactionID @ [0x00, 0x00] @ u16bytes respLen @ [unitID] @ resp)"

partial_function (option) handleConn ::
  "uint16 list \<Rightarrow> uint16 list \<Rightarrow> (nat \<Rightarrow> bool) \<Rightarrow> nat \<Rightarrow> byte list \<Rightarrow> (byte list list \<times> sessionEnd) option"
where
  "handleConn holding input canWrite n stream =
     (if length stream < 7 then Some ([], if stream = [] then PeerClosed else ShortHeader)
      else let header = take 7 stream; rest = drop 7 stream;
               transactionID = take 2 header;
               len = u16be (take 2 (drop 4 header));
               unitID = header ! 6
        in if len < 1 \<or> len > 253 then Some ([], BadLength)
           else if length rest < unat (len - 1) then Some ([], ShortPDU)
           else (case handlePDU (take (unat (len - 1)) rest) holding input of
                   None \<Rightarrow> Some ([], Panicked)
                 | Some resp \<Rightarrow>
                     (if \<not> canWrite n then Some ([], WriteFailed)
                      else do { (out, e) \<leftarrow> handleConn holding input canWrite (Suc n)
                                             (drop (unat (len - 1)) rest);
                                Some (responseFrame transactionID unitID resp # out, e) })))"

section \<open>The seeded banks\<close>

definition putFloat32ABCD :: "uint16 list \<Rightarrow> nat \<Rightarrow> 32 word \<Rightarrow> uint16 list option" where
  "putFloat32ABCD bank addr bits =
     (if addr + 1 < length bank
      then Some (bank[addr := ucast (drop_bit 16 bits), addr + 1 := ucast bits]) else None)"

text \<open>\<open>0x44BB9000\<close> is the pattern of \<^verbatim>\<open>float32(1500.5)\<close>.\<close>

definition seededHolding :: "uint16 list option" where
  "seededHolding =
     do { holding \<leftarrow> putFloat32ABCD ((replicate 200 0)[100 := 2302, 101 := 1523]) 102 0x44BB9000;
          Some (holding[104 := 45]) }"

definition seededInput :: "uint16 list" where
  "seededInput = replicate 200 0"


section \<open>Answers\<close>

lemma u16be_u16bytes [simp]: "u16be (u16bytes v) = v"
proof (rule bit_word_eqI)
  fix n assume n: "n < LENGTH(16)"
  show "bit (u16be (u16bytes v)) n = bit v n"
    by (cases "n < 8") (use n in \<open>auto simp: u16be_def u16bytes_def bit_or_iff bit_push_bit_iff
        bit_ucast_iff bit_drop_bit_eq not_less dest: bit_imp_le_length\<close>)
qed

lemma length_u16bytes [simp]: "length (u16bytes v) = 2"
  by (simp add: u16bytes_def)

lemma unat_add_le: "unat (a + b) \<le> unat a + unat b" for a b :: uint16
  by (simp add: unat_word_ariths)

lemma registerLoop_returns:
  "unat a + unat q \<le> length bank \<Longrightarrow> \<exists>out. registerLoop bank a q i = Some out"
proof (induction bank a q i rule: registerLoop.induct)
  case (1 bank a q i)
  show ?case
  proof (cases "i < q")
    case True
    then have "unat (a + i) < length bank"
      using 1(2) unat_add_le [of a i] unat_Suc_less [OF True] by simp
    with 1(1) [OF True] 1(2) True show ?thesis by (subst registerLoop.simps) auto
  qed (simp add: registerLoop.simps)
qed

lemma registerBytes_Suc:
  "registerBytes mem a (Suc n) = u16bytes (mem a) @ registerBytes mem (Suc a) n"
  using registerBytes_split [of mem a 1 n] by (simp add: registerBytes_def u16bytes_def)

lemma registerLoop_bytes:
  assumes "unat a + unat q \<le> length bank" "length bank \<le> 65536" "i \<le> q"
  shows "registerLoop bank a q i = Some (registerBytes ((!) bank) (unat a + unat i) (unat q - unat i))"
  using assms
proof (induction bank a q i rule: registerLoop.induct)
  case (1 bank a q i)
  show ?case
  proof (cases "i < q")
    case True
    note s = unat_Suc_less [OF True]
    then have u: "unat (a + i) = unat a + unat i"
      using 1(2,3) by (simp add: unat_word_ariths)
    have n: "unat q - unat i = Suc (unat q - unat (i + 1))" using s by (simp add: Suc_diff_Suc)
    have "i + 1 \<le> q" using s by (simp add: word_le_nat_alt)
    then have "registerLoop bank a q (i + 1) =
        Some (registerBytes ((!) bank) (unat a + unat (i + 1)) (unat q - unat (i + 1)))"
      using 1 True s u by simp
    then show ?thesis
      using True s u 1(2) by (subst registerLoop.simps) (simp add: n registerBytes_Suc)
  next
    case False
    with 1(4) have "i = q" by simp
    then show ?thesis by (simp add: registerLoop.simps registerBytes_def)
  qed
qed

lemma handlePDU_returns: "\<exists>resp. handlePDU pdu holding input = Some resp"
proof -
  let ?a = "u16be (take 2 (drop 1 pdu))" and ?q = "u16be (take 2 (drop 3 pdu))"
  have "\<exists>out. registerLoop bank ?a ?q 0 = Some out" if "\<not> unat ?a + unat ?q > length bank" for bank
    using registerLoop_returns that by simp
  then show ?thesis by (fastforce simp: handlePDU_def Let_def)
qed

lemma handleConn_returns:
  "\<exists>out e. handleConn holding input canWrite n stream = Some (out, e) \<and> e \<noteq> Panicked \<and>
     7 * length out \<le> length stream"
proof (induction stream arbitrary: n rule: length_induct)
  case (1 stream)
  let ?len = "u16be (take 2 (drop 4 (take 7 stream)))"
  let ?rest = "drop (unat (?len - 1)) (drop 7 stream)"
  obtain resp where resp: "handlePDU (take (unat (?len - 1)) (drop 7 stream)) holding input = Some resp"
    using handlePDU_returns by blast
  show ?case
  proof (cases "length stream < 7")
    case True
    then show ?thesis by (simp add: handleConn.simps)
  next
    case False
    then have "length ?rest < length stream" by simp
    with 1 obtain out e where "handleConn holding input canWrite (Suc n) ?rest = Some (out, e)"
      "e \<noteq> Panicked" "7 * length out \<le> length ?rest" by blast
    with False resp show ?thesis by (subst handleConn.simps) (auto simp: Let_def)
  qed
qed

text \<open>
  C27: every session of the simulator ends: over any finite stream of bytes, whatever requests it
  holds and whenever writing fails, the loop returns, has never indexed outside a register bank,
  and has sent at most one answer for every seven bytes received.
\<close>

theorem session_ends:
  "\<exists>out e. handleConn holding input canWrite 0 stream = Some (out, e) \<and> e \<noteq> Panicked \<and>
     7 * length out \<le> length stream"
  by (rule handleConn_returns)


section \<open>Requests sent back to back\<close>

text \<open>
  A read request as a Modbus TCP master frames it, and the answer it should get: the registers of
  the addressed bank, or the exception for a range the bank does not have.
\<close>

record readRequest =
  rq_transaction :: uint16
  rq_unit :: byte
  rq_function :: byte
  rq_address :: uint16
  rq_quantity :: uint16

definition readPDU :: "readRequest \<Rightarrow> byte list" where
  "readPDU r = rq_function r # u16bytes (rq_address r) @ u16bytes (rq_quantity r)"

definition requestFrame :: "readRequest \<Rightarrow> byte list" where
  "requestFrame r = u16bytes (rq_transaction r) @ [0, 0] @ u16bytes 6 @ [rq_unit r] @ readPDU r"

definition bankOf :: "uint16 list \<Rightarrow> uint16 list \<Rightarrow> readRequest \<Rightarrow> uint16 list" where
  "bankOf holding input r = (if rq_function r = 4 then input else holding)"

definition served :: "uint16 list \<Rightarrow> uint16 list \<Rightarrow> readRequest \<Rightarrow> bool" where
  "served holding input r \<longleftrightarrow>
     unat (rq_address r) + unat (rq_quantity r) \<le> length (bankOf holding input r) \<and>
     0 < unat (rq_quantity r) \<and> unat (rq_quantity r) \<le> 125"

definition expectedPDU :: "uint16 list \<Rightarrow> uint16 list \<Rightarrow> readRequest \<Rightarrow> byte list" where
  "expectedPDU holding input r =
     (if served holding input r
      then rq_function r # 2 * ucast (rq_quantity r) #
           registerBytes ((!) (bankOf holding input r)) (unat (rq_address r)) (unat (rq_quantity r))
      else [rq_function r OR 0x80, 2])"

definition registerRequest :: "readRequest \<Rightarrow> bool" where
  "registerRequest r \<longleftrightarrow> rq_function r = 3 \<or> rq_function r = 4"

lemma readPDU_parts [simp]:
  "length (readPDU r) = 5" "readPDU r ! 0 = rq_function r"
  "u16be (take 2 (drop (Suc 0) (readPDU r))) = rq_address r" "u16be (drop 3 (readPDU r)) = rq_quantity r"
  using u16be_u16bytes [of "rq_address r"] u16be_u16bytes [of "rq_quantity r"]
  by (simp_all add: readPDU_def u16bytes_def)

lemma length_requestFrame [simp]: "length (requestFrame r) = 12"
  by (simp add: requestFrame_def)

lemma requestFrame_parts:
  "take 7 (requestFrame r) = u16bytes (rq_transaction r) @ 0 # 0 # u16bytes 6 @ [rq_unit r]"
  "drop 7 (requestFrame r) = readPDU r"
  by (simp_all add: requestFrame_def)

lemma byteCount_word: "(ucast (q * 2) :: byte) = 2 * ucast q" for q :: uint16
proof -
  have "take_bit 8 (take_bit 16 (uint q * 2)) = take_bit 8 (uint q * 2)" by simp
  then show ?thesis
    by (intro word_uint_eqI)
      (simp add: uint_word_ariths unsigned_ucast_eq take_bit_eq_mod mod_mult_right_eq mult.commute)
qed

lemma handlePDU_read:
  assumes "registerRequest r" "length holding \<le> 65536" "length input \<le> 65536"
  shows "handlePDU (readPDU r) holding input = Some (expectedPDU holding input r)"
proof -
  let ?bank = "bankOf holding input r" and ?q = "rq_quantity r"
  have bank: "length ?bank \<le> 65536" using assms by (simp add: bankOf_def)
  have q: "?q = 0 \<longleftrightarrow> \<not> 0 < unat ?q" "?q > 125 \<longleftrightarrow> \<not> unat ?q \<le> 125"
    by (auto simp: word_less_nat_alt unat_eq_0)
  have "registerLoop ?bank (rq_address r) ?q 0 =
      Some (registerBytes ((!) ?bank) (unat (rq_address r)) (unat ?q))" if "served holding input r"
    using registerLoop_bytes [OF _ bank, of "rq_address r" ?q 0] that by (simp add: served_def)
  moreover have "(if rq_function r = 4 then input else holding) = ?bank" by (simp add: bankOf_def)
  ultimately show ?thesis
    using assms(1) by (auto simp: handlePDU_def Let_def sim_consts registerRequest_def expectedPDU_def
        served_def q byteCount_word simp del: unat_gt_0)
qed

text \<open>
  Requests sent back to back on one connection are answered in their order, each under its own
  transaction and unit identifiers: a register request inside its bank gets exactly the registers
  it asked for, one outside it (or for none or more than 125 registers) the address exception, and
  the session then ends because the peer closed it.
\<close>

theorem session_answers_in_order:
  assumes "list_all registerRequest rs" "length holding \<le> 65536" "length input \<le> 65536"
  shows "handleConn holding input (\<lambda>_. True) n (concat (map requestFrame rs)) =
    Some (map (\<lambda>r. responseFrame (u16bytes (rq_transaction r)) (rq_unit r) (expectedPDU holding input r)) rs,
          PeerClosed)"
  using assms(1)
proof (induction rs arbitrary: n)
  case Nil
  then show ?case by (simp add: handleConn.simps)
next
  case (Cons r rs)
  then have "handlePDU (readPDU r) holding input = Some (expectedPDU holding input r)"
    using handlePDU_read [OF _ assms(2,3)] by simp
  with Cons show ?case
    by (subst handleConn.simps) (simp add: requestFrame_parts Let_def nth_append)
qed

theorem session_answers_in_order_witness:
  "handleConn [7, 8] [9] (\<lambda>_. True) 0 (concat (map requestFrame
     [\<lparr>rq_transaction = 1, rq_unit = 5, rq_function = 3, rq_address = 0, rq_quantity = 2\<rparr>,
      \<lparr>rq_transaction = 2, rq_unit = 6, rq_function = 4, rq_address = 1, rq_quantity = 1\<rparr>])) =
   Some ([[0, 1, 0, 0, 0, 7, 5, 3, 4, 0, 7, 0, 8], [0, 2, 0, 0, 0, 3, 6, 0x84, 2]], PeerClosed)"
  by (subst session_answers_in_order)
    (simp_all add: registerRequest_def responseFrame_def expectedPDU_def served_def bankOf_def
      registerBytes_def u16bytes_def upt_rec)


section \<open>A float through the simulator\<close>

text \<open>Reading the two registers of a float gives its four bytes, most significant first.\<close>

definition f32bytes :: "32 word \<Rightarrow> byte list" where
  "f32bytes bits = [ucast (drop_bit 24 bits), ucast (drop_bit 16 bits), ucast (drop_bit 8 bits), ucast bits]"

lemma putFloat32ABCD_bytes:
  assumes "putFloat32ABCD bank a bits = Some bank'"
  shows "registerBytes ((!) bank') a 2 = f32bytes bits"
proof -
  from assms have b: "a + 1 < length bank" "bank' = bank[a := ucast (drop_bit 16 bits), a + 1 := ucast bits]"
    by (auto simp: putFloat32ABCD_def split: if_splits)
  have "(ucast (ucast (drop_bit 16 bits) :: uint16) :: byte) = ucast (drop_bit 16 bits)"
    "(ucast (drop_bit 8 (ucast (drop_bit 16 bits) :: uint16)) :: byte) = ucast (drop_bit 24 bits)"
    "(ucast (ucast bits :: uint16) :: byte) = ucast bits"
    "(ucast (drop_bit 8 (ucast bits :: uint16)) :: byte) = ucast (drop_bit 8 bits)"
    by (rule bit_word_eqI; auto simp: bit_ucast_iff bit_drop_bit_eq)+
  with b show ?thesis
    by (simp add: numeral_2_eq_2 registerBytes_Suc) (simp add: registerBytes_def u16bytes_def f32bytes_def)
qed

lemma be_f32bytes: "(ucast (be (f32bytes bits)) :: 32 word) = bits"
proof (rule bit_word_eqI)
  fix n assume "n < LENGTH(32)"
  then have n: "n < 32" by simp
  consider "n < 8" | "8 \<le> n" "n < 16" | "16 \<le> n" "n < 24" | "24 \<le> n" using n by linarith
  then show "bit (ucast (be (f32bytes bits)) :: 32 word) n = bit bits n"
    by cases (use n in \<open>auto simp: be_def f32bytes_def bit_ucast_iff bit_or_iff bit_push_bit_iff
        bit_drop_bit_eq dest: bit_imp_le_length\<close>)
qed

lemma decode_f32bytes:
  assumes "order = [] \<or> order = ''ABCD''"
  shows "decode (f32bytes bits) ''FLOAT32'' order = Inr (f64_of_f32 bits)"
proof -
  have "reorder (f32bytes bits) order = Inr (f32bytes bits)"
    using assms by (auto simp: reorder_def reorderLoop_Inr orderPos_def f32bytes_def)
  then show ?thesis by (simp add: decode_def byteWidth_def f32bytes_def [THEN arg_cong, of length] be_f32bytes)
qed

text \<open>
  A float placed in the simulator's registers is what the gateway reports. Storing a 32-bit
  pattern with \<^verbatim>\<open>putFloat32ABCD\<close> succeeds whenever both registers exist, changes no
  other register, and a request for the two registers is answered with bytes that the poller
  decodes, for a \<^verbatim>\<open>FLOAT32\<close> data point of byte order \<^verbatim>\<open>ABCD\<close> (or none), to a
  \<^verbatim>\<open>GOOD\<close> reading of that number, scaled.
\<close>

theorem float_through_simulator:
  assumes "a + 1 < length bank" "length bank \<le> 65536"
    and "rq_function r = 3" "rq_address r = word_of_nat a" "rq_quantity r = 2"
    and "dp_DataType dp = ''FLOAT32''" "dp_ByteOrder dp = [] \<or> dp_ByteOrder dp = ''ABCD''"
    and "dp_RegisterAddress dp = word_of_nat a"
  shows "\<exists>bank' raw. putFloat32ABCD bank a bits = Some bank' \<and>
     (\<forall>k. k \<noteq> a \<and> k \<noteq> a + 1 \<longrightarrow> bank' ! k = bank ! k) \<and>
     handlePDU (readPDU r) bank' [] = Some (3 # 4 # raw) \<and>
     aq_Quality (decodeAndEmit d dp raw (rq_address r) t) = Good \<and>
     aq_Value (decodeAndEmit d dp raw (rq_address r) t) =
       Some (applyScale (f64_of_f32 bits) (dp_Scale dp) (dp_Offset dp))"
proof -
  define bank' where "bank' = bank[a := ucast (drop_bit 16 bits), a + 1 := ucast bits]"
  have put: "putFloat32ABCD bank a bits = Some bank'" using assms(1) by (simp add: putFloat32ABCD_def bank'_def)
  have frame: "\<forall>k. k \<noteq> a \<and> k \<noteq> a + 1 \<longrightarrow> bank' ! k = bank ! k" by (simp add: bank'_def)
  have u: "unat (word_of_nat a :: uint16) = a" using assms(1,2) by (simp add: unat_of_nat)
  have "length bank' = length bank" by (simp add: bank'_def)
  then have "expectedPDU bank' [] r = 3 # 4 # f32bytes bits"
    using assms u putFloat32ABCD_bytes [OF put] by (simp add: expectedPDU_def served_def bankOf_def)
  then have "handlePDU (readPDU r) bank' [] = Some (3 # 4 # f32bytes bits)"
    using handlePDU_read [of r bank' "[]"] assms(2,3) by (simp add: registerRequest_def bank'_def)
  moreover have "length (f32bytes bits) = 4" by (simp add: f32bytes_def)
  ultimately show ?thesis
    using put frame decode_f32bytes [OF assms(7), of bits] assms(4,6,8)
    by (intro exI [of _ bank'] exI [of _ "f32bytes bits"]) (simp add: decodeAndEmit_def byteWidth_def)
qed


definition powerPoint :: dataPoint where
  "powerPoint = (point 2 3 102 ''FLOAT32'')\<lparr>dp_ByteOrder := ''ABCD''\<rparr>"

definition powerRequest :: readRequest where
  "powerRequest = \<lparr>rq_transaction = 9, rq_unit = 1, rq_function = 3, rq_address = 102, rq_quantity = 2\<rparr>"

theorem float_through_simulator_witness:
  "\<exists>bank' raw. putFloat32ABCD (replicate 200 0) 102 0x44BB9000 = Some bank' \<and> bank' ! 100 = 0 \<and>
     handlePDU (readPDU powerRequest) bank' [] = Some (3 # 4 # raw) \<and>
     aq_Quality (decodeAndEmit sampleDevice powerPoint raw 102 7) = Good"
  using float_through_simulator [of 102 "replicate 200 0" powerRequest powerPoint "0x44BB9000" sampleDevice 7]
  by (fastforce simp: powerRequest_def powerPoint_def point_def)

text \<open>The seeding of \<^verbatim>\<open>main\<close> stays inside the banks, and its voltage register holds what
  the comment says: \<open>2302\<close>, at a scale of a tenth.\<close>

lemma seeded_banks:
  "\<exists>h. seededHolding = Some h \<and> length h = 200 \<and> h ! 100 = 2302 \<and> h ! 102 = 0x44BB \<and> h ! 103 = 0x9000 \<and> h ! 104 = 45"
  by (simp add: seededHolding_def putFloat32ABCD_def)

end
