(* ===== verification/ModbusClients.thy ===== *)
theory ModbusClients
  imports Acquisition
begin

text \<open>
  The two Modbus clients, \<^verbatim>\<open>src/internal/modbus/tcp.go\<close> and \<^verbatim>\<open>rtu.go\<close>, over the
  handlers of the goburrow library, and the poller driving one of them.

  A client's state is its handler record and the library's own state \<open>'t\<close>. The library is
  the record \<open>goburrowLib\<close> of what the clients call. What the wire carries is made visible by
  \<open>wireLib\<close>, a library that keeps a log of every request with the unit it addresses.

  The results: in a pass over a connection every request carries the unit of the device whose data
  points it reads, in the order of the plan, although one client serves all devices; and the poller
  never calls \<^verbatim>\<open>Connect\<close> again on a connection it has once opened.
\<close>

section \<open>Handlers and clients\<close>

record baseHandler =
  hd_SlaveId :: byte
  hd_Timeout :: duration

record tcpHandler = baseHandler +
  hd_Address :: string

record rtuHandler = baseHandler +
  hd_Interface :: string
  hd_BaudRate :: int
  hd_DataBits :: int
  hd_Parity :: string
  hd_StopBits :: int

record ('h, 't) goburrowLib =
  gl_Connect :: "'h \<Rightarrow> 't \<Rightarrow> go_error option \<times> 't"
  gl_Close :: "'h \<Rightarrow> 't \<Rightarrow> 't"
  gl_client :: "'h \<Rightarrow> 't goburrow"

definition clientConnect :: "('h, 't) goburrowLib \<Rightarrow> 'h \<times> 't \<Rightarrow> go_error option \<times> ('h \<times> 't)" where
  "clientConnect lib = (\<lambda>(h, t). case gl_Connect lib h t of (err, t) \<Rightarrow> (err, (h, t)))"

definition clientClose :: "('h, 't) goburrowLib \<Rightarrow> 'h \<times> 't \<Rightarrow> 'h \<times> 't" where
  "clientClose lib = (\<lambda>(h, t). (h, gl_Close lib h t))"

definition clientSetUnitID :: "byte \<Rightarrow> 'z baseHandler_scheme \<times> 't \<Rightarrow> 'z baseHandler_scheme \<times> 't" where
  "clientSetUnitID u = (\<lambda>(h, t). (h\<lparr>hd_SlaveId := u\<rparr>, t))"

definition clientRead :: "('h, 't) goburrowLib \<Rightarrow> functionCode \<Rightarrow> uint16 \<Rightarrow> uint16 \<Rightarrow> 'h \<times> 't \<Rightarrow>
    (go_error + byte list) \<times> ('h \<times> 't)" where
  "clientRead lib fc address quantity =
     (\<lambda>(h, t). case readFunc (gl_client lib h) fc address quantity t of (res, t) \<Rightarrow> (res, (h, t)))"

definition clientOps :: "('z baseHandler_scheme, 't) goburrowLib \<Rightarrow> ('z baseHandler_scheme \<times> 't) modbus_client" where
  "clientOps lib = \<lparr>cl_Connect = clientConnect lib, cl_Close = clientClose lib,
     cl_SetUnitID = clientSetUnitID, cl_Read = clientRead lib\<rparr>"

text \<open>The constructors return the operations and the handler they start from.\<close>

definition newTCPClient :: "(tcpHandler, 't) goburrowLib \<Rightarrow> tcpConfig \<Rightarrow>
    (tcpHandler \<times> 't) modbus_client \<times> tcpHandler" where
  "newTCPClient lib cfg =
     (clientOps lib, \<lparr>hd_SlaveId = 0, hd_Timeout = tcp_Timeout cfg, hd_Address = tcp_Address cfg\<rparr>)"

definition newRTUClient :: "(rtuHandler, 't) goburrowLib \<Rightarrow> rtuConfig \<Rightarrow>
    (rtuHandler \<times> 't) modbus_client \<times> rtuHandler" where
  "newRTUClient lib cfg =
     (clientOps lib, \<lparr>hd_SlaveId = 0, hd_Timeout = rtu_Timeout cfg, hd_Interface = rtu_Interface cfg,
        hd_BaudRate = rtu_BaudRate cfg, hd_DataBits = rtu_DataBits cfg, hd_Parity = rtu_Parity cfg,
        hd_StopBits = rtu_StopBits cfg\<rparr>)"

section \<open>The wire\<close>

text \<open>
  A library whose requests are logged: the answer to a request is any function of the unit, the
  request and what was asked before, and connecting succeeds or fails arbitrarily.
\<close>

type_synonym wireRequest = "byte \<times> functionCode \<times> uint16 \<times> uint16"

definition wireRead :: "(wireRequest list \<Rightarrow> wireRequest \<Rightarrow> go_error + byte list) \<Rightarrow> byte \<Rightarrow> functionCode \<Rightarrow>
    uint16 \<Rightarrow> uint16 \<Rightarrow> wireRequest list \<Rightarrow> (go_error + byte list) \<times> wireRequest list" where
  "wireRead answer u fc a q sent = (answer sent (u, fc, a, q), sent @ [(u, fc, a, q)])"

definition wireLib :: "(wireRequest list \<Rightarrow> wireRequest \<Rightarrow> go_error + byte list) \<Rightarrow>
    ('z baseHandler_scheme \<Rightarrow> wireRequest list \<Rightarrow> go_error option) \<Rightarrow>
    ('z baseHandler_scheme, wireRequest list) goburrowLib" where
  "wireLib answer dial =
     \<lparr>gl_Connect = (\<lambda>h sent. (dial h sent, sent)), gl_Close = (\<lambda>h sent. sent),
      gl_client = (\<lambda>h. \<lparr>gb_ReadCoils = wireRead answer (hd_SlaveId h) FuncReadCoils,
         gb_ReadDiscreteInputs = wireRead answer (hd_SlaveId h) FuncReadDiscreteInputs,
         gb_ReadHoldingRegisters = wireRead answer (hd_SlaveId h) FuncReadHoldingRegisters,
         gb_ReadInputRegisters = wireRead answer (hd_SlaveId h) FuncReadInputRegisters\<rparr>)\<rparr>"

definition supported :: "readBlock \<Rightarrow> bool" where
  "supported b \<longleftrightarrow> rb_functionCode b \<in> {1, 2, 3, 4}"

definition blockRequest :: "byte \<Rightarrow> readBlock \<Rightarrow> wireRequest" where
  "blockRequest u b = (u, functionCodeOf (rb_functionCode b), rb_startAddress b, rb_quantity b)"

text \<open>What a pass should put on the wire: for each device its blocks, under its own unit.\<close>

definition passRequests :: "(dataPoint list \<Rightarrow> dataPoint list) \<Rightarrow> poll_env \<Rightarrow> deviceWithPoints list \<Rightarrow>
    wireRequest list" where
  "passRequests srt env devices =
     concat (map (\<lambda>(d, dps). map (blockRequest (word_of_int (dv_SlaveID d)))
       (filter supported (planBlockReads srt (pe_order env dps) dps))) devices)"

lemma readFunc_wire:
  "readFunc (gl_client (wireLib answer dial) h) (functionCodeOf (rb_functionCode b)) (rb_startAddress b) (rb_quantity b) sent =
     (if supported b
      then (answer sent (blockRequest (hd_SlaveId h) b), sent @ [blockRequest (hd_SlaveId h) b])
      else (Inl (plainError ''modbus: unsupported function code''), sent))"
  by (auto simp: readFunc_def wireLib_def wireRead_def supported_def blockRequest_def functionCodeOf_def)

lemma readWithRetry_once:
  "snd (snd (readWithRetry c ctxErr fc a q 0 s)) = snd (cl_Read c fc a q s)"
  by (auto simp: readWithRetry_def Let_def split: prod.splits sum.splits option.splits)

lemma readOneBlock_client:
  "ps_client (readOneBlock c ctxErr dur d t b p) =
     snd (cl_Read c (functionCodeOf (rb_functionCode b)) (rb_startAddress b) (rb_quantity b) (ps_client p))"
  unfolding readWithRetry_once [of c "ctxErr b", symmetric]
  by (auto simp: readOneBlock_def Let_def split: prod.splits sum.splits option.splits)

lemma readBlocks_wire:
  "ps_client p = (h, sent) \<Longrightarrow>
   ps_client (fold (readOneBlock (clientOps (wireLib answer dial)) ctxErr dur d t) bs p) =
     (h, sent @ map (blockRequest (hd_SlaveId h)) (filter supported bs))"
proof (induction bs arbitrary: p sent)
  case (Cons b bs)
  have "ps_client (readOneBlock (clientOps (wireLib answer dial)) ctxErr dur d t b p) =
      (h, if supported b then sent @ [blockRequest (hd_SlaveId h) b] else sent)"
    using Cons.prems readFunc_wire [of answer dial h b sent]
    by (simp add: readOneBlock_client clientOps_def clientRead_def)
  from Cons.IH [OF this] show ?case by simp
qed simp

text \<open>
  C14: on a connection shared by several devices every request addresses the device it is for.
  In a pass that is not cancelled, with any answers and errors from the bus, the requests on the
  wire are exactly, device by device and in the order of each device's plan, the planned blocks
  under that device's own unit identifier; a block with a function code the client does not
  support is never sent.
\<close>

theorem pass_addresses_each_device:
  assumes "undisturbed env devices" "ps_client p = (h, sent)"
    and "pollDevices (clientOps (wireLib answer dial)) srt env delay devices p = (goesOn, p')"
  shows "snd (ps_client p') = sent @ passRequests srt env devices \<and> goesOn"
  using assms
proof (induction devices arbitrary: p h sent)
  case (Cons x devices)
  obtain d dps where x: "x = (d, dps)" by fastforce
  let ?c = "clientOps (wireLib answer dial)"
  let ?h = "h\<lparr>hd_SlaveId := word_of_int (dv_SlaveID d)\<rparr>"
  let ?p = "p\<lparr>ps_client := cl_SetUnitID ?c (word_of_int (dv_SlaveID d)) (ps_client p)\<rparr>"
  let ?bs = "planBlockReads srt (pe_order env dps) dps"
  define r where "r = readDevice ?c (pe_ctxErr env (dv_ID d)) (pe_dur env (dv_ID d)) srt
      (pe_order env dps) d dps (pe_now env (dv_ID d)) ?p"
  have "cl_SetUnitID ?c u (h, sent) = (h\<lparr>hd_SlaveId := u\<rparr>, sent)" for u
    by (simp add: clientOps_def clientSetUnitID_def)
  then have pc: "ps_client (?p\<lparr>ps_readCount := 0, ps_blockReads := 0\<rparr>) = (?h, sent)"
    using Cons.prems(2) by simp
  have r: "ps_client r =
      (?h, sent @ map (blockRequest (word_of_int (dv_SlaveID d))) (filter supported ?bs))"
    unfolding r_def readDevice_def using readBlocks_wire [OF pc] by simp
  have u: "undisturbed env devices" "\<not> pe_cancelled env (dv_ID d)" "\<not> pe_cancelledDelay env (dv_ID d)"
    using Cons.prems(1) by (auto simp: undisturbed_def x)
  define q where "q = (if 0 < ps_readCount r then r\<lparr>ps_cycles := ps_cycles r @
      [(dv_ID d, pe_cycleMs env (dv_ID d), ps_readCount r, ps_blockReads r, pe_now env (dv_ID d))]\<rparr> else r)"
  have q: "ps_client q = ps_client r" "pollDevices ?c srt env delay devices q = (goesOn, p')"
    using Cons.prems(3) u(2,3) by (auto simp: q_def x Let_def waited_def r_def [symmetric] split: if_splits)
  from Cons.IH [OF u(1) _ q(2)] r q(1) show ?case by (simp add: passRequests_def x)
qed (simp_all add: passRequests_def)


text \<open>Two devices of different units behind one client, the first of them not answering.\<close>

definition meterA :: deviceWithPoints where
  "meterA = (sampleDevice\<lparr>dv_ID := 1, dv_SlaveID := 7\<rparr>, [point 1 3 10 ''INT16''])"

definition meterB :: deviceWithPoints where
  "meterB = (sampleDevice\<lparr>dv_ID := 2, dv_SlaveID := 9\<rparr>, [point 2 4 20 ''FLOAT32''])"

definition calmEnv :: poll_env where
  "calmEnv = \<lparr>pe_order = map dp_FunctionCode, pe_cancelled = (\<lambda>_. False), pe_now = (\<lambda>_. 0),
     pe_ctxErr = (\<lambda>_ _ _. None), pe_dur = (\<lambda>_ _. 0), pe_cycleMs = (\<lambda>_. 0), pe_cancelledDelay = (\<lambda>_. False),
     pe_cancelledTop = False, pe_connectNow = 0, pe_cancelledReconnect = False, pe_cancelledYield = False\<rparr>"

definition busAnswer :: "wireRequest list \<Rightarrow> wireRequest \<Rightarrow> go_error + byte list" where
  "busAnswer sent r = (if fst r = 7 then Inl (plainError ''timeout'') else Inr [1, 2, 3, 4])"

definition startState :: "(tcpHandler \<times> wireRequest list) poll_state" where
  "startState = \<lparr>ps_client = (\<lparr>hd_SlaveId = 0, hd_Timeout = 0, hd_Address = ''10.0.0.5:502''\<rparr>, []),
     ps_diag = \<lparr>dg_tx = 0, dg_rx = 0, dg_timeouts = 0, dg_crcErrors = 0, dg_retries = 0, dg_responseTotalNs = 0,
       dg_responseCount = 0\<rparr>, ps_out = [], ps_readCount = 0, ps_blockReads = 0, ps_cycles = []\<rparr>"

theorem pass_addresses_each_device_witness:
  "snd (ps_client (snd (pollDevices (clientOps (wireLib busAnswer (\<lambda>_ _. None))) addressSort calmEnv 0
     [meterA, meterB] startState))) =
   [(7, FuncReadHoldingRegisters, 10, 1), (9, FuncReadInputRegisters, 20, 2)]"
proof -
  have plan: "planBlockReads addressSort [fc] [point i fc a dt] =
      (case registerCount dt of Inl e \<Rightarrow> [] | Inr q \<Rightarrow> [singleBlock fc q (point i fc a dt)])"
    if "fc = 3 \<or> fc = 4" for fc i a dt
    using that by (auto simp: planBlockReads_def point_def addressSort_def planGroup_def singleBlock_def Let_def split: sum.splits)
  have fc: "dp_FunctionCode (point i fc a dt) = fc" and adr: "dp_RegisterAddress (point i fc a dt) = a"
    for i fc a dt by (simp_all add: point_def)
  have "undisturbed calmEnv [meterA, meterB]" by (simp add: undisturbed_def calmEnv_def meterA_def meterB_def)
  then have "snd (ps_client (snd (pollDevices (clientOps (wireLib busAnswer (\<lambda>_ _. None))) addressSort calmEnv 0
     [meterA, meterB] startState))) = [] @ passRequests addressSort calmEnv [meterA, meterB]"
    using pass_addresses_each_device [OF _ _ prod.collapse [symmetric], of calmEnv "[meterA, meterB]" startState]
    by (simp add: startState_def)
  moreover have "passRequests addressSort calmEnv [meterA, meterB] =
      [(7, FuncReadHoldingRegisters, 10, 1), (9, FuncReadInputRegisters, 20, 2)]"
    by (simp add: passRequests_def meterA_def meterB_def calmEnv_def fc plan singleBlock_def registerCount_def
        byteWidth_def supported_def blockRequest_def functionCodeOf_def adr)
  ultimately show ?thesis by simp
qed

section \<open>An open connection is never reopened\<close>

text \<open>The same client with another way of connecting.\<close>

definition withConnect :: "('s \<Rightarrow> go_error option \<times> 's) \<Rightarrow> 's modbus_client \<Rightarrow> 's modbus_client" where
  "withConnect f c = c\<lparr>cl_Connect := f\<rparr>"

lemma withConnect_sel [simp]:
  "cl_Read (withConnect f c) = cl_Read c" "cl_Close (withConnect f c) = cl_Close c"
  "cl_SetUnitID (withConnect f c) = cl_SetUnitID c"
  by (simp_all add: withConnect_def)

lemma readOnce_withConnect [simp]:
  "readWithRetry (withConnect f c) ctxErr fc a q 0 s = readWithRetry c ctxErr fc a q 0 s"
  by (simp add: readWithRetry_def Let_def split: prod.splits sum.splits option.splits)

lemma readOneBlock_withConnect [simp]: "readOneBlock (withConnect f c) = readOneBlock c"
  by (intro ext) (simp only: readOneBlock_def readOnce_withConnect)

lemma pollDevices_withConnect [simp]:
  "pollDevices (withConnect f c) srt env delay devices p = pollDevices c srt env delay devices p"
proof (induction devices arbitrary: p)
  case (Cons x devices)
  obtain d dps where "x = (d, dps)" by fastforce
  with Cons show ?case by (simp add: Let_def closeClient_def readDevice_def)
qed simp

lemma pollIteration_open:
  "pollIteration (withConnect f c) srt conn devices env True p = pollIteration c srt conn devices env True p"
  "fst (pollIteration c srt conn devices env True p) \<Longrightarrow>
     fst (snd (pollIteration c srt conn devices env True p))"
  by (auto simp: pollIteration_def Let_def closeClient_def split: prod.splits bool.splits)

text \<open>
  C19: once a connection has been opened, its poller never calls \<^verbatim>\<open>Connect\<close> again: whatever
  the reads answer and however long the poller runs, replacing the client's \<^verbatim>\<open>Connect\<close> by
  any other function changes nothing of what it does. A link that breaks for good after the first
  connect is therefore only reopened if the transport library reopens it by itself; the reconnect
  of \<^verbatim>\<open>ReadWithRetry\<close> is never reached, as the poller allows it no retry.
\<close>

theorem open_connection_never_reconnects:
  "runConnectionLoop (withConnect f c) srt conn devices envs True p =
     runConnectionLoop c srt conn devices envs True p"
proof (induction envs arbitrary: p)
  case (Cons env envs)
  obtain goesOn isOpen q where i: "pollIteration c srt conn devices env True p = (goesOn, isOpen, q)"
    using prod_cases3 by blast
  with pollIteration_open(2) [of c srt conn devices env p] have "goesOn \<Longrightarrow> isOpen" by simp
  with Cons i show ?case by (cases goesOn) (simp_all add: pollIteration_open(1))
qed simp

end
