(* ===== verification/Storage.thy ===== *)
theory Storage
  imports Prelude "HOL-Library.Char_ord" "HOL-Library.List_Lexorder"
begin

text \<open>
  The configuration database's start-up, \<^verbatim>\<open>src/internal/storage\<close>: \<^verbatim>\<open>Open\<close>, the
  migration runner \<^verbatim>\<open>migrate\<close> and the disk usage of \<^verbatim>\<open>diskusage.go\<close>.

  The contents of the database are of an arbitrary type \<open>'db\<close>. SQLite is an argument: what a
  script does to the contents (which may depend on whether foreign keys are enforced), and whether
  \<^verbatim>\<open>PRAGMA foreign_key_check\<close> reports a violation. So are the directory and its files, and
  the set of steps that fail. Names are compared as Go compares strings, byte by byte.

  The results: scripts run in name order, at most once over all starts, with enforcement off;
  a script and its version are recorded together or not at all, whatever fails; a second start
  changes nothing; and a script that leaves a dangling reference is reported at one start only.
\<close>

section \<open>Files\<close>

text \<open>\<^verbatim>\<open>filepath.Ext\<close>: the suffix that starts at the last dot of the last element.\<close>

definition fileExt :: "string \<Rightarrow> string" where
  "fileExt name =
     (let tail = takeWhile (\<lambda>c. c \<noteq> CHR ''.'' \<and> c \<noteq> CHR ''/'') (rev name);
          before = drop (length tail) (rev name)
      in case before of c # _ \<Rightarrow> if c = CHR ''.'' then c # rev tail else [] | [] \<Rightarrow> [])"

record dirEntry =
  de_Name :: string
  de_IsDir :: bool

definition migrationFiles :: "dirEntry list \<Rightarrow> string list" where
  "migrationFiles entries =
     sort (map de_Name (filter (\<lambda>e. \<not> de_IsDir e \<and> fileExt (de_Name e) = ''.sql'') entries))"

section \<open>The runner\<close>

record 'db storage =
  sg_data :: 'db
  sg_versions :: "string list"
  sg_foreignKeys :: bool

datatype migStep = CheckVersion | DisableKeys | BeginTx | RecordVersion | CommitTx | EnableKeys | CheckKeys

datatype storageErr =
    CreateDirectory
  | OpenSqlite
  | CreateSchemaMigrations
  | ReadMigrationsDir
  | StepFailed migStep string
  | ReadMigration string
  | ApplyMigration string
  | ForeignKeyViolation string

record 'db migEnv =
  me_exec :: "bool \<Rightarrow> string \<Rightarrow> 'db \<Rightarrow> 'db option"
  me_violation :: "'db \<Rightarrow> bool"
  me_readFile :: "string \<Rightarrow> string option"
  me_fails :: "migStep \<Rightarrow> string \<Rightarrow> bool"
  me_createFails :: bool
  me_readDir :: "dirEntry list option"

definition hasForeignKeyViolation :: "'db migEnv \<Rightarrow> string \<Rightarrow> 'db storage \<Rightarrow> storageErr + bool" where
  "hasForeignKeyViolation env name st =
     (if me_fails env CheckKeys name then Inl (StepFailed CheckKeys name)
      else Inr (me_violation env (sg_data st)))"

text \<open>The transaction of one migration: the script, then its row in \<^verbatim>\<open>schema_migrations\<close>,
  whose primary key is the version.\<close>

definition migrationTx :: "'db migEnv \<Rightarrow> string \<Rightarrow> string \<Rightarrow> 'db storage \<Rightarrow> storageErr + 'db storage" where
  "migrationTx env name script st =
     (if me_fails env BeginTx name then Inl (StepFailed BeginTx name)
      else case me_exec env (sg_foreignKeys st) script (sg_data st) of
        None \<Rightarrow> Inl (ApplyMigration name)
      | Some data \<Rightarrow>
          (if me_fails env RecordVersion name \<or> name \<in> set (sg_versions st) then Inl (StepFailed RecordVersion name)
           else if me_fails env CommitTx name then Inl (StepFailed CommitTx name)
           else Inr (st\<lparr>sg_data := data, sg_versions := sg_versions st @ [name]\<rparr>)))"

definition migrateOne :: "'db migEnv \<Rightarrow> string \<Rightarrow> 'db storage \<Rightarrow> storageErr option \<times> 'db storage" where
  "migrateOne env name st =
     (if me_fails env CheckVersion name then (Some (StepFailed CheckVersion name), st)
      else if name \<in> set (sg_versions st) then (None, st)
      else case me_readFile env name of
        None \<Rightarrow> (Some (ReadMigration name), st)
      | Some script \<Rightarrow>
          (if me_fails env DisableKeys name then (Some (StepFailed DisableKeys name), st)
           else let st = st\<lparr>sg_foreignKeys := False\<rparr> in
             case migrationTx env name script st of
               Inl err \<Rightarrow> (Some err, st)
             | Inr st \<Rightarrow>
                 (if me_fails env EnableKeys name then (Some (StepFailed EnableKeys name), st)
                  else let st = st\<lparr>sg_foreignKeys := True\<rparr> in
                    case hasForeignKeyViolation env name st of
                      Inl err \<Rightarrow> (Some err, st)
                    | Inr violation \<Rightarrow>
                        ((if violation then Some (ForeignKeyViolation name) else None), st))))"

fun migrateLoop :: "'db migEnv \<Rightarrow> string list \<Rightarrow> 'db storage \<Rightarrow> storageErr option \<times> 'db storage" where
  "migrateLoop env [] st = (None, st)"
| "migrateLoop env (name # names) st =
     (case migrateOne env name st of
        (Some err, st) \<Rightarrow> (Some err, st)
      | (None, st) \<Rightarrow> migrateLoop env names st)"

definition migrate :: "'db migEnv \<Rightarrow> 'db storage \<Rightarrow> storageErr option \<times> 'db storage" where
  "migrate env st =
     (if me_createFails env then (Some CreateSchemaMigrations, st)
      else case me_readDir env of
        None \<Rightarrow> (Some ReadMigrationsDir, st)
      | Some entries \<Rightarrow> migrateLoop env (migrationFiles entries) st)"

text \<open>
  \<^verbatim>\<open>Open\<close>: \<open>mkdirFails\<close> says for which directories \<^verbatim>\<open>os.MkdirAll\<close> fails and
  \<open>openFails\<close> whether \<^verbatim>\<open>sql.Open\<close> does; the connection string turns foreign keys
  on. The file's contents after the call are returned together with the error or the open database.
\<close>

definition openStorage :: "(string \<Rightarrow> bool) \<Rightarrow> bool \<Rightarrow> 'db migEnv \<Rightarrow> string \<Rightarrow> 'db storage \<Rightarrow>
    (storageErr + 'db storage) \<times> 'db storage" where
  "openStorage mkdirFails openFails env path file =
     (if dirPath path \<noteq> ''.'' \<and> mkdirFails (dirPath path) then (Inl CreateDirectory, file)
      else if openFails then (Inl OpenSqlite, file)
      else case migrate env (file\<lparr>sg_foreignKeys := True\<rparr>) of
        (Some err, st) \<Rightarrow> (Inl err, st)
      | (None, st) \<Rightarrow> (Inr st, st))"

section \<open>Disk usage\<close>

text \<open>What the gopsutil library reports of a volume; the percentage is a 64-bit float pattern.\<close>

record usageStat =
  us_Used :: uint64
  us_Free :: uint64
  us_UsedPercent :: uint64

definition diskUsagePercent :: "(string \<Rightarrow> 'e + usageStat) \<Rightarrow> string \<Rightarrow> 'e + uint64" where
  "diskUsagePercent usage dbPath =
     (case usage (dirPath dbPath) of Inl err \<Rightarrow> Inl err | Inr u \<Rightarrow> Inr (us_UsedPercent u))"

definition diskUsage :: "(string \<Rightarrow> 'e + usageStat) \<Rightarrow> string \<Rightarrow> 'e + uint64 \<times> uint64" where
  "diskUsage usage path =
     (case usage (dirPath path) of Inl err \<Rightarrow> Inl err | Inr u \<Rightarrow> Inr (us_Used u, us_Used u + us_Free u))"

section \<open>What one run does\<close>

text \<open>
  The reference: the files not yet applied, and the contents after running the given scripts in
  order with enforcement off.
\<close>

definition pendingFiles :: "'db storage \<Rightarrow> string list \<Rightarrow> string list" where
  "pendingFiles st names = filter (\<lambda>n. n \<notin> set (sg_versions st)) names"

fun runScripts :: "'db migEnv \<Rightarrow> string list \<Rightarrow> 'db \<Rightarrow> 'db option" where
  "runScripts env [] db = Some db"
| "runScripts env (name # names) db =
     (case me_readFile env name of
        None \<Rightarrow> None
      | Some script \<Rightarrow> (case me_exec env False script db of None \<Rightarrow> None | Some db \<Rightarrow> runScripts env names db))"

text \<open>One step either records and applies its script, or leaves both alone.\<close>

definition appliedStep :: "'db migEnv \<Rightarrow> string \<Rightarrow> 'db storage \<Rightarrow> 'db storage \<Rightarrow> bool" where
  "appliedStep env name st st' \<longleftrightarrow>
     name \<notin> set (sg_versions st) \<and> sg_versions st' = sg_versions st @ [name] \<and>
     runScripts env [name] (sg_data st) = Some (sg_data st')"

definition untouched :: "'db storage \<Rightarrow> 'db storage \<Rightarrow> bool" where
  "untouched st st' \<longleftrightarrow> sg_versions st' = sg_versions st \<and> sg_data st' = sg_data st"

lemma migrationTx_cases:
  assumes "migrationTx env name script st = Inr st'"
  shows "name \<notin> set (sg_versions st) \<and> sg_versions st' = sg_versions st @ [name] \<and>
    me_exec env (sg_foreignKeys st) script (sg_data st) = Some (sg_data st') \<and>
    sg_foreignKeys st' = sg_foreignKeys st"
  using assms by (auto simp: migrationTx_def split: if_splits option.splits)

lemma migrateOne_done:
  assumes "migrateOne env name st = (None, st')"
  shows "(name \<in> set (sg_versions st) \<and> st' = st) \<or>
    (appliedStep env name st st' \<and> sg_foreignKeys st' \<and> \<not> me_violation env (sg_data st'))"
  using assms by (auto simp: migrateOne_def Let_def appliedStep_def hasForeignKeyViolation_def
      dest!: migrationTx_cases split: if_splits option.splits sum.splits)

lemma migrateOne_failed:
  assumes "migrateOne env name st = (Some err, st')"
  shows "name \<notin> set (sg_versions st) \<and> (untouched st st' \<or> appliedStep env name st st') \<or>
    (err = StepFailed CheckVersion name \<and> st' = st)"
  using assms by (auto simp: migrateOne_def Let_def appliedStep_def untouched_def hasForeignKeyViolation_def
      dest!: migrationTx_cases split: if_splits option.splits sum.splits)


lemma runScripts_append:
  "runScripts env (xs @ ys) db = Option.bind (runScripts env xs db) (runScripts env ys)"
  by (induction xs arbitrary: db) (auto split: option.splits)

lemma pendingFiles_applied:
  "name \<notin> set names \<Longrightarrow> sg_versions st' = sg_versions st @ [name] \<Longrightarrow> pendingFiles st' names = pendingFiles st names"
  by (auto simp: pendingFiles_def intro!: filter_cong)

text \<open>What a run over a list of files has done when it stops.\<close>

definition ranPrefix :: "'db migEnv \<Rightarrow> string list \<Rightarrow> 'db storage \<Rightarrow> storageErr option \<Rightarrow> 'db storage \<Rightarrow> bool" where
  "ranPrefix env names st err st' \<longleftrightarrow>
     (\<exists>ran rest. pendingFiles st names = ran @ rest \<and> sg_versions st' = sg_versions st @ ran \<and>
        runScripts env ran (sg_data st) = Some (sg_data st') \<and>
        (err = None \<longrightarrow> rest = []) \<and>
        (err = None \<and> ran \<noteq> [] \<longrightarrow> sg_foreignKeys st' \<and> \<not> me_violation env (sg_data st')) \<and>
        (err = None \<and> ran = [] \<longrightarrow> st' = st))"

lemma ranPrefix_cons:
  assumes "name \<notin> set names" "appliedStep env name st st1" "ranPrefix env names st1 err st'"
    and "sg_foreignKeys st1 \<and> \<not> me_violation env (sg_data st1)"
  shows "ranPrefix env (name # names) st err st'"
proof -
  from assms(2) have v: "sg_versions st1 = sg_versions st @ [name]" "name \<notin> set (sg_versions st)"
    and run: "runScripts env [name] (sg_data st) = Some (sg_data st1)" by (auto simp: appliedStep_def)
  have pend: "pendingFiles st (name # names) = name # pendingFiles st1 names"
    using v pendingFiles_applied [OF assms(1) v(1)] by (simp add: pendingFiles_def)
  from assms(3) obtain ran rest where "pendingFiles st1 names = ran @ rest" "sg_versions st' = sg_versions st1 @ ran"
    "runScripts env ran (sg_data st1) = Some (sg_data st')" and fin: "err = None \<longrightarrow> rest = []"
    "err = None \<and> ran \<noteq> [] \<longrightarrow> sg_foreignKeys st' \<and> \<not> me_violation env (sg_data st')"
    "err = None \<and> ran = [] \<longrightarrow> st' = st1" by (auto simp: ranPrefix_def)
  then have "pendingFiles st (name # names) = (name # ran) @ rest" "sg_versions st' = sg_versions st @ name # ran"
    "runScripts env (name # ran) (sg_data st) = Some (sg_data st')"
    using v pend run runScripts_append [of env "[name]" ran "sg_data st"] by simp_all
  moreover have "err = None \<Longrightarrow> sg_foreignKeys st' \<and> \<not> me_violation env (sg_data st')"
    using fin(2,3) assms(4) by (cases "ran = []") simp_all
  ultimately show ?thesis
    unfolding ranPrefix_def using fin(1) by (intro exI [of _ "name # ran"] exI [of _ rest]) simp
qed

lemma migrateLoop_prefix:
  "distinct names \<Longrightarrow> migrateLoop env names st = (err, st') \<Longrightarrow> ranPrefix env names st err st'"
proof (induction names arbitrary: st)
  case Nil
  then show ?case by (simp add: ranPrefix_def pendingFiles_def)
next
  case (Cons name names)
  show ?case
  proof (cases "fst (migrateOne env name st)")
    case None
    then obtain st1 where one: "migrateOne env name st = (None, st1)" by (cases "migrateOne env name st") simp
    with Cons.prems(2) have "migrateLoop env names st1 = (err, st')" by simp
    with Cons have loop: "ranPrefix env names st1 err st'" by simp
    from migrateOne_done [OF one] show ?thesis
    proof
      assume "name \<in> set (sg_versions st) \<and> st1 = st"
      with loop show ?thesis by (simp add: ranPrefix_def pendingFiles_def)
    qed (use Cons.prems(1) loop ranPrefix_cons in fastforce)
  next
    case (Some e)
    with Cons.prems(2) have one: "migrateOne env name st = (Some e, st')" and e: "err = Some e"
      by (auto split: prod.splits)
    let ?ps = "pendingFiles st (name # names)"
    have "(sg_versions st' = sg_versions st \<and> sg_data st' = sg_data st) \<or>
        (sg_versions st' = sg_versions st @ [name] \<and> runScripts env [name] (sg_data st) = Some (sg_data st') \<and>
         ?ps = [name] @ pendingFiles st names)"
      using migrateOne_failed [OF one] by (auto simp: untouched_def appliedStep_def pendingFiles_def)
    then show ?thesis
    proof
      assume "sg_versions st' = sg_versions st \<and> sg_data st' = sg_data st"
      then show ?thesis unfolding ranPrefix_def e by (intro exI [of _ "[]"] exI [of _ ?ps]) simp
    next
      assume "sg_versions st' = sg_versions st @ [name] \<and> runScripts env [name] (sg_data st) = Some (sg_data st') \<and>
         ?ps = [name] @ pendingFiles st names"
      then show ?thesis
        unfolding ranPrefix_def e by (intro exI [of _ "[name]"] exI [of _ "pendingFiles st names"]) blast
    qed
  qed
qed

lemma migrateLoop_nothing_pending:
  assumes "pendingFiles st names = []" "\<And>name. \<not> me_fails env CheckVersion name"
  shows "migrateLoop env names st = (None, st)"
  using assms(1)
proof (induction names)
  case (Cons name names)
  then have "name \<in> set (sg_versions st)" "pendingFiles st names = []"
    by (auto simp: pendingFiles_def split: if_splits)
  with Cons.IH assms(2) show ?case by (simp add: migrateOne_def)
qed simp


lemma migrate_loop:
  assumes "\<not> me_createFails env" "me_readDir env = Some entries"
  shows "migrate env st = migrateLoop env (migrationFiles entries) st"
  using assms by (simp add: migrate_def)

lemma distinct_migrationFiles: "distinct (map de_Name entries) \<Longrightarrow> distinct (migrationFiles entries)"
  by (auto simp: migrationFiles_def distinct_map inj_on_def)

text \<open>
  C25: a start of the gateway brings the database forward by whole migrations. Whatever step fails,
  the files it has run are an initial part, in the byte order of their names, of those not yet
  recorded; the recorded versions grow by exactly these, and the contents are what these scripts
  make of the old contents, each run with foreign keys off: no script is half applied, applied
  without being recorded, or applied twice. When it succeeds nothing is left over, enforcement is
  on again and no reference dangles, and the next start over the same directory changes nothing.
\<close>

theorem migrations_apply_once:
  assumes "me_readDir env = Some entries" "distinct (map de_Name entries)" "\<not> me_createFails env"
    and "migrate env st = (err, st')"
    and "me_readDir env' = Some entries" "\<not> me_createFails env'" "\<And>name. \<not> me_fails env' CheckVersion name"
  shows "sorted (migrationFiles entries) \<and>
    (\<exists>ran rest. pendingFiles st (migrationFiles entries) = ran @ rest \<and>
      sg_versions st' = sg_versions st @ ran \<and> runScripts env ran (sg_data st) = Some (sg_data st') \<and>
      (err = None \<longrightarrow> rest = [] \<and> migrate env' st' = (None, st') \<and>
        (ran = [] \<or> sg_foreignKeys st' \<and> \<not> me_violation env (sg_data st'))))"
proof -
  let ?files = "migrationFiles entries"
  have "migrateLoop env ?files st = (err, st')" using assms(4) migrate_loop [OF assms(3,1)] by metis
  then have "ranPrefix env ?files st err st'" by (rule migrateLoop_prefix [OF distinct_migrationFiles [OF assms(2)]])
  then obtain ran rest where r: "pendingFiles st ?files = ran @ rest" "sg_versions st' = sg_versions st @ ran"
    "runScripts env ran (sg_data st) = Some (sg_data st')" "err = None \<longrightarrow> rest = []"
    "err = None \<and> ran \<noteq> [] \<longrightarrow> sg_foreignKeys st' \<and> \<not> me_violation env (sg_data st')"
    by (auto simp: ranPrefix_def)
  have "migrate env' st' = (None, st')" if "err = None"
  proof -
    from r(1,4) that have "filter (\<lambda>n. n \<notin> set (sg_versions st)) ?files = ran" by (simp add: pendingFiles_def)
    then have "pendingFiles st' ?files = []" using r(2) by (auto simp: pendingFiles_def filter_empty_conv)
    from migrateLoop_nothing_pending [OF this assms(7)] show ?thesis using migrate_loop [OF assms(6,5)] by metis
  qed
  with r show ?thesis by (auto simp: migrationFiles_def)
qed

text \<open>A database that is the log of the scripts run on it; a script \<^verbatim>\<open>bad\<close> fails and one
  called \<^verbatim>\<open>orphan\<close> leaves a dangling reference.\<close>

definition logEnv :: "string list migEnv" where
  "logEnv = \<lparr>me_exec = (\<lambda>enforced script db. if script = ''bad'' then None else Some (db @ [script])),
     me_violation = (\<lambda>db. ''orphan'' \<in> set db),
     me_readFile = (\<lambda>name. if name = ''0001.sql'' then Some ''create'' else if name = ''0002.sql'' then Some ''orphan''
        else Some ''bad''), me_fails = (\<lambda>_ _. False), me_createFails = False,
     me_readDir = Some [\<lparr>de_Name = ''0003.sql'', de_IsDir = False\<rparr>, \<lparr>de_Name = ''0001.sql'', de_IsDir = False\<rparr>]\<rparr>"

definition emptyDb :: "string list storage" where
  "emptyDb = \<lparr>sg_data = [], sg_versions = [], sg_foreignKeys = True\<rparr>"

lemma logEnv_files:
  "migrationFiles [\<lparr>de_Name = ''0003.sql'', de_IsDir = False\<rparr>, \<lparr>de_Name = ''0001.sql'', de_IsDir = False\<rparr>] =
     [''0001.sql'', ''0003.sql'']"
  by code_simp

lemma logEnv_run:
  "migrate logEnv emptyDb = (Some (ApplyMigration ''0003.sql''),
     \<lparr>sg_data = [''create''], sg_versions = [''0001.sql''], sg_foreignKeys = False\<rparr>)"
  by (simp add: migrate_def logEnv_files logEnv_def) code_simp

theorem migrations_apply_once_witness:
  "sorted (migrationFiles [\<lparr>de_Name = ''0003.sql'', de_IsDir = False\<rparr>, \<lparr>de_Name = ''0001.sql'', de_IsDir = False\<rparr>]) \<and>
   (\<exists>ran rest. pendingFiles emptyDb [''0001.sql'', ''0003.sql''] = ran @ rest \<and> [''0001.sql''] = ran \<and>
     runScripts logEnv ran [] = Some [''create''])"
  using migrations_apply_once [OF _ _ _ logEnv_run, of _ logEnv] logEnv_files
  by (simp add: logEnv_def emptyDb_def)


section \<open>A violation is reported once\<close>

lemma migrateOne_violation:
  assumes "migrateOne env name st = (Some (ForeignKeyViolation n), st')"
  shows "n = name \<and> name \<in> set (sg_versions st') \<and> me_violation env (sg_data st')"
  using assms by (auto simp: migrateOne_def Let_def migrationTx_def hasForeignKeyViolation_def
      split: if_splits option.splits sum.splits)

lemma migrateLoop_violation:
  "migrateLoop env names st = (Some (ForeignKeyViolation n), st') \<Longrightarrow>
     n \<in> set (sg_versions st') \<and> me_violation env (sg_data st')"
proof (induction names arbitrary: st)
  case (Cons name names)
  then show ?case using migrateOne_violation [of env name st n st'] by (fastforce split: prod.splits option.splits)
qed simp

lemma migrateOne_versions: "set (sg_versions st) \<subseteq> set (sg_versions (snd (migrateOne env name st)))"
  using migrateOne_done [of env name st] migrateOne_failed [of env name st]
  by (cases "migrateOne env name st"; cases "fst (migrateOne env name st)") (auto simp: appliedStep_def untouched_def)

lemma migrateLoop_versions: "set (sg_versions st) \<subseteq> set (sg_versions (snd (migrateLoop env names st)))"
proof (induction names arbitrary: st)
  case (Cons name names)
  then show ?case
    using migrateOne_versions [of st env name] by (fastforce split: prod.splits option.splits)
qed simp

lemma migrateLoop_stop:
  "migrateLoop env names st = (Some (ForeignKeyViolation n), st') \<Longrightarrow>
     \<exists>before after. names = before @ n # after \<and> pendingFiles st' (before @ [n]) = []"
proof (induction names arbitrary: st)
  case (Cons name names)
  show ?case
  proof (cases "migrateOne env name st")
    case (Pair e st1)
    show ?thesis
    proof (cases e)
      case None
      with Cons Pair obtain before after where "names = before @ n # after" "pendingFiles st' (before @ [n]) = []"
        by fastforce
      moreover have "name \<in> set (sg_versions st')"
        using migrateOne_done [of env name st st1] Pair None Cons.prems migrateLoop_versions [of st1 env names]
        by (auto simp: appliedStep_def)
      ultimately show ?thesis by (intro exI [of _ "name # before"] exI [of _ after]) (auto simp: pendingFiles_def split: if_splits)
    next
      case (Some x)
      with Cons.prems Pair have "migrateOne env name st = (Some (ForeignKeyViolation n), st')" by simp
      from migrateOne_violation [OF this] show ?thesis
        by (intro exI [of _ "[]"] exI [of _ names]) (auto simp: pendingFiles_def)
    qed
  qed
qed simp

text \<open>
  A migration that leaves a dangling reference is committed and recorded before the check that
  reports it. When a start fails with that report and the offending file is the newest one, the very
  next start finds nothing to do and opens the database, with the dangling reference still in it.
\<close>

theorem violation_reported_once:
  assumes "me_readDir env = Some entries" "\<not> me_createFails env"
    and "migrate env st = (Some (ForeignKeyViolation name), st')" "last (migrationFiles entries) = name"
    and "distinct (map de_Name entries)"
    and "\<And>name. \<not> me_fails env CheckVersion name"
  shows "name \<in> set (sg_versions st') \<and> me_violation env (sg_data st') \<and> migrate env st' = (None, st')"
proof -
  let ?files = "migrationFiles entries"
  have loop: "migrateLoop env ?files st = (Some (ForeignKeyViolation name), st')"
    using assms(3) migrate_loop [OF assms(2,1)] by metis
  obtain before after where split: "?files = before @ name # after" and pend: "pendingFiles st' (before @ [name]) = []"
    using migrateLoop_stop [OF loop] by blast
  have "after = []"
    using split assms(4) distinct_migrationFiles [OF assms(5)] by (cases after rule: rev_cases) auto
  then have "migrate env st' = (None, st')"
    using migrateLoop_nothing_pending [OF pend assms(6)] migrate_loop [OF assms(2,1)] split by simp
  with migrateLoop_violation [OF loop] show ?thesis by simp
qed

definition orphanEnv :: "string list migEnv" where
  "orphanEnv = logEnv\<lparr>me_readDir := Some [\<lparr>de_Name = ''0002.sql'', de_IsDir = False\<rparr>]\<rparr>"

lemma orphanEnv_run:
  "migrate orphanEnv emptyDb = (Some (ForeignKeyViolation ''0002.sql''),
     \<lparr>sg_data = [''orphan''], sg_versions = [''0002.sql''], sg_foreignKeys = True\<rparr>)"
  by code_simp

theorem violation_reported_once_witness:
  "migrate orphanEnv \<lparr>sg_data = [''orphan''], sg_versions = [''0002.sql''], sg_foreignKeys = True\<rparr> =
     (None, \<lparr>sg_data = [''orphan''], sg_versions = [''0002.sql''], sg_foreignKeys = True\<rparr>)"
proof -
  have "last (migrationFiles [\<lparr>de_Name = ''0002.sql'', de_IsDir = False\<rparr>]) = ''0002.sql''" by code_simp
  from violation_reported_once [OF _ _ orphanEnv_run this] show ?thesis
    by (simp add: orphanEnv_def logEnv_def)
qed

end
