(* ===== verification/Logger.thy ===== *)
theory Logger
  imports Acquisition
begin

text \<open>
  Logging, \<^verbatim>\<open>src/internal/logger\<close>: the choice of level and format (\<^verbatim>\<open>logger.go\<close>) and the
  ring buffer behind the log page (\<^verbatim>\<open>ringbuffer.go\<close>).

  Every logger derived with attributes or a group shares one buffer, so the state is the buffer and
  what was handed to the output; a derived handler is the list of its derivations. The output
  handler of \<^verbatim>\<open>log/slog\<close> is represented by the records it receives and by its error, an
  argument. Attribute values are of an arbitrary type.

  The results: the buffer is an implementation of the abstract log, the list of all records logged
  so far, of which it shows the last ones, whoever logged them; attributes given to a derived
  logger are not among what it shows.
\<close>

section \<open>Levels\<close>

definition LevelDebug :: int where "LevelDebug = - 4"
definition LevelInfo :: int where "LevelInfo = 0"
definition LevelWarn :: int where "LevelWarn = 4"
definition LevelError :: int where "LevelError = 8"

lemmas level_consts = LevelDebug_def LevelInfo_def LevelWarn_def LevelError_def

text \<open>\<^verbatim>\<open>Level.String\<close> of \<^verbatim>\<open>log/slog\<close>.\<close>

definition levelOffset :: "string \<Rightarrow> int \<Rightarrow> string" where
  "levelOffset base v = (if v = 0 then base else base @ (if v > 0 then ''+'' else []) @ decimal v)"

definition levelString :: "int \<Rightarrow> string" where
  "levelString l =
     (if l < LevelInfo then levelOffset ''DEBUG'' (l - LevelDebug)
      else if l < LevelWarn then levelOffset ''INFO'' (l - LevelInfo)
      else if l < LevelError then levelOffset ''WARN'' (l - LevelWarn)
      else levelOffset ''ERROR'' (l - LevelError))"

definition parseLevel :: "string \<Rightarrow> int" where
  "parseLevel level =
     (let l = toLower level in
      if l = ''debug'' then LevelDebug else if l = ''warn'' then LevelWarn
      else if l = ''error'' then LevelError else LevelInfo)"

datatype outputFormat = JSONFormat | TextFormat

definition parseFormat :: "string \<Rightarrow> outputFormat" where
  "parseFormat format = (if toLower format = ''json'' then JSONFormat else TextFormat)"

section \<open>The ring buffer\<close>

record 'v logRecord =
  lr_Time :: gotime
  lr_Level :: int
  lr_Message :: string
  lr_Attrs :: "(string \<times> 'v) list"

record 'v logEntry =
  le_Time :: gotime
  le_Level :: string
  le_Message :: string
  le_Attrs :: "string \<rightharpoonup> 'v"

record 'v ringStorage =
  rs_entries :: "'v logEntry list"
  rs_capacity :: int

definition ringAdd :: "'v logEntry \<Rightarrow> 'v ringStorage \<Rightarrow> 'v ringStorage" where
  "ringAdd e s =
     (let es = rs_entries s @ [e] in
      s\<lparr>rs_entries := (if int (length es) > rs_capacity s then drop (length es - nat (rs_capacity s)) es else es)\<rparr>)"

definition ringSnapshot :: "'v ringStorage \<Rightarrow> 'v logEntry list" where
  "ringSnapshot s = rs_entries s"

datatype 'v derivation = WithAttrs "(string \<times> 'v) list" | WithGroup string

text \<open>
  The buffer, the level and format of the output handler, and the records it was given, each under
  the derivations of the logger that logged it.
\<close>

record 'v ringLog =
  rl_storage :: "'v ringStorage"
  rl_level :: int
  rl_format :: outputFormat
  rl_out :: "('v derivation list \<times> 'v logRecord) list"

definition newRingBufferHandler :: "int \<Rightarrow> outputFormat \<Rightarrow> int \<Rightarrow> 'v ringLog" where
  "newRingBufferHandler lvl format capacity =
     \<lparr>rl_storage = \<lparr>rs_entries = [], rs_capacity = capacity\<rparr>, rl_level = lvl, rl_format = format, rl_out = []\<rparr>"

definition newWithRingBuffer :: "string \<Rightarrow> string \<Rightarrow> int \<Rightarrow> 'v ringLog" where
  "newWithRingBuffer level format capacity =
     (let capacity = (if capacity \<le> 0 then 1 else capacity)
      in newRingBufferHandler (parseLevel level) (parseFormat format) capacity)"

definition newLogger :: "string \<Rightarrow> string \<Rightarrow> 'v ringLog" where
  "newLogger level format = newWithRingBuffer level format 0"

definition withAttrs :: "(string \<times> 'v) list \<Rightarrow> 'v derivation list \<Rightarrow> 'v derivation list" where
  "withAttrs attrs h = h @ [WithAttrs attrs]"

definition withGroup :: "string \<Rightarrow> 'v derivation list \<Rightarrow> 'v derivation list" where
  "withGroup name h = h @ [WithGroup name]"

definition ringEnabled :: "'v ringLog \<Rightarrow> int \<Rightarrow> bool" where
  "ringEnabled l level \<longleftrightarrow> rl_level l \<le> level"

definition attrsMap :: "(string \<times> 'v) list \<Rightarrow> string \<rightharpoonup> 'v" where
  "attrsMap attrs = fold (\<lambda>(k, v) m. m(k \<mapsto> v)) attrs Map.empty"

definition entryOf :: "'v logRecord \<Rightarrow> 'v logEntry" where
  "entryOf r = \<lparr>le_Time = lr_Time r, le_Level = levelString (lr_Level r), le_Message = lr_Message r,
     le_Attrs = attrsMap (lr_Attrs r)\<rparr>"

definition ringHandle :: "'v derivation list \<Rightarrow> 'v logRecord \<Rightarrow> 'v ringLog \<Rightarrow> 'v ringLog" where
  "ringHandle h r l = l\<lparr>rl_storage := ringAdd (entryOf r) (rl_storage l), rl_out := rl_out l @ [(h, r)]\<rparr>"

text \<open>A logging call: \<^verbatim>\<open>slog.Logger\<close> asks \<^verbatim>\<open>Enabled\<close> first.\<close>

definition logCall :: "'v derivation list \<times> 'v logRecord \<Rightarrow> 'v ringLog \<Rightarrow> 'v ringLog" where
  "logCall = (\<lambda>(h, r) l. if ringEnabled l (lr_Level r) then ringHandle h r l else l)"

definition ringEntries :: "'v ringLog \<Rightarrow> 'v logEntry list" where
  "ringEntries l = ringSnapshot (rl_storage l)"

lemmas ring_entry_simps = ringEntries_def ringSnapshot_def logCall_def ringEnabled_def ringHandle_def ringAdd_def
  newWithRingBuffer_def newRingBufferHandler_def Let_def parseLevel_def toLower_def lowerChar_def level_consts

section \<open>The buffer shows the last records\<close>

text \<open>The abstract log: every record that was enabled, in order.\<close>

definition logged :: "int \<Rightarrow> ('v derivation list \<times> 'v logRecord) list \<Rightarrow> ('v derivation list \<times> 'v logRecord) list" where
  "logged lvl calls = filter (\<lambda>(h, r). lvl \<le> lr_Level r) calls"

lemma logged_simps [simp]:
  "logged lvl [] = []"
  "logged lvl ((h, r) # calls) = (if lvl \<le> lr_Level r then (h, r) # logged lvl calls else logged lvl calls)"
  by (simp_all add: logged_def)

lemma ringAdd_keepLast:
  "0 \<le> rs_capacity s \<Longrightarrow> rs_entries (ringAdd e s) = keepLast (nat (rs_capacity s)) (rs_entries s @ [e])"
  by (auto simp: ringAdd_def keepLast_def Let_def)

lemma ringAdd_capacity [simp]: "rs_capacity (ringAdd e s) = rs_capacity s"
  by (simp add: ringAdd_def Let_def)

lemma logCalls_state:
  assumes "rl_level l = lvl" "0 \<le> rs_capacity (rl_storage l)"
    and "rs_entries (rl_storage l) = keepLast (nat (rs_capacity (rl_storage l))) es"
  shows "rs_entries (rl_storage (fold logCall calls l)) =
      keepLast (nat (rs_capacity (rl_storage l))) (es @ map (\<lambda>(h, r). entryOf r) (logged lvl calls)) \<and>
    rl_out (fold logCall calls l) = rl_out l @ logged lvl calls"
  using assms
proof (induction calls arbitrary: l es)
  case (Cons c calls)
  obtain h r where c: "c = (h, r)" by fastforce
  show ?case
  proof (cases "lvl \<le> lr_Level r")
    case True
    let ?l = "ringHandle h r l"
    have step: "logCall c l = ?l" using True Cons.prems(1) by (simp add: c logCall_def ringEnabled_def)
    have "rs_entries (rl_storage ?l) = keepLast (nat (rs_capacity (rl_storage l))) (es @ [entryOf r])"
      using Cons.prems(2,3) by (simp add: ringHandle_def ringAdd_keepLast keepLast_keepLast_append)
    with Cons.IH [of ?l "es @ [entryOf r]"] Cons.prems True step show ?thesis
      by (simp add: c ringHandle_def)
  next
    case False
    with Cons show ?thesis by (simp add: c logCall_def ringEnabled_def)
  qed
qed simp

lemma logEntries_keepLast:
  fixes calls :: "('v derivation list \<times> 'v logRecord) list"
  shows "ringEntries (fold logCall calls (newWithRingBuffer level format capacity)) =
     keepLast (nat (max 1 capacity)) (map (\<lambda>(h, r). entryOf r) (logged (parseLevel level) calls)) \<and>
   rl_out (fold logCall calls (newWithRingBuffer level format capacity)) = logged (parseLevel level) calls"
proof -
  let ?l = "newWithRingBuffer level format capacity :: 'v ringLog"
  have "rl_level ?l = parseLevel level" "rs_capacity (rl_storage ?l) = max 1 capacity"
    "rs_entries (rl_storage ?l) = []" "rl_out ?l = []"
    by (simp_all add: newWithRingBuffer_def newRingBufferHandler_def Let_def)
  then show ?thesis
    using logCalls_state [of ?l "parseLevel level" "[]" calls] by (simp add: ringEntries_def ringSnapshot_def keepLast_def)
qed

text \<open>
  C37: the log page's buffer implements the log. After any sequence of logging calls, through the
  logger itself and any loggers derived from it, the entries are the last \<open>capacity\<close> records
  at or above the configured level (one record when \<open>capacity\<close> is not positive), oldest
  first, each with its own time, level, message and attributes; and the output received every
  such record, with its derivations, in the same order.
\<close>

theorem ring_shows_last_records:
  "ringEntries (fold logCall calls (newWithRingBuffer level format capacity)) =
     keepLast (nat (max 1 capacity)) (map (\<lambda>(h, r). entryOf r) (logged (parseLevel level) calls)) \<and>
   rl_out (fold logCall calls (newWithRingBuffer level format capacity)) = logged (parseLevel level) calls"
  by (rule logEntries_keepLast)

text \<open>
  Two consequences that the comments of \<^verbatim>\<open>logger.go\<close> and \<^verbatim>\<open>ringbuffer.go\<close> do not say: a
  capacity of zero keeps one entry instead of none, and the attributes of a derived logger reach the
  output but not the entries.
\<close>

lemma capacity_zero_keeps_one:
  "ringEntries (fold logCall [([], \<lparr>lr_Time = 1, lr_Level = 0, lr_Message = ''up'', lr_Attrs = []\<rparr>)]
     (newWithRingBuffer ''info'' ''text'' 0)) \<noteq> []"
  by (simp add: ring_entry_simps)

lemma derived_attrs_not_captured:
  "ringEntries (fold logCall [(withAttrs as h, r)] (newWithRingBuffer level format capacity)) =
     ringEntries (fold logCall [(h, r)] (newWithRingBuffer level format capacity))"
  by (simp add: ring_entry_simps)

end
