(* ===== verification/StatusApi.thy ===== *)
theory StatusApi
  imports Api NetConfig TimeService Storage Capacity Logger ModbusClients
begin

text \<open>
  The reporting part of the HTTP interface, \<^verbatim>\<open>src/internal/api\<close>: the store-and-forward panel
  (\<^verbatim>\<open>storeforward.go\<close>), diagnostics, dashboard counts, log page, time panel, system information
  (with \<^verbatim>\<open>src/internal/system\<close>), and the two actions that talk to a device on request
  (\<^verbatim>\<open>test.go\<close>).

  A component that may be absent (a nil pointer in \<^verbatim>\<open>Server\<close>) is an option. What the gopsutil
  and serial libraries report, the transport a client specification is opened with, and which
  database calls fail are arguments.

  The results: an on-demand read of a data point reports exactly the value and quality that the
  poller's reading of the same registers has, for every answer of the expected length and every
  error; the panels agree with the components they show.
\<close>

datatype 'a httpReply = OK200 'a | HttpFailed int apiError

section \<open>Panels\<close>

record storeForwardStatusDTO =
  sf_Enabled :: bool
  sf_StreamID :: string
  sf_PendingReadings :: int
  sf_PendingChunks :: int
  sf_BufferedReadings :: int
  sf_OldestPending :: "gotime option"
  sf_NewestPending :: "gotime option"
  sf_QueueBytes :: int
  sf_MaxBytes :: int
  sf_EvictedReadings :: int
  sf_DroppedReadings :: int
  sf_WriteRatePerSec :: float64
  sf_AvgBytesPerReading :: float64
  sf_StorageUsedPercent :: "float64 option"
  sf_StorageLevel :: string
  sf_ServerConnected :: bool
  sf_ServerLastError :: string
  sf_ServerLastSentAt :: "gotime option"

definition storageLevelString :: "storageLevel \<Rightarrow> string" where
  "storageLevelString l =
     (case l of StorageNormal \<Rightarrow> ''NORMAL'' | StorageWarning \<Rightarrow> ''WARNING'' | StorageCritical \<Rightarrow> ''CRITICAL''
      | StorageFull \<Rightarrow> ''FULL'')"

definition emptyStoreForward :: "int \<Rightarrow> storeForwardStatusDTO" where
  "emptyStoreForward maxBytes =
     \<lparr>sf_Enabled = False, sf_StreamID = [], sf_PendingReadings = 0, sf_PendingChunks = 0, sf_BufferedReadings = 0,
      sf_OldestPending = None, sf_NewestPending = None, sf_QueueBytes = 0, sf_MaxBytes = maxBytes,
      sf_EvictedReadings = 0, sf_DroppedReadings = 0, sf_WriteRatePerSec = 0, sf_AvgBytesPerReading = 0,
      sf_StorageUsedPercent = None, sf_StorageLevel = [], sf_ServerConnected = False, sf_ServerLastError = [],
      sf_ServerLastSentAt = None\<rparr>"

definition withQueueStats :: "queue_stats \<Rightarrow> storeForwardStatusDTO \<Rightarrow> storeForwardStatusDTO" where
  "withQueueStats st dto =
     dto\<lparr>sf_Enabled := True, sf_StreamID := qs_StreamID st, sf_PendingReadings := qs_PendingReadings st,
        sf_PendingChunks := qs_PendingChunks st, sf_BufferedReadings := qs_BufferedReadings st,
        sf_OldestPending := qs_OldestPending st, sf_NewestPending := qs_NewestPending st,
        sf_QueueBytes := qs_DBBytes st, sf_MaxBytes := qs_MaxBytes st, sf_EvictedReadings := qs_EvictedReadings st,
        sf_DroppedReadings := qs_DroppedReadings st, sf_WriteRatePerSec := qs_WriteRatePerSec st,
        sf_AvgBytesPerReading := qs_AvgBytesPerReading st\<rparr>"

definition getStoreForwardStatus :: "(string \<Rightarrow> 'e + usageStat) \<Rightarrow> config \<Rightarrow> store option \<Rightarrow> fwd_status option \<Rightarrow>
    storeForwardStatusDTO httpReply" where
  "getStoreForwardStatus usage cfg queue fwd =
     (let dto = emptyStoreForward (qc_MaxBytes (cf_Queue cfg));
          dto = (case queue of None \<Rightarrow> dto | Some q \<Rightarrow> withQueueStats (stats q) dto);
          dto = (case diskUsagePercent usage (qc_Path (cf_Queue cfg)) of
                   Inl err \<Rightarrow> dto
                 | Inr pct \<Rightarrow> dto\<lparr>sf_StorageUsedPercent := Some pct,
                     sf_StorageLevel := storageLevelString (classifyStorageLevel pct
                       (f64_sub (f64_of_int 100) (qc_MinFreePercent (cf_Queue cfg))))\<rparr>);
          dto = (case fwd of None \<Rightarrow> dto
                 | Some st \<Rightarrow> dto\<lparr>sf_ServerConnected := fs_Connected st, sf_ServerLastError := fs_LastError st,
                     sf_ServerLastSentAt := fs_LastSuccessAt st\<rparr>)
      in OK200 dto)"

definition getStoreForwardStatistics :: "(string \<Rightarrow> 'e + usageStat) \<Rightarrow> config \<Rightarrow> store option \<Rightarrow> fwd_status option \<Rightarrow>
    storeForwardStatusDTO httpReply" where
  "getStoreForwardStatistics = getStoreForwardStatus"

definition queueWriteRatePerSec :: "store option \<Rightarrow> float64" where
  "queueWriteRatePerSec queue = (case queue of None \<Rightarrow> 0 | Some q \<Rightarrow> qs_WriteRatePerSec (stats q))"

record diagnosticsDTO =
  di_ModbusTX :: int
  di_ModbusRX :: int
  di_AvgResponseTimeMs :: float64
  di_TimeoutCount :: int
  di_CRCErrorCount :: int
  di_RetryCount :: int
  di_WriteRatePerSec :: float64

definition getDiagnostics :: "diagStore option \<Rightarrow> store option \<Rightarrow> diagnosticsDTO httpReply" where
  "getDiagnostics diag queue =
     (let dto = \<lparr>di_ModbusTX = 0, di_ModbusRX = 0, di_AvgResponseTimeMs = 0, di_TimeoutCount = 0,
            di_CRCErrorCount = 0, di_RetryCount = 0, di_WriteRatePerSec = 0\<rparr>;
          dto = (case diag of None \<Rightarrow> dto
                 | Some d \<Rightarrow> let snap = diagSnapshotOf d in
                     dto\<lparr>di_ModbusTX := sn_TXCount snap, di_ModbusRX := sn_RXCount snap,
                       di_AvgResponseTimeMs := sn_AvgResponseTimeMs snap, di_TimeoutCount := sn_TimeoutCount snap,
                       di_CRCErrorCount := sn_CRCErrorCount snap, di_RetryCount := sn_RetryCount snap\<rparr>)
      in OK200 (dto\<lparr>di_WriteRatePerSec := queueWriteRatePerSec queue\<rparr>))"

record dashboardSummaryDTO =
  ds_DeviceCount :: int
  ds_EnabledDeviceCount :: int
  ds_DataPointCount :: int

text \<open>\<open>ioDev\<close> and \<open>ioDp\<close> say whether the two counting queries succeed.\<close>

definition getDashboardSummary :: "bool \<Rightarrow> bool \<Rightarrow> confdb \<Rightarrow> dashboardSummaryDTO httpReply" where
  "getDashboardSummary ioDev ioDp db =
     (if \<not> ioDev then HttpFailed 500 (RepoFailed ErrSql)
      else case dvCount db of
        (devices, enabled) \<Rightarrow>
          (if \<not> ioDp then HttpFailed 500 (RepoFailed ErrSql)
           else OK200 \<lparr>ds_DeviceCount = devices, ds_EnabledDeviceCount = enabled, ds_DataPointCount = dpCountAll db\<rparr>))"

section \<open>The log page\<close>

text \<open>\<^verbatim>\<open>strconv.Atoi\<close> where its error matters: syntax, or a value outside 64 bits.\<close>

definition atoiOk :: "string \<Rightarrow> int option" where
  "atoiOk s =
     (let neg = (take 1 s = ''-''); body = (if take 1 s = ''-'' \<or> take 1 s = ''+'' then drop 1 s else s)
      in if body = [] then None
         else case digits body 0 of
                None \<Rightarrow> None
              | Some n \<Rightarrow> let v = (if neg then - int n else int n) in
                  if - (2 ^ 63) \<le> v \<and> v < 2 ^ 63 then Some v else None)"

definition logLimit :: "string \<Rightarrow> int" where
  "logLimit query = (case atoiOk query of Some n \<Rightarrow> (if n > 0 then n else 200) | None \<Rightarrow> 200)"

definition getLogs :: "'v ringLog option \<Rightarrow> string \<Rightarrow> 'v logEntry list httpReply" where
  "getLogs logBuf query =
     (case logBuf of
        None \<Rightarrow> OK200 []
      | Some l \<Rightarrow>
          (let entries = ringEntries l; limit = logLimit query
           in OK200 (if int (length entries) > limit then drop (length entries - nat limit) entries else entries)))"


section \<open>Tests on request\<close>

datatype testError = NoTestError | BuildFailed string | TransportFailed go_error | DecodeFailed decode_err

record testConnectionResult =
  tc_Quality :: string
  tc_Error :: testError

record testReadResult =
  tr_Tag :: string
  tr_Value :: "float64 option"
  tr_Unit :: string
  tr_Quality :: string
  tr_Error :: testError

text \<open>
  \<open>newClient\<close> stands for \<^verbatim>\<open>NewTCPClient\<close> and \<^verbatim>\<open>NewRTUClient\<close> over the library:
  the operations of the client and the state they start from. The state after the handler, if a
  client was built, is returned with the reply.
\<close>

definition testDeviceConnection :: "(clientSpec \<Rightarrow> 's modbus_client \<times> 's) \<Rightarrow> bool \<Rightarrow> bool \<Rightarrow> string + int \<Rightarrow> confdb \<Rightarrow>
    testConnectionResult httpReply \<times> 's option" where
  "testDeviceConnection newClient ioDev ioConn path db =
     (case path of
        Inl e \<Rightarrow> (HttpFailed 400 (InvalidID e), None)
      | Inr i \<Rightarrow>
     (case dvGet ioDev i db of
        Inl e \<Rightarrow> (HttpFailed (repoStatus e) (RepoFailed e), None)
      | Inr d \<Rightarrow>
     (case cnGet ioConn (dv_ConnectionID d) db of
        Inl e \<Rightarrow> (HttpFailed (repoStatus e) (RepoFailed e), None)
      | Inr conn \<Rightarrow>
     (case buildClient conn of
        Inl e \<Rightarrow> (OK200 \<lparr>tc_Quality = qualityString Invalid, tc_Error = BuildFailed e\<rparr>, None)
      | Inr spec \<Rightarrow>
          (case newClient spec of
             (c, s) \<Rightarrow>
               (case cl_Connect c (cl_SetUnitID c (word_of_int (dv_SlaveID d)) s) of
                  (connErr, s) \<Rightarrow>
                    (OK200 \<lparr>tc_Quality = qualityString (qualityFromError connErr),
                       tc_Error = (case connErr of None \<Rightarrow> NoTestError | Some e \<Rightarrow> TransportFailed e)\<rparr>,
                     Some (cl_Close c s))))))))"

text \<open>The read itself, once the client is connected, and what it makes of the outcome.\<close>

definition testOutcome :: "dataPoint \<Rightarrow> go_error option + byte list \<Rightarrow> testReadResult \<Rightarrow> testReadResult" where
  "testOutcome dp res result =
     (case res of
        Inl (Some err) \<Rightarrow> result\<lparr>tr_Quality := qualityString (qualityFromError (Some err)), tr_Error := TransportFailed err\<rparr>
      | _ \<Rightarrow>
          (let raw = (case res of Inr raw \<Rightarrow> raw | Inl _ \<Rightarrow> []) in
           case decode raw (dp_DataType dp) (dp_ByteOrder dp) of
             Inl e \<Rightarrow> result\<lparr>tr_Quality := qualityString Invalid, tr_Error := DecodeFailed e\<rparr>
           | Inr decoded \<Rightarrow>
               result\<lparr>tr_Value := Some (applyScale decoded (dp_Scale dp) (dp_Offset dp)), tr_Quality := qualityString Good\<rparr>))"

definition testConnected :: "'s modbus_client \<Rightarrow> (nat \<Rightarrow> go_error option) \<Rightarrow> connection \<Rightarrow> dataPoint \<Rightarrow> testReadResult \<Rightarrow> 's \<Rightarrow>
    testReadResult \<times> 's" where
  "testConnected c ctxErr conn dp result s =
     (case registerCount (dp_DataType dp) of
        Inl e \<Rightarrow> (result\<lparr>tr_Quality := qualityString Invalid, tr_Error := DecodeFailed e\<rparr>, s)
      | Inr qty \<Rightarrow>
          (case readWithRetry c ctxErr (functionCodeOf (dp_FunctionCode dp)) (dp_RegisterAddress dp) qty (cn_Retry conn) s of
             (res, attempts, s) \<Rightarrow> (testOutcome dp res result, s)))"

definition testDataPointRead :: "(clientSpec \<Rightarrow> 's modbus_client \<times> 's) \<Rightarrow> (nat \<Rightarrow> go_error option) \<Rightarrow> bool \<Rightarrow> bool \<Rightarrow> bool \<Rightarrow>
    string + int \<Rightarrow> confdb \<Rightarrow> testReadResult httpReply \<times> 's option" where
  "testDataPointRead newClient ctxErr ioDp ioDev ioConn path db =
     (case path of
        Inl e \<Rightarrow> (HttpFailed 400 (InvalidID e), None)
      | Inr i \<Rightarrow>
     (case dpGet ioDp i db of
        Inl e \<Rightarrow> (HttpFailed (repoStatus e) (RepoFailed e), None)
      | Inr dp \<Rightarrow>
     (case dvGet ioDev (dp_DeviceID dp) db of
        Inl e \<Rightarrow> (HttpFailed (repoStatus e) (RepoFailed e), None)
      | Inr d \<Rightarrow>
     (case cnGet ioConn (dv_ConnectionID d) db of
        Inl e \<Rightarrow> (HttpFailed (repoStatus e) (RepoFailed e), None)
      | Inr conn \<Rightarrow>
          (let result = \<lparr>tr_Tag = dp_TagName dp, tr_Value = None, tr_Unit = dp_Unit dp, tr_Quality = [],
                  tr_Error = NoTestError\<rparr> in
           case buildClient conn of
             Inl e \<Rightarrow> (OK200 (result\<lparr>tr_Quality := qualityString Invalid, tr_Error := BuildFailed e\<rparr>), None)
           | Inr spec \<Rightarrow>
               (case newClient spec of
                  (c, s) \<Rightarrow>
                    (case cl_Connect c (cl_SetUnitID c (word_of_int (dv_SlaveID d)) s) of
                       (Some err, s) \<Rightarrow>
                         (OK200 (result\<lparr>tr_Quality := qualityString (qualityFromError (Some err)),
                            tr_Error := TransportFailed err\<rparr>), Some s)
                     | (None, s) \<Rightarrow>
                         (case testConnected c ctxErr conn dp result s of
                            (result, s) \<Rightarrow> (OK200 result, Some (cl_Close c s))))))))))"

section \<open>Time and system panels\<close>

record timeDTO =
  td_SystemTime :: gotime
  td_Timezone :: string
  td_NTPServer :: string
  td_NTPStatus :: bool
  td_LastSync :: "gotime option"
  td_ClockOffsetMs :: "float64 option"
  td_RTCStatus :: bool
  td_RTCTime :: "gotime option"
  td_TimeQuality :: timeQuality

definition getTime :: "config \<Rightarrow> timeStatus option \<Rightarrow> string \<Rightarrow> gotime \<Rightarrow> timeDTO httpReply" where
  "getTime cfg svc timezone now =
     (case svc of
        None \<Rightarrow> OK200 \<lparr>td_SystemTime = now, td_Timezone = tm_Timezone (cf_Time cfg), td_NTPServer = [],
           td_NTPStatus = False, td_LastSync = None, td_ClockOffsetMs = None, td_RTCStatus = False, td_RTCTime = None,
           td_TimeQuality = QualityUnsynced\<rparr>
      | Some st \<Rightarrow> OK200 \<lparr>td_SystemTime = now, td_Timezone = timezone, td_NTPServer = ts_NTPServer st,
           td_NTPStatus = ts_NTPSynced st, td_LastSync = ts_LastSync st,
           td_ClockOffsetMs = map_option (\<lambda>d. f64_div (f64_of_int d) (f64_of_int nanosPerMilli)) (ts_ClockOffset st),
           td_RTCStatus = ts_RTCAvailable st, td_RTCTime = ts_RTCTime st, td_TimeQuality = ts_TimeQuality st\<rparr>)"

text \<open>What the operating system reports, each part possibly failing (\<open>None\<close>).\<close>

record memStat =
  vm_Total :: uint64
  vm_Used :: uint64
  vm_UsedPercent :: float64

record duStat =
  du_Total :: uint64
  du_Used :: uint64
  du_UsedPercent :: float64

record hostSample =
  hs_uptimeSec :: float64
  hs_goVersion :: string
  hs_goroutines :: int
  hs_numCPU :: int
  hs_cpu :: "float64 list option"
  hs_mem :: "memStat option"
  hs_disk :: "string \<Rightarrow> duStat option"
  hs_fileSize :: "string \<Rightarrow> int option"
  hs_net :: "(uint64 \<times> uint64) list option"

record systemInfo =
  sy_Status :: string
  sy_UptimeSec :: float64
  sy_GoVersion :: string
  sy_Goroutines :: int
  sy_NumCPU :: int
  sy_CPUPercent :: "float64 option"
  sy_MemUsedPct :: "float64 option"
  sy_MemTotalMB :: "float64 option"
  sy_MemUsedMB :: "float64 option"
  sy_DiskUsedPct :: "float64 option"
  sy_DiskTotalGB :: "float64 option"
  sy_DiskUsedGB :: "float64 option"
  sy_NetBytesSent :: "uint64 option"
  sy_NetBytesRecv :: "uint64 option"
  sy_DBSizeBytes :: "int option"

definition inUnits :: "int \<Rightarrow> uint64 \<Rightarrow> float64" where
  "inUnits unit n = f64_div (f64_of_int (uint n)) (f64_of_int unit)"

text \<open>The sizes of the database file and its two companions that exist, summed.\<close>

definition dbFileSizes :: "(string \<Rightarrow> int option) \<Rightarrow> string \<Rightarrow> int list" where
  "dbFileSizes fileSize path = List.map_filter (\<lambda>suffix. fileSize (path @ suffix)) [[], ''-wal'', ''-shm'']"

definition systemCurrent :: "hostSample \<Rightarrow> string \<Rightarrow> systemInfo" where
  "systemCurrent h diskPath =
     (let du = (if diskPath = [] then None else hs_disk h diskPath);
          sizes = (if diskPath = [] then [] else dbFileSizes (hs_fileSize h) diskPath)
      in \<lparr>sy_Status = ''ok'', sy_UptimeSec = hs_uptimeSec h, sy_GoVersion = hs_goVersion h,
          sy_Goroutines = hs_goroutines h, sy_NumCPU = hs_numCPU h,
          sy_CPUPercent = (case hs_cpu h of Some (pct # _) \<Rightarrow> Some pct | _ \<Rightarrow> None),
          sy_MemUsedPct = map_option vm_UsedPercent (hs_mem h),
          sy_MemTotalMB = map_option (\<lambda>vm. inUnits (1024 * 1024) (vm_Total vm)) (hs_mem h),
          sy_MemUsedMB = map_option (\<lambda>vm. inUnits (1024 * 1024) (vm_Used vm)) (hs_mem h),
          sy_DiskUsedPct = map_option du_UsedPercent du,
          sy_DiskTotalGB = map_option (\<lambda>d. inUnits (1024 * 1024 * 1024) (du_Total d)) du,
          sy_DiskUsedGB = map_option (\<lambda>d. inUnits (1024 * 1024 * 1024) (du_Used d)) du,
          sy_NetBytesSent = (case hs_net h of Some ((sent, recv) # _) \<Rightarrow> Some sent | _ \<Rightarrow> None),
          sy_NetBytesRecv = (case hs_net h of Some ((sent, recv) # _) \<Rightarrow> Some recv | _ \<Rightarrow> None),
          sy_DBSizeBytes = (if sizes = [] then None else Some (sum_list sizes))\<rparr>)"

definition getSystem :: "hostSample \<Rightarrow> config \<Rightarrow> systemInfo httpReply" where
  "getSystem h cfg = OK200 (systemCurrent h (cf_DatabasePath cfg))"

text \<open>The port list of the serial library: an error, or the ports (nil becomes the empty list).\<close>

definition listSerialPorts :: "'e + string list option \<Rightarrow> 'e + string list" where
  "listSerialPorts ports = map_sum id (case_option [] id) ports"

definition getSerialPorts :: "string + string list option \<Rightarrow> string list httpReply" where
  "getSerialPorts ports =
     (case listSerialPorts ports of Inl e \<Rightarrow> HttpFailed 500 (InvalidEntity e) | Inr ps \<Rightarrow> OK200 ps)"


section \<open>A test read is a poll\<close>

text \<open>The first attempt decides, unless it fails with the context still alive and a retry left.\<close>

lemma retryFirst:
  assumes "0 \<le> n" "n = 0 \<or> ctxErr 0 \<noteq> None \<or> (\<exists>raw s'. cl_Read c fc a q s = (Inr raw, s'))"
  shows "readWithRetry c ctxErr fc a q n s =
     (case cl_Read c fc a q s of
        (Inr raw, s) \<Rightarrow> (Inr raw, 1, s)
      | (Inl e, s) \<Rightarrow> (Inl (Some (case ctxErr 0 of Some ce \<Rightarrow> ce | None \<Rightarrow> e)), 1, s))"
proof -
  have "nat (n + 1) = Suc (nat n)" using assms(1) by simp
  with assms(2) show ?thesis
    by (auto simp: readWithRetry_def Let_def split: prod.splits sum.splits option.splits)
qed

lemma retryOnce:
  "readWithRetry c ctxErr fc a q 0 s =
     (case cl_Read c fc a q s of
        (Inr raw, s) \<Rightarrow> (Inr raw, 1, s)
      | (Inl e, s) \<Rightarrow> (Inl (Some (case ctxErr 0 of Some ce \<Rightarrow> ce | None \<Rightarrow> e)), 1, s))"
  by (rule retryFirst) simp_all

lemma registerCount_width:
  "registerCount dt = Inr qty \<Longrightarrow> byteWidth dt = Inr (2 * unat qty)"
  by (auto simp: registerCount_def byteWidth_def split: if_splits)

text \<open>
  C12: \<^verbatim>\<open>Test Read\<close> shows what the poller records, as long as it does not retry. Take a data point
  of a known type, and let either no retries be configured on its connection, or the first attempt
  succeed, or the context be done after it; and let an answer have the length that was asked for. Then,
  whatever the device answers and whatever error the transport or the context gives, the value and
  the quality in the reply are those of the one reading that the poller emits for a block of just
  this data point, and the client is left in the same state.
\<close>

theorem test_read_matches_poller:
  assumes "registerCount (dp_DataType dp) = Inr qty" "0 \<le> cn_Retry conn"
    and "cn_Retry conn = 0 \<or> ctxErr 0 \<noteq> None \<or>
      (\<exists>raw s'. cl_Read c (functionCodeOf (dp_FunctionCode dp)) (dp_RegisterAddress dp) qty s = (Inr raw, s'))"
    and "\<And>raw s'. cl_Read c (functionCodeOf (dp_FunctionCode dp)) (dp_RegisterAddress dp) qty s = (Inr raw, s') \<Longrightarrow>
      length raw = 2 * unat qty"
    and "ps_client p = s" "tr_Value result = None"
  shows "\<exists>rd. ps_out (readOneBlock c (\<lambda>_. ctxErr) dur d t (singleBlock (dp_FunctionCode dp) qty dp) p) = ps_out p @ [rd] \<and>
     tr_Value (fst (testConnected c ctxErr conn dp result s)) = aq_Value rd \<and>
     tr_Quality (fst (testConnected c ctxErr conn dp result s)) = qualityString (aq_Quality rd) \<and>
     snd (testConnected c ctxErr conn dp result s) =
       ps_client (readOneBlock c (\<lambda>_. ctxErr) dur d t (singleBlock (dp_FunctionCode dp) qty dp) p)"
proof -
  let ?fc = "functionCodeOf (dp_FunctionCode dp)" and ?a = "dp_RegisterAddress dp"
  obtain res s' where r: "cl_Read c ?fc ?a qty s = (res, s')" by fastforce
  have w: "byteWidth (dp_DataType dp) = Inr (2 * unat qty)" by (rule registerCount_width [OF assms(1)])
  note first = retryFirst [of "cn_Retry conn" ctxErr, OF assms(2,3)]
  show ?thesis
  proof (cases res)
    case (Inl e)
    then show ?thesis
      using r first assms(1,5,6) by (simp add: testConnected_def retryOnce testOutcome_def readOneBlock_def
          singleBlock_def badReading_def Let_def)
  next
    case (Inr raw)
    then have len: "length raw = 2 * unat qty" using assms(4) r by simp
    with Inr r w first assms(1,5,6) show ?thesis
      by (cases "decode raw (dp_DataType dp) (dp_ByteOrder dp)")
        (simp_all add: testConnected_def retryOnce testOutcome_def readOneBlock_def singleBlock_def
          badReading_def decodeAndEmit_def Let_def)
  qed
qed

text \<open>
  With retries configured the two differ: when the first attempt fails and the second, after a
  reconnect, succeeds, \<^verbatim>\<open>Test Read\<close> replies with a good value (\<^verbatim>\<open>test.go\<close> passes \<^verbatim>\<open>conn.Retry\<close>),
  while the poller (which passes 0) emits a reading with the quality of the error.
\<close>

lemma test_read_retries_poller_does_not:
  assumes "registerCount (dp_DataType dp) = Inr qty" "1 \<le> cn_Retry conn" "ctxErr 0 = None"
    and "cl_Read c (functionCodeOf (dp_FunctionCode dp)) (dp_RegisterAddress dp) qty s = (Inl e, s1)"
    and "cl_Connect c (cl_Close c s1) = (None, s2)"
    and "cl_Read c (functionCodeOf (dp_FunctionCode dp)) (dp_RegisterAddress dp) qty s2 = (Inr raw, s3)"
    and "decode raw (dp_DataType dp) (dp_ByteOrder dp) = Inr v" "ps_client p = s"
  shows "tr_Quality (fst (testConnected c ctxErr conn dp result s)) = qualityString Good \<and>
    tr_Value (fst (testConnected c ctxErr conn dp result s)) = Some (applyScale v (dp_Scale dp) (dp_Offset dp)) \<and>
    ps_out (readOneBlock c (\<lambda>_. ctxErr) dur d t (singleBlock (dp_FunctionCode dp) qty dp) p) =
      ps_out p @ [badReading d dp t (qualityFromError (Some e))]"
proof -
  have "nat (cn_Retry conn + 1) = Suc (Suc (nat (cn_Retry conn - 1)))" using assms(2) by simp
  with assms show ?thesis
    by (simp add: testConnected_def readWithRetry_def retryOnce testOutcome_def readOneBlock_def singleBlock_def Let_def)
qed

text \<open>A client that answers every read of one register with the bytes of 7.\<close>

definition sevenClient :: "unit modbus_client" where
  "sevenClient = \<lparr>cl_Connect = (\<lambda>s. (None, s)), cl_Close = (\<lambda>s. s), cl_SetUnitID = (\<lambda>u s. s),
     cl_Read = (\<lambda>fc a q s. (Inr (concat (replicate (unat q) [0, 7])), s))\<rparr>"

definition idlePoll :: "unit poll_state" where
  "idlePoll = \<lparr>ps_client = (), ps_diag = newDiag, ps_out = [], ps_readCount = 0, ps_blockReads = 0, ps_cycles = []\<rparr>"

definition blankResult :: testReadResult where
  "blankResult = \<lparr>tr_Tag = ''temp'', tr_Value = None, tr_Unit = ''C'', tr_Quality = [], tr_Error = NoTestError\<rparr>"

theorem test_read_matches_poller_witness:
  "\<exists>rd. ps_out (readOneBlock sevenClient (\<lambda>_ _. None) (\<lambda>_. 0) sampleDevice 5 (singleBlock 4 1 samplePoint) idlePoll) = [rd] \<and>
     tr_Value (fst (testConnected sevenClient (\<lambda>_. None) (sampleConnection\<lparr>cn_Retry := 3\<rparr>) samplePoint blankResult ())) =
       aq_Value rd"
  using test_read_matches_poller [of samplePoint 1 "sampleConnection\<lparr>cn_Retry := 3\<rparr>" "\<lambda>_. None" sevenClient "()"
      idlePoll blankResult "\<lambda>_. 0" sampleDevice 5]
  by (auto simp: samplePoint_def registerCount_def byteWidth_def sevenClient_def idlePoll_def blankResult_def)

section \<open>Panels agree with their components\<close>

lemma dashboard_counts:
  "getDashboardSummary True True db = OK200 \<lparr>ds_DeviceCount = int (length (dvList db)),
     ds_EnabledDeviceCount = int (length (dvListEnabled db)), ds_DataPointCount = int (length (cf_datapoint db))\<rparr>"
  by (simp add: getDashboardSummary_def dvCount_def dvList_def dvListEnabled_def dpCountAll_def)

lemma getLogs_last:
  assumes "0 < capacity"
  shows "getLogs (Some (fold logCall calls (newWithRingBuffer level format capacity))) query =
    OK200 (keepLast (nat (min (logLimit query) capacity)) (map (\<lambda>(h, r). entryOf r) (logged (parseLevel level) calls)))"
proof -
  let ?l = "fold logCall calls (newWithRingBuffer level format capacity)"
  have "0 < logLimit query" by (simp add: logLimit_def split: option.splits)
  then have "getLogs (Some ?l) query = OK200 (keepLast (nat (logLimit query)) (ringEntries ?l))"
    by (auto simp: getLogs_def Let_def keepLast_def)
  then show ?thesis
    using logEntries_keepLast [of calls level format capacity] assms
    by (simp add: keepLast_keepLast min_def nat_le_eq_zle)
qed

text \<open>
  With the default of ten percent kept free, or more, the panel never says \<^verbatim>\<open>CRITICAL\<close>: usage
  that would be critical is already reported as full.
\<close>

lemma critical_unreachable:
  "f64_le fullPercent (f64_of_int 90) \<Longrightarrow> classifyStorageLevel pct fullPercent \<noteq> StorageCritical"
  by (auto simp: classifyStorageLevel_def f64_le_def)

end
