(* ===== verification/Influx.thy ===== *)
theory Influx
  imports ServerDemo Acquisition
begin

text \<open>
  The InfluxDB writer of the receiving side, \<^verbatim>\<open>src/cmd/server-demo/influx.go\<close>: the line
  protocol it renders, the requests it makes, and the bucket it keeps in place.

  Three things are arguments: \<^verbatim>\<open>time.Parse\<close> (\<open>parseTime\<close>), the shortest decimal form of
  a float that \<^verbatim>\<open>strconv.FormatFloat\<close> gives (\<open>fmt\<close>), used through the characters it
  consists of, and the HTTP exchange with InfluxDB.

  The line protocol is given a meaning by a reader, \<open>parseLine\<close>, which follows its published
  grammar: backslash escapes in keys and tag values, quoted string fields. The results: reading back
  what the writer renders gives one point per reading with the reading's own tags, fields and time,
  for every gateway id without backslashes and line breaks; with a backslash or a line break in it a
  gateway id changes what is stored; \<^verbatim>\<open>ensureBucket\<close> succeeds only when InfluxDB has accepted the bucket with
  its retention.
\<close>

section \<open>Escaping\<close>

definition backslash :: char where "backslash = CHR 0x5C"
definition quote :: char where "quote = CHR 0x22"
definition newline :: char where "newline = CHR 0x0A"
definition carriage :: char where "carriage = CHR 0x0D"

definition tagSpecial :: "char \<Rightarrow> bool" where
  "tagSpecial c \<longleftrightarrow> c = CHR '','' \<or> c = CHR ''='' \<or> c = CHR '' ''"

definition escapeTag :: "string \<Rightarrow> string" where
  "escapeTag s = concat (map (\<lambda>c. if tagSpecial c then [backslash, c] else [c]) s)"

definition escapeFieldString :: "string \<Rightarrow> string" where
  "escapeFieldString s =
     concat (map (\<lambda>c. if c = backslash \<or> c = quote then [backslash, c]
                       else if c = newline \<or> c = carriage then '' '' else [c]) s)"

lemmas char_consts = backslash_def quote_def newline_def carriage_def

section \<open>Lines\<close>

definition readingLine :: "(float64 \<Rightarrow> string) \<Rightarrow> string \<Rightarrow> string \<Rightarrow> int \<Rightarrow> wireReading \<Rightarrow> gotime \<Rightarrow> string" where
  "readingLine fmt gwTag stream seq r ts =
     ''reading,gateway_id='' @ gwTag @ '',device_id='' @ decimal (sint (wr_DeviceID r)) @
     '',datapoint_id='' @ decimal (sint (wr_DatapointID r)) @ '' '' @
     (case wr_Value r of None \<Rightarrow> [] | Some v \<Rightarrow> ''value='' @ fmt v @ '','') @
     ''quality='' @ [quote] @ escapeFieldString (wr_Quality r) @ [quote] @ '',seq='' @ decimal seq @
     ''i,stream_id='' @ [quote] @ stream @ [quote] @ '' '' @ decimal (sint (toUnixMilli ts)) @ [newline]"

datatype influxErr = BadTimestamp int string | RequestFailed string | Status int string | DecodeError string
  | OrgNotFound string

fun readingLines :: "(string \<Rightarrow> gotime option) \<Rightarrow> (float64 \<Rightarrow> string) \<Rightarrow> string \<Rightarrow> string \<Rightarrow> int \<Rightarrow> wireReading list \<Rightarrow>
    influxErr + string" where
  "readingLines parseTime fmt gwTag stream seq [] = Inr []"
| "readingLines parseTime fmt gwTag stream seq (r # rs) =
     (case parseTime (wr_Timestamp r) of
        None \<Rightarrow> Inl (BadTimestamp seq (wr_Timestamp r))
      | Some ts \<Rightarrow>
          (case readingLines parseTime fmt gwTag stream seq rs of
             Inl e \<Rightarrow> Inl e
           | Inr body \<Rightarrow> Inr (readingLine fmt gwTag stream seq r ts @ body)))"

fun chunkLines :: "(string \<Rightarrow> gotime option) \<Rightarrow> (float64 \<Rightarrow> string) \<Rightarrow> string \<Rightarrow> string \<Rightarrow> wireChunk list \<Rightarrow>
    influxErr + string" where
  "chunkLines parseTime fmt gwTag stream [] = Inr []"
| "chunkLines parseTime fmt gwTag stream (c # cs) =
     (case readingLines parseTime fmt gwTag stream (wc_Seq c) (wc_Readings c) of
        Inl e \<Rightarrow> Inl e
      | Inr body \<Rightarrow>
          (case chunkLines parseTime fmt gwTag stream cs of
             Inl e \<Rightarrow> Inl e
           | Inr rest \<Rightarrow> Inr (body @ rest)))"

definition lineProtocol :: "(string \<Rightarrow> gotime option) \<Rightarrow> (float64 \<Rightarrow> string) \<Rightarrow> string \<Rightarrow> string \<Rightarrow> wireChunk list \<Rightarrow>
    influxErr + string" where
  "lineProtocol parseTime fmt gatewayID streamID chunks =
     chunkLines parseTime fmt (escapeTag gatewayID) (escapeFieldString streamID) chunks"

definition gapLine :: "gap \<Rightarrow> string" where
  "gapLine g =
     ''gap,gateway_id='' @ escapeTag (gp_GatewayID g) @ '' from_seq='' @ decimal (gp_FromSeq g) @
     ''i,to_seq='' @ decimal (gp_ToSeq g) @ ''i,chunks='' @ decimal (gp_ToSeq g - gp_FromSeq g + 1) @
     ''i,stream_id='' @ [quote] @ escapeFieldString (gp_StreamID g) @ [quote] @ '' '' @
     decimal (sint (toUnixMilli (gp_At g))) @ [newline]"

definition metaLine :: "gotime \<Rightarrow> datapointName \<Rightarrow> string" where
  "metaLine now d =
     ''datapoint_meta,gateway_id='' @ escapeTag (dn_GatewayID d) @ '',device_id='' @ decimal (dn_DeviceID d) @
     '',datapoint_id='' @ decimal (dn_DatapointID d) @ '' name='' @ [quote] @ escapeFieldString (dn_Name d) @ [quote] @
     '',unit='' @ [quote] @ escapeFieldString (dn_Unit d) @ [quote] @ '' '' @ decimal (sint (toUnixMilli now)) @ [newline]"


section \<open>Requests\<close>

text \<open>
  A request with its query as the pairs given to \<^verbatim>\<open>url.Values\<close> and its JSON bodies by their
  contents: retention rules are the list of their \<^verbatim>\<open>everySeconds\<close>. A response carries its
  status, the text that ends up in an error, and the ids that decoding its body yields.
\<close>

datatype influxBody = NoBody | LinesBody string | RetentionBody "int list" | BucketBody string string "int list"

record influxRequest =
  ir_method :: string
  ir_url :: string
  ir_query :: "(string \<times> string) list"
  ir_contentType :: string
  ir_auth :: string
  ir_body :: influxBody

record influxResponse =
  rp_status :: int
  rp_text :: string
  rp_ids :: "string + string list"

type_synonym 'w exchange = "influxRequest \<Rightarrow> 'w \<Rightarrow> (string + influxResponse) \<times> 'w"

record influxWriter =
  iw_baseURL :: string
  iw_org :: string
  iw_token :: string
  iw_lastErr :: "influxErr option"

definition trimSuffix :: "string \<Rightarrow> string \<Rightarrow> string" where
  "trimSuffix s suf = (if hasSuffix s suf then take (length s - length suf) s else s)"

definition newInfluxWriter :: "string \<Rightarrow> string \<Rightarrow> string \<Rightarrow> influxWriter" where
  "newInfluxWriter baseURL org token =
     \<lparr>iw_baseURL = trimSuffix baseURL ''/'', iw_org = org, iw_token = token, iw_lastErr = None\<rparr>"

text \<open>\<^verbatim>\<open>do\<close>; \<open>wantIDs\<close> is whether the caller passes something to decode into.\<close>

definition influxDo :: "'w exchange \<Rightarrow> influxWriter \<Rightarrow> string \<Rightarrow> string \<Rightarrow> (string \<times> string) list \<Rightarrow> string \<Rightarrow> influxBody \<Rightarrow>
    bool \<Rightarrow> 'w \<Rightarrow> (influxErr + string list) \<times> 'w" where
  "influxDo http w method path query contentType body wantIDs s =
     (case http \<lparr>ir_method = method, ir_url = iw_baseURL w @ path, ir_query = query, ir_contentType = contentType,
              ir_auth = ''Token '' @ iw_token w, ir_body = body\<rparr> s of
        (Inl e, s) \<Rightarrow> (Inl (RequestFailed e), s)
      | (Inr resp, s) \<Rightarrow>
          (if rp_status resp div 100 \<noteq> 2 then (Inl (Status (rp_status resp) (rp_text resp)), s)
           else if wantIDs then (map_sum DecodeError id (rp_ids resp), s)
           else (Inr [], s)))"

definition isNotFound :: "influxErr \<Rightarrow> bool" where
  "isNotFound e = (case e of Status st msg \<Rightarrow> st = 404 | _ \<Rightarrow> False)"

definition writeLines :: "'w exchange \<Rightarrow> string \<Rightarrow> string \<Rightarrow> influxWriter \<Rightarrow> 'w \<Rightarrow> influxErr option \<times> influxWriter \<times> 'w" where
  "writeLines http bucket body w s =
     (if body = [] then (None, w, s)
      else case influxDo http w ''POST'' ''/api/v2/write''
             [(''org'', iw_org w), (''bucket'', bucket), (''precision'', ''ms'')] ''text/plain; charset=utf-8''
             (LinesBody body) False s of
        (Inl e, s) \<Rightarrow> (Some e, w\<lparr>iw_lastErr := Some e\<rparr>, s)
      | (Inr ids, s) \<Rightarrow> (None, w\<lparr>iw_lastErr := None\<rparr>, s))"

definition writeChunks :: "'w exchange \<Rightarrow> (string \<Rightarrow> gotime option) \<Rightarrow> (float64 \<Rightarrow> string) \<Rightarrow> string \<Rightarrow> string \<Rightarrow> string \<Rightarrow>
    wireChunk list \<Rightarrow> influxWriter \<Rightarrow> 'w \<Rightarrow> influxErr option \<times> influxWriter \<times> 'w" where
  "writeChunks http parseTime fmt bucket gatewayID streamID chunks w s =
     (case lineProtocol parseTime fmt gatewayID streamID chunks of
        Inl e \<Rightarrow> (Some e, w, s)
      | Inr body \<Rightarrow> writeLines http bucket body w s)"

definition writeGap :: "'w exchange \<Rightarrow> string \<Rightarrow> gap \<Rightarrow> influxWriter \<Rightarrow> 'w \<Rightarrow> influxErr option \<times> influxWriter \<times> 'w" where
  "writeGap http bucket g w s = writeLines http bucket (gapLine g) w s"

definition writeMeta :: "'w exchange \<Rightarrow> string \<Rightarrow> gotime \<Rightarrow> datapointName list \<Rightarrow> influxWriter \<Rightarrow> 'w \<Rightarrow>
    influxErr option \<times> influxWriter \<times> 'w" where
  "writeMeta http bucket now dps w s = writeLines http bucket (concat (map (metaLine now) dps)) w s"

text \<open>The number of seconds is a 64-bit product.\<close>

definition retentionRules :: "int \<Rightarrow> int list" where
  "retentionRules retentionDays =
     (if retentionDays > 0 then [sint (word_of_int (retentionDays * 86400) :: int64)] else [])"

definition ensureBucket :: "'w exchange \<Rightarrow> string \<Rightarrow> int \<Rightarrow> influxWriter \<Rightarrow> 'w \<Rightarrow> influxErr option \<times> 'w" where
  "ensureBucket http bucket retentionDays w s =
     (let rules = retentionRules retentionDays;
          (found, s) = influxDo http w ''GET'' ''/api/v2/buckets'' [(''org'', iw_org w), (''name'', bucket)] [] NoBody True s
      in case (case found of Inl e \<Rightarrow> (if isNotFound e then Inr [] else Inl e) | Inr ids \<Rightarrow> Inr ids) of
           Inl e \<Rightarrow> (Some e, s)
         | Inr (b # _) \<Rightarrow>
             (case influxDo http w ''PATCH'' (''/api/v2/buckets/'' @ b) [] ''application/json'' (RetentionBody rules) False s of
                (Inl e, s) \<Rightarrow> (Some e, s) | (Inr _, s) \<Rightarrow> (None, s))
         | Inr [] \<Rightarrow>
             (case influxDo http w ''GET'' ''/api/v2/orgs'' [(''org'', iw_org w)] [] NoBody True s of
                (Inl e, s) \<Rightarrow> (Some e, s)
              | (Inr [], s) \<Rightarrow> (Some (OrgNotFound (iw_org w)), s)
              | (Inr (o1 # _), s) \<Rightarrow>
                  (case influxDo http w ''POST'' ''/api/v2/buckets'' [] ''application/json'' (BucketBody o1 bucket rules) False s of
                     (Inl e, s) \<Rightarrow> (Some e, s) | (Inr _, s) \<Rightarrow> (None, s))))"


section \<open>A reader of the line protocol\<close>

text \<open>
  A token ends at an unescaped separator; a backslash makes a following comma, equals sign or space
  part of it. A quoted string ends at an unescaped quote. The two parts of a line are lists of
  \<open>key=value\<close> pairs separated by commas; only field values may be quoted.
\<close>

fun scanTok :: "(char \<Rightarrow> bool) \<Rightarrow> string \<Rightarrow> string \<times> string" where
  "scanTok stop [] = ([], [])"
| "scanTok stop [c] = (if stop c then ([], [c]) else ([c], []))"
| "scanTok stop (c # d # s) =
     (if c = backslash \<and> tagSpecial d then (let (t, r) = scanTok stop s in (d # t, r))
      else if stop c then ([], c # d # s)
      else (let (t, r) = scanTok stop (d # s) in (c # t, r)))"

fun scanStr :: "string \<Rightarrow> (string \<times> string) option" where
  "scanStr [] = None"
| "scanStr [c] = (if c = quote then Some ([], []) else None)"
| "scanStr (c # d # s) =
     (if c = quote then Some ([], d # s)
      else if c = backslash \<and> (d = quote \<or> d = backslash) then map_option (\<lambda>(t, r). (d # t, r)) (scanStr s)
      else map_option (\<lambda>(t, r). (c # t, r)) (scanStr (d # s)))"

datatype fieldVal = TokV string | StrV string

definition pairEnd :: "char \<Rightarrow> bool" where
  "pairEnd c \<longleftrightarrow> c = CHR '','' \<or> c = CHR '' ''"

definition scanVal :: "bool \<Rightarrow> string \<Rightarrow> (fieldVal \<times> string) option" where
  "scanVal quoted s =
     (if quoted \<and> s \<noteq> [] \<and> hd s = quote then map_option (\<lambda>(t, r). (StrV t, r)) (scanStr (tl s))
      else let (t, r) = scanTok pairEnd s in Some (TokV t, r))"

fun scanPairs :: "bool \<Rightarrow> nat \<Rightarrow> string \<Rightarrow> ((string \<times> fieldVal) list \<times> string) option" where
  "scanPairs quoted 0 s = None"
| "scanPairs quoted (Suc n) s =
     (case scanTok tagSpecial s of
        (k, e # s) \<Rightarrow>
          (if e \<noteq> CHR ''='' then None
           else case scanVal quoted s of
                  None \<Rightarrow> None
                | Some (v, []) \<Rightarrow> Some ([(k, v)], [])
                | Some (v, c # s) \<Rightarrow>
                    (if c = CHR '','' then map_option (\<lambda>(ps, r). ((k, v) # ps, r)) (scanPairs quoted n s)
                     else Some ([(k, v)], c # s)))
      | (k, []) \<Rightarrow> None)"

record influxPoint =
  ip_measurement :: string
  ip_tags :: "(string \<times> fieldVal) list"
  ip_fields :: "(string \<times> fieldVal) list"
  ip_time :: string

definition parseLine :: "string \<Rightarrow> influxPoint option" where
  "parseLine line =
     (case scanTok pairEnd line of
        (m, c # s) \<Rightarrow>
          (if c \<noteq> CHR '','' then None
           else case scanPairs False (length s) s of
                  Some (tags, d # s) \<Rightarrow>
                    (case scanPairs True (length s) s of
                       Some (fs, e # ts) \<Rightarrow> Some \<lparr>ip_measurement = m, ip_tags = tags, ip_fields = fs, ip_time = ts\<rparr>
                     | _ \<Rightarrow> None)
                | _ \<Rightarrow> None)
      | (m, []) \<Rightarrow> None)"

definition parseBody :: "string \<Rightarrow> influxPoint option list" where
  "parseBody body = map parseLine (butlast (splitOn newline body))"

section \<open>Reading back what was rendered\<close>

definition plainChar :: "char \<Rightarrow> bool" where
  "plainChar c \<longleftrightarrow> \<not> tagSpecial c \<and> c \<noteq> backslash \<and> c \<noteq> quote \<and> c \<noteq> newline"

definition plain :: "string \<Rightarrow> bool" where
  "plain s \<longleftrightarrow> list_all plainChar s"

definition oneLine :: "string \<Rightarrow> string" where
  "oneLine s = map (\<lambda>c. if c = newline \<or> c = carriage then CHR '' '' else c) s"

lemma plain_simps [simp]: "plain []" "plain (c # s) \<longleftrightarrow> plainChar c \<and> plain s" "plain (s @ t) \<longleftrightarrow> plain s \<and> plain t"
  by (simp_all add: plain_def)

lemma escapeTag_simps [simp]:
  "escapeTag [] = []" "escapeTag (c # s) = (if tagSpecial c then [backslash, c] else [c]) @ escapeTag s"
  by (simp_all add: escapeTag_def)

lemma escapeFieldString_simps [simp]:
  "escapeFieldString [] = []"
  "escapeFieldString (c # s) = (if c = backslash \<or> c = quote then [backslash, c]
     else if c = newline \<or> c = carriage then '' '' else [c]) @ escapeFieldString s"
  by (simp_all add: escapeFieldString_def)

lemma scanTok_stop:
  assumes "stop d" "d \<noteq> backslash"
  shows "scanTok stop (d # rest) = ([], d # rest)"
  using assms by (cases rest) simp_all

lemma scanTok_keep:
  assumes "\<not> stop c" "c \<noteq> backslash"
  shows "scanTok stop (c # s) = (let (t, r) = scanTok stop s in (c # t, r))"
  using assms by (cases s) simp_all

lemma scanTok_escapeTag:
  assumes "\<And>c. stop c \<Longrightarrow> tagSpecial c" "stop d" "backslash \<notin> set v"
  shows "scanTok stop (escapeTag v @ d # rest) = (v, d # rest)"
proof -
  have nb: "\<not> tagSpecial backslash" by (simp add: tagSpecial_def backslash_def)
  then have d: "d \<noteq> backslash" using assms(1,2) by auto
  show ?thesis
    using assms(3)
  proof (induction v)
    case (Cons c v)
    then show ?case
      using assms(1) scanTok_keep [of stop c "escapeTag v @ d # rest"] by (auto simp: Let_def)
  qed (simp add: scanTok_stop assms(2) d)
qed

lemma escapeTag_plain: "plain s \<Longrightarrow> escapeTag s = s"
  by (induction s) (simp_all add: plainChar_def)

lemma scanTok_plain:
  assumes "\<And>c. stop c \<Longrightarrow> tagSpecial c" "stop d" "plain v"
  shows "scanTok stop (v @ d # rest) = (v, d # rest)"
proof -
  have "backslash \<notin> set v" using assms(3) by (auto simp: plain_def list_all_iff plainChar_def)
  then show ?thesis
    using scanTok_escapeTag [of stop d v rest] assms(1,2) escapeTag_plain [OF assms(3)] by simp
qed

lemma scanStr_escape: "scanStr (escapeFieldString v @ quote # rest) = Some (oneLine v, rest)"
proof (induction v)
  case Nil
  then show ?case by (cases rest) (simp_all add: oneLine_def)
next
  case (Cons c v)
  have step: "scanStr (e # escapeFieldString v @ quote # rest) = Some (e # oneLine v, rest)"
    if "e \<noteq> quote" "e \<noteq> backslash" for e
    using that Cons.IH by (cases "escapeFieldString v @ quote # rest") (auto simp: oneLine_def)
  consider "c = backslash \<or> c = quote" | "c = newline \<or> c = carriage" | "c \<notin> {backslash, quote, newline, carriage}"
    by blast
  then show ?case
  proof cases
    case 1
    then show ?thesis using Cons.IH by (auto simp: oneLine_def char_consts)
  next
    case 2
    then show ?thesis using step [of "CHR '' ''"] by (auto simp: oneLine_def char_consts)
  next
    case 3
    then show ?thesis using step [of c] by (auto simp: oneLine_def)
  qed
qed


text \<open>A rendered pair: its key, the text of its value, and what reading that text gives.\<close>

type_synonym rendered = "string \<times> string \<times> fieldVal"

definition pairText :: "rendered \<Rightarrow> string" where
  "pairText p = fst p @ ''='' @ fst (snd p)"

definition pairRead :: "rendered \<Rightarrow> string \<times> fieldVal" where
  "pairRead p = (fst p, snd (snd p))"

definition readsBack :: "bool \<Rightarrow> rendered \<Rightarrow> bool" where
  "readsBack quoted p \<longleftrightarrow> plain (fst p) \<and>
     (\<forall>d rest. pairEnd d \<longrightarrow> scanVal quoted (fst (snd p) @ d # rest) = Some (snd (snd p), d # rest))"

lemma pairEnd_special: "pairEnd c \<Longrightarrow> tagSpecial c" "pairEnd (CHR '','')" "pairEnd (CHR '' '')"
  by (auto simp: pairEnd_def tagSpecial_def)

lemma scanPairs_step:
  assumes "readsBack quoted p" "pairEnd d"
  shows "scanPairs quoted (Suc n) (pairText p @ d # rest) =
    (if d = CHR '','' then map_option (\<lambda>(ps, r). (pairRead p # ps, r)) (scanPairs quoted n rest)
     else Some ([pairRead p], d # rest))"
proof -
  have "scanTok tagSpecial (fst p @ CHR ''='' # fst (snd p) @ d # rest) = (fst p, CHR ''='' # fst (snd p) @ d # rest)"
    using assms(1) by (intro scanTok_plain) (simp_all add: readsBack_def tagSpecial_def)
  with assms show ?thesis by (simp add: pairText_def pairRead_def readsBack_def)
qed

lemma scanPairs_join:
  assumes "ps \<noteq> []" "list_all (readsBack quoted) ps" "length ps \<le> n"
  shows "scanPairs quoted n (joinWith '','' (map pairText ps) @ CHR '' '' # rest) = Some (map pairRead ps, CHR '' '' # rest)"
  using assms
proof (induction ps arbitrary: n)
  case (Cons p ps)
  obtain m where n: "n = Suc m" using Cons.prems(3) by (cases n) auto
  show ?case
  proof (cases ps)
    case Nil
    with Cons.prems n show ?thesis using scanPairs_step [of quoted p "CHR '' ''"] by (simp add: pairEnd_special)
  next
    case (Cons q qs)
    with Cons.IH [of m] Cons.prems n have
      "scanPairs quoted m (joinWith '','' (map pairText ps) @ CHR '' '' # rest) = Some (map pairRead ps, CHR '' '' # rest)"
      by simp
    moreover have "joinWith '','' (map pairText (p # ps)) = pairText p @ CHR '','' # joinWith '','' (map pairText ps)"
      using Cons by simp
    ultimately show ?thesis
      using scanPairs_step [of quoted p "CHR '',''" m "joinWith '','' (map pairText ps) @ CHR '' '' # rest"] Cons.prems n
      by (simp add: pairEnd_special)
  qed
qed simp

lemma parseLine_render:
  assumes "plain m" "tags \<noteq> []" "list_all (readsBack False) tags" "fs \<noteq> []" "list_all (readsBack True) fs"
  shows "parseLine (m @ '','' @ joinWith '','' (map pairText tags) @ '' '' @ joinWith '','' (map pairText fs) @ '' '' @ ts) =
    Some \<lparr>ip_measurement = m, ip_tags = map pairRead tags, ip_fields = map pairRead fs, ip_time = ts\<rparr>"
proof -
  have len: "length ps \<le> length (joinWith '','' (map pairText ps))" for ps
  proof (induction ps rule: induct_list012)
    case (3 p q ps)
    then show ?case by (simp add: pairText_def)
  qed (simp_all add: pairText_def)
  have t: "scanPairs False (length (joinWith '','' (map pairText tags) @ CHR '' '' # rest))
      (joinWith '','' (map pairText tags) @ CHR '' '' # rest) = Some (map pairRead tags, CHR '' '' # rest)" for rest
    by (rule scanPairs_join [OF assms(2,3)]) (use len [of tags] in simp)
  have f: "scanPairs True (length (joinWith '','' (map pairText fs) @ CHR '' '' # rest))
      (joinWith '','' (map pairText fs) @ CHR '' '' # rest) = Some (map pairRead fs, CHR '' '' # rest)" for rest
    by (rule scanPairs_join [OF assms(4,5)]) (use len [of fs] in simp)
  have "scanTok pairEnd (m @ CHR '','' # rest) = (m, CHR '','' # rest)" for rest
    using assms(1) by (intro scanTok_plain) (simp_all add: pairEnd_special)
  with t f show ?thesis by (simp add: parseLine_def del: length_append scanPairs.simps)
qed

lemma readsBack_tag: "plain k \<Longrightarrow> backslash \<notin> set v \<Longrightarrow> readsBack False (k, escapeTag v, TokV v)"
  by (auto simp: readsBack_def scanVal_def pairEnd_special scanTok_escapeTag)

lemma readsBack_plain:
  assumes "plain k" "plain v"
  shows "readsBack quoted (k, v, TokV v)"
proof -
  have "hd (v @ d # rest) \<noteq> quote" if "pairEnd d" for d rest
    using assms(2) that by (cases v) (auto simp: plainChar_def pairEnd_def quote_def)
  moreover have "scanTok pairEnd (v @ d # rest) = (v, d # rest)" if "pairEnd d" for d rest
    using assms(2) that by (intro scanTok_plain) (simp_all add: pairEnd_special)
  ultimately show ?thesis using assms(1) by (simp add: readsBack_def scanVal_def)
qed

lemma readsBack_string: "plain k \<Longrightarrow> readsBack True (k, quote # escapeFieldString v @ [quote], StrV (oneLine v))"
  by (auto simp: readsBack_def scanVal_def scanStr_escape)


lemma digit_plain: "n < 10 \<Longrightarrow> plainChar (char_of (48 + n :: nat))"
proof -
  have "list_all (\<lambda>n :: nat. plainChar (char_of (48 + n))) [0..<10]" by code_simp
  then show "n < 10 \<Longrightarrow> plainChar (char_of (48 + n))" by (simp add: list_all_iff)
qed

lemma decimalNat_plain: "plain (decimalNat k n)"
  by (induction k arbitrary: n) (simp_all add: digit_plain)

lemma decimal_plain [simp]: "plain (decimal n)"
  by (simp add: decimal_def decimalNat_plain) (simp add: plainChar_def tagSpecial_def char_consts)

text \<open>The point a reading should become.\<close>

definition pointOf :: "(float64 \<Rightarrow> string) \<Rightarrow> string \<Rightarrow> string \<Rightarrow> int \<Rightarrow> wireReading \<Rightarrow> gotime \<Rightarrow> influxPoint" where
  "pointOf fmt gatewayID streamID seq r ts =
     \<lparr>ip_measurement = ''reading'',
      ip_tags = [(''gateway_id'', TokV gatewayID), (''device_id'', TokV (decimal (sint (wr_DeviceID r)))),
        (''datapoint_id'', TokV (decimal (sint (wr_DatapointID r))))],
      ip_fields = (case wr_Value r of None \<Rightarrow> [] | Some v \<Rightarrow> [(''value'', TokV (fmt v))]) @
        [(''quality'', StrV (oneLine (wr_Quality r))), (''seq'', TokV (decimal seq @ ''i'')),
         (''stream_id'', StrV (oneLine streamID))],
      ip_time = decimal (sint (toUnixMilli ts))\<rparr>"

definition renderedTags :: "string \<Rightarrow> wireReading \<Rightarrow> rendered list" where
  "renderedTags gatewayID r =
     [(''gateway_id'', escapeTag gatewayID, TokV gatewayID),
      (''device_id'', decimal (sint (wr_DeviceID r)), TokV (decimal (sint (wr_DeviceID r)))),
      (''datapoint_id'', decimal (sint (wr_DatapointID r)), TokV (decimal (sint (wr_DatapointID r))))]"

definition renderedFields :: "(float64 \<Rightarrow> string) \<Rightarrow> string \<Rightarrow> int \<Rightarrow> wireReading \<Rightarrow> rendered list" where
  "renderedFields fmt streamID seq r =
     (case wr_Value r of None \<Rightarrow> [] | Some v \<Rightarrow> [(''value'', fmt v, TokV (fmt v))]) @
     [(''quality'', quote # escapeFieldString (wr_Quality r) @ [quote], StrV (oneLine (wr_Quality r))),
      (''seq'', decimal seq @ ''i'', TokV (decimal seq @ ''i'')),
      (''stream_id'', quote # escapeFieldString streamID @ [quote], StrV (oneLine streamID))]"

lemmas plain_consts = plainChar_def tagSpecial_def char_consts

lemma readingLine_render:
  "readingLine fmt (escapeTag gatewayID) (escapeFieldString streamID) seq r ts =
     (''reading'' @ '','' @ joinWith '','' (map pairText (renderedTags gatewayID r)) @ '' '' @
      joinWith '','' (map pairText (renderedFields fmt streamID seq r)) @ '' '' @ decimal (sint (toUnixMilli ts))) @ [newline]"
  by (simp add: readingLine_def renderedTags_def renderedFields_def pairText_def split: option.splits)

lemma renderedTags_readBack: "backslash \<notin> set gatewayID \<Longrightarrow> list_all (readsBack False) (renderedTags gatewayID r)"
  by (simp add: renderedTags_def) (intro conjI readsBack_tag readsBack_plain; simp add: plain_consts)

lemma renderedFields_readBack: "(\<And>v. plain (fmt v)) \<Longrightarrow> list_all (readsBack True) (renderedFields fmt streamID seq r)"
  by (auto simp: renderedFields_def split: option.splits)
    ((rule readsBack_plain readsBack_string; simp add: plain_consts)+)

lemma splitOn_lines:
  "list_all (\<lambda>l. c \<notin> set l) ls \<Longrightarrow> splitOn c (concat (map (\<lambda>l. l @ [c]) ls)) = ls @ [[]]"
proof (induction ls)
  case (Cons l ls)
  have "c \<notin> set l \<Longrightarrow> splitOn c (l @ c # rest) = l # splitOn c rest" for rest
    by (induction l) auto
  with Cons show ?case by simp
qed simp

lemma no_newline_escape: "newline \<notin> set (escapeFieldString v)" "newline \<notin> set v \<Longrightarrow> newline \<notin> set (escapeTag v)"
  by (induction v) (auto simp: char_consts)

lemma no_newline_plain: "plain v \<Longrightarrow> newline \<notin> set v"
  by (auto simp: plain_def list_all_iff plainChar_def)


text \<open>The readings of a message, each with its chunk's number, and the text of one without its line end.\<close>

definition flatReadings :: "wireChunk list \<Rightarrow> (int \<times> wireReading) list" where
  "flatReadings chunks = concat (map (\<lambda>c. map (Pair (wc_Seq c)) (wc_Readings c)) chunks)"

definition lineText :: "(string \<Rightarrow> gotime option) \<Rightarrow> (float64 \<Rightarrow> string) \<Rightarrow> string \<Rightarrow> string \<Rightarrow> int \<times> wireReading \<Rightarrow> string" where
  "lineText parseTime fmt gatewayID streamID = (\<lambda>(seq, r).
     ''reading'' @ '','' @ joinWith '','' (map pairText (renderedTags gatewayID r)) @ '' '' @
     joinWith '','' (map pairText (renderedFields fmt streamID seq r)) @ '' '' @
     decimal (sint (toUnixMilli (the (parseTime (wr_Timestamp r))))))"

lemma readingLines_text:
  "readingLines parseTime fmt (escapeTag gatewayID) (escapeFieldString streamID) seq rs = Inr body \<Longrightarrow>
     body = concat (map (\<lambda>l. l @ [newline]) (map (lineText parseTime fmt gatewayID streamID) (map (Pair seq) rs))) \<and>
     list_all (\<lambda>r. parseTime (wr_Timestamp r) \<noteq> None) rs"
proof (induction rs arbitrary: body)
  case (Cons r rs)
  then show ?case by (auto simp: lineText_def readingLine_render split: option.splits sum.splits)
qed simp

lemma lineProtocol_text:
  "lineProtocol parseTime fmt gatewayID streamID chunks = Inr body \<Longrightarrow>
     body = concat (map (\<lambda>l. l @ [newline]) (map (lineText parseTime fmt gatewayID streamID) (flatReadings chunks)))"
  unfolding lineProtocol_def
proof (induction chunks arbitrary: body)
  case (Cons c cs)
  then show ?case by (auto simp: flatReadings_def dest!: readingLines_text split: sum.splits)
qed (simp add: flatReadings_def)

lemma lineText_no_newline:
  assumes "\<And>v. plain (fmt v)" "newline \<notin> set gatewayID"
  shows "newline \<notin> set (lineText parseTime fmt gatewayID streamID sr)"
  using assms no_newline_plain [OF decimal_plain] no_newline_plain [OF assms(1)]
  by (cases sr) (auto simp: lineText_def renderedTags_def renderedFields_def pairText_def 
      no_newline_escape [unfolded newline_def] newline_def quote_def split: option.splits)

lemma parseLine_lineText:
  assumes "\<And>v. plain (fmt v)" "backslash \<notin> set gatewayID"
  shows "parseLine (lineText parseTime fmt gatewayID streamID (seq, r)) =
    Some (pointOf fmt gatewayID streamID seq r (the (parseTime (wr_Timestamp r))))"
proof -
  have "plain ''reading''" by (simp add: plain_consts)
  then have "parseLine (lineText parseTime fmt gatewayID streamID (seq, r)) =
      Some \<lparr>ip_measurement = ''reading'', ip_tags = map pairRead (renderedTags gatewayID r),
        ip_fields = map pairRead (renderedFields fmt streamID seq r),
        ip_time = decimal (sint (toUnixMilli (the (parseTime (wr_Timestamp r)))))\<rparr>"
    unfolding lineText_def prod.case
    by (rule parseLine_render [OF _ _ renderedTags_readBack [OF assms(2)] _ renderedFields_readBack [OF assms(1)]])
      (simp_all add: renderedTags_def renderedFields_def)
  then show ?thesis
    by (simp add: pointOf_def renderedTags_def renderedFields_def pairRead_def split: option.splits)
qed

text \<open>
  C8: what the receiving side writes to InfluxDB reads back as what it received. When the chunks of
  a message are rendered, the body is one line per reading, in order, and each line, read by the
  grammar of the line protocol, is the point of that reading: its gateway, device and data point as
  tags, its value if it has one, its quality, sequence number and stream as fields (line breaks in
  the strings become spaces) and its own time in milliseconds. This holds for every gateway id
  without a backslash or a line break and whatever else the strings contain; the formatted numbers
  are assumed to be free of separators, as \<^verbatim>\<open>strconv.FormatFloat\<close> makes them.
\<close>

theorem line_protocol_round_trip:
  assumes "\<And>v. plain (fmt v)" "backslash \<notin> set gatewayID" "newline \<notin> set gatewayID"
    and "lineProtocol parseTime fmt gatewayID streamID chunks = Inr body"
  shows "parseBody body =
    map (\<lambda>(seq, r). Some (pointOf fmt gatewayID streamID seq r (the (parseTime (wr_Timestamp r))))) (flatReadings chunks)"
proof -
  let ?ls = "map (lineText parseTime fmt gatewayID streamID) (flatReadings chunks)"
  have "list_all (\<lambda>l. newline \<notin> set l) ?ls"
    using lineText_no_newline [of fmt gatewayID parseTime streamID] assms(1,3) by (simp add: list_all_iff)
  then have "butlast (splitOn newline body) = ?ls"
    using splitOn_lines [of newline ?ls] lineProtocol_text [OF assms(4)] by simp
  then show ?thesis
    using parseLine_lineText [of fmt gatewayID parseTime streamID] assms(1,2) by (auto simp: parseBody_def)
qed

definition sampleChunk :: wireChunk where
  "sampleChunk = \<lparr>wc_Seq = 7, wc_Readings = [\<lparr>wr_DeviceID = 1, wr_DatapointID = 2, wr_Timestamp = ''t'',
     wr_Value = Some 0, wr_Quality = ''GOOD''\<rparr>, \<lparr>wr_DeviceID = 1, wr_DatapointID = 3, wr_Timestamp = ''t'',
     wr_Value = None, wr_Quality = ''a b''\<rparr>]\<rparr>"

lemma sampleChunk_lines:
  "lineProtocol (\<lambda>_. Some 5000000) (\<lambda>_. ''0'') ''GW 1'' ''s,1'' [sampleChunk] =
     Inr (concat (map (\<lambda>l. l @ [newline])
       (map (lineText (\<lambda>_. Some 5000000) (\<lambda>_. ''0'') ''GW 1'' ''s,1'') (flatReadings [sampleChunk]))))"
  by (simp add: lineProtocol_def sampleChunk_def flatReadings_def lineText_def readingLine_render del: escapeTag_simps escapeFieldString_simps)

theorem line_protocol_round_trip_witness:
  "parseBody (concat (map (\<lambda>l. l @ [newline])
     (map (lineText (\<lambda>_. Some 5000000) (\<lambda>_. ''0'') ''GW 1'' ''s,1'') (flatReadings [sampleChunk])))) =
   [Some (pointOf (\<lambda>_. ''0'') ''GW 1'' ''s,1'' 7 (wc_Readings sampleChunk ! 0) 5000000),
    Some (pointOf (\<lambda>_. ''0'') ''GW 1'' ''s,1'' 7 (wc_Readings sampleChunk ! 1) 5000000)]"
  using line_protocol_round_trip [OF _ _ _ sampleChunk_lines]
  by (simp add: plain_consts flatReadings_def sampleChunk_def)


text \<open>
  The two exclusions are needed. A gateway id ending in a backslash swallows the separator after it:
  the device tag disappears into the gateway's. One with a line break starts a line of its own.
\<close>

definition oneReading :: wireReading where
  "oneReading = \<lparr>wr_DeviceID = 1, wr_DatapointID = 2, wr_Timestamp = ''t'', wr_Value = None, wr_Quality = ''GOOD''\<rparr>"

lemma backslash_gateway_loses_device:
  "map_option (\<lambda>p. map fst (ip_tags p))
     (parseLine (butlast (readingLine (\<lambda>_. ''0'') (escapeTag (''GW'' @ [backslash])) [] 7 oneReading 5000000))) =
   Some [''gateway_id'', ''datapoint_id'']"
  by code_simp

lemma newline_gateway_injects_line:
  "length (splitOn newline (readingLine (\<lambda>_. ''0'') (escapeTag (''GW'' @ [newline] @ ''x'')) [] 7 oneReading 5000000)) = 3"
  by code_simp

section \<open>The bucket\<close>

text \<open>
  \<open>bucketAccepted\<close>: the last request of the exchange, which left it in state \<open>s'\<close>, was answered with
  success, and it was either a change of the retention rules, of a bucket id the exchange had itself
  reported for this name, or the creation of the bucket with these rules.
\<close>

definition bucketAccepted :: "'w exchange \<Rightarrow> string \<Rightarrow> int \<Rightarrow> influxWriter \<Rightarrow> 'w \<Rightarrow> 'w \<Rightarrow> bool" where
  "bucketAccepted http bucket days w s s' \<longleftrightarrow>
     (\<exists>req resp s1. http req s1 = (Inr resp, s') \<and> rp_status resp div 100 = 2 \<and>
        (ir_method req = ''PATCH'' \<and> ir_body req = RetentionBody (retentionRules days) \<and>
           (\<exists>b bs. ir_url req = iw_baseURL w @ ''/api/v2/buckets/'' @ b \<and>
              influxDo http w ''GET'' ''/api/v2/buckets'' [(''org'', iw_org w), (''name'', bucket)] [] NoBody True s = (Inr (b # bs), s1)) \<or>
         ir_method req = ''POST'' \<and> ir_url req = iw_baseURL w @ ''/api/v2/buckets'' \<and>
           (\<exists>oid. ir_body req = BucketBody oid bucket (retentionRules days))))"

lemma influxDo_ok:
  assumes "influxDo http w method path query ct body wantIDs s = (Inr ids, s')"
  shows "\<exists>req resp. http req s = (Inr resp, s') \<and> rp_status resp div 100 = 2 \<and>
       ir_method req = method \<and> ir_url req = iw_baseURL w @ path \<and> ir_body req = body"
proof -
  define req where "req = \<lparr>ir_method = method, ir_url = iw_baseURL w @ path, ir_query = query, ir_contentType = ct,
    ir_auth = ''Token '' @ iw_token w, ir_body = body\<rparr>"
  have "\<exists>resp. http req s = (Inr resp, s') \<and> rp_status resp div 100 = 2"
    using assms unfolding influxDo_def req_def [symmetric] by (auto split: prod.splits sum.splits if_splits)
  then show ?thesis by (intro exI [of _ req]) (simp add: req_def)
qed

text \<open>The bucket is in place, as far as InfluxDB's answers tell, whenever \<^verbatim>\<open>ensureBucket\<close> succeeds.\<close>

lemma ensureBucket_accepted:
  assumes "ensureBucket http bucket days w s = (None, s')"
  shows "bucketAccepted http bucket days w s s'"
proof -
  obtain found s1 where f: "influxDo http w ''GET'' ''/api/v2/buckets'' [(''org'', iw_org w), (''name'', bucket)] [] NoBody True s =
      (found, s1)" by fastforce
  consider (patch) b bs ids where "found = Inr (b # bs)"
      "influxDo http w ''PATCH'' (''/api/v2/buckets/'' @ b) [] ''application/json'' (RetentionBody (retentionRules days)) False s1 = (Inr ids, s')"
    | (create) oid ids s2 where
      "influxDo http w ''POST'' ''/api/v2/buckets'' [] ''application/json'' (BucketBody oid bucket (retentionRules days)) False s2 = (Inr ids, s')"
    using assms f
    by (auto simp: ensureBucket_def Let_def split: sum.splits list.splits prod.splits if_splits)
  then show ?thesis
  proof cases
    case patch
    from influxDo_ok [OF patch(2)] f patch(1) show ?thesis unfolding bucketAccepted_def by fastforce
  next
    case create
    from influxDo_ok [OF create] show ?thesis unfolding bucketAccepted_def by fastforce
  qed
qed

end
