(* ===== verification/ServerAdmin.thy ===== *)
theory ServerAdmin
  imports Influx Config "HOL-Library.Char_ord" "HOL-Library.List_Lexorder" "HOL-Library.Product_Lexorder"
begin

text \<open>
  The administration side of the receiving server, \<^verbatim>\<open>src/cmd/server-demo\<close>: the status page and
  the settings request (\<^verbatim>\<open>server.go\<close>), the snapshot they show (\<^verbatim>\<open>store.go\<close>), loading and
  saving the settings file (\<^verbatim>\<open>settings.go\<close>), the MQTT consumer (\<^verbatim>\<open>mqtt.go\<close>) and the
  start-up values (\<^verbatim>\<open>main.go\<close>).

  The order in which Go traverses a map is an argument, a list without repetition of the map's keys;
  so are the JSON decoder, the file system and the exchange with InfluxDB.

  The results: the status page lists every gateway and every data point, known or only named, once
  and in order; a settings request is applied as a whole or not at all, except that a failed save can
  leave the bucket changed; gateway and server agree on the topics of messages and acknowledgements.
\<close>

section \<open>The snapshot\<close>

definition receivedAll :: "srvStore \<Rightarrow> srvReading list" where
  "receivedAll s = ss_received s"

type_synonym dpKey = "string \<times> int64 \<times> int64"

definition seenKey :: "datapointSeen \<Rightarrow> dpKey" where
  "seenKey d = (ds_GatewayID d, ds_DeviceID d, ds_DatapointID d)"

definition dpOrder :: "datapointSeen \<Rightarrow> string \<times> int \<times> int" where
  "dpOrder d = (ds_GatewayID d, sint (ds_DeviceID d), sint (ds_DatapointID d))"

definition snapshot :: "string list \<Rightarrow> dpKey list \<Rightarrow> srvStore \<Rightarrow> gatewayStats list \<times> datapointSeen list \<times> gap list" where
  "snapshot gwKeys dpKeys s =
     (sort_key gs_ID (List.map_filter (ss_gateways s) gwKeys),
      sort_key dpOrder (List.map_filter (ss_datapoints s) dpKeys),
      ss_gaps s)"

section \<open>The status page\<close>

record gatewayStatus = gatewayStats +
  gw_Name :: string
  gw_Registered :: bool

record datapointStatus = datapointSeen +
  dq_Name :: string
  dq_Unit :: string

definition nameKey :: "datapointName \<Rightarrow> dpKey" where
  "nameKey d = (dn_GatewayID d, word_of_int (dn_DeviceID d), word_of_int (dn_DatapointID d))"

definition emptyGateway :: "string \<Rightarrow> gatewayStats" where
  "emptyGateway i = \<lparr>gs_ID = i, gs_LastSeen = zeroTime, gs_Messages = 0, gs_Readings = 0, gs_DuplicateChunks = 0,
     gs_Gaps = 0, gs_MissingChunks = 0, gs_Rejected = 0, gs_LastError = [], gs_Streams = Map.empty\<rparr>"

definition gatewayRow :: "srvSettings \<Rightarrow> gatewayStats \<Rightarrow> gatewayStatus" where
  "gatewayRow cfg g =
     (case gatewayName (set_Gateways cfg) (gs_ID g) of
        None \<Rightarrow> gatewayStats.extend g \<lparr>gw_Name = [], gw_Registered = False\<rparr>
      | Some name \<Rightarrow> gatewayStats.extend g \<lparr>gw_Name = name, gw_Registered = True\<rparr>)"

definition statusGateways :: "srvSettings \<Rightarrow> gatewayStats list \<Rightarrow> gatewayStatus list" where
  "statusGateways cfg gws =
     map (gatewayRow cfg) gws @
     map (\<lambda>g. gatewayStats.extend (emptyGateway (ge_ID g)) \<lparr>gw_Name = ge_Name g, gw_Registered = True\<rparr>)
       (filter (\<lambda>g. ge_ID g \<notin> gs_ID ` set gws) (set_Gateways cfg))"

definition namesOf :: "datapointName list \<Rightarrow> dpKey \<rightharpoonup> datapointName" where
  "namesOf ds = fold (\<lambda>d m. m(nameKey d \<mapsto> d)) ds Map.empty"

text \<open>The loop over the data points seen: the rows, and the names that are left.\<close>

fun seenRows :: "datapointSeen list \<Rightarrow> (dpKey \<rightharpoonup> datapointName) \<Rightarrow> datapointStatus list \<times> (dpKey \<rightharpoonup> datapointName)" where
  "seenRows [] names = ([], names)"
| "seenRows (d # ds) names =
     (let n = names (seenKey d);
          row = datapointSeen.extend d \<lparr>dq_Name = case_option [] dn_Name n, dq_Unit = case_option [] dn_Unit n\<rparr>;
          (rows, names) = seenRows ds (names(seenKey d := None))
      in (row # rows, names))"

definition namedRow :: "datapointName \<Rightarrow> datapointStatus" where
  "namedRow n = \<lparr>ds_GatewayID = dn_GatewayID n, ds_DeviceID = word_of_int (dn_DeviceID n),
     ds_DatapointID = word_of_int (dn_DatapointID n), ds_LastTS = [], ds_LastValue = None, ds_LastQuality = [],
     dq_Name = dn_Name n, dq_Unit = dn_Unit n\<rparr>"

definition statusDatapoints :: "srvSettings \<Rightarrow> datapointSeen list \<Rightarrow> datapointStatus list" where
  "statusDatapoints cfg dps =
     (let (rows, names) = seenRows dps (namesOf (set_Datapoints cfg))
      in rows @ map namedRow (filter (\<lambda>n. names (nameKey n) \<noteq> None) (set_Datapoints cfg)))"

section \<open>The MQTT consumer\<close>

datatype consumerAction = DisconnectClient | ConnectClient string string

record mqttConsumer =
  mc_client :: bool
  mc_broker :: string
  mc_topic :: string

definition applyConsumer :: "string \<Rightarrow> string \<Rightarrow> mqttConsumer \<Rightarrow> consumerAction list \<times> mqttConsumer" where
  "applyConsumer broker topic c =
     (if broker = mc_broker c \<and> topic = mc_topic c then ([], c)
      else let stop = (if mc_client c then [DisconnectClient] else []);
               c = c\<lparr>mc_client := False, mc_broker := broker, mc_topic := topic\<rparr>
           in if broker = [] then (stop, c)
              else (stop @ [ConnectClient broker topic], c\<lparr>mc_client := True\<rparr>))"

definition consumerStatus :: "bool \<Rightarrow> mqttConsumer \<Rightarrow> string \<times> string \<times> bool" where
  "consumerStatus isOpen c = (mc_broker c, mc_topic c, mc_client c \<and> isOpen)"

definition ackTopicFor :: "string \<Rightarrow> string" where
  "ackTopicFor topic = trimSuffix topic ''/data'' @ ''/ack''"

text \<open>The subscription's callback: what is published, if anything, where.\<close>

definition onMessage :: "srvSettings \<Rightarrow> bool \<Rightarrow> gotime \<Rightarrow> string \<Rightarrow> string + message \<Rightarrow> srvStore \<Rightarrow>
    (string \<times> wireAck) option \<times> srvStore" where
  "onMessage cfg writeOk now topic payload s =
     (case payload of
        Inl e \<Rightarrow> (None, s)
      | Inr m \<Rightarrow> (case handleMQTT cfg writeOk now m s of
                    (None, s) \<Rightarrow> (None, s)
                  | (Some a, s) \<Rightarrow> (Some (ackTopicFor topic, a), s)))"

section \<open>Settings\<close>

record influxStatus =
  ix_url :: string
  ix_org :: string
  ix_lastError :: "influxErr option"

record serverStatus =
  ssp_startedAt :: gotime
  ssp_fault :: "string \<times> int"
  ssp_mqtt :: "string \<times> string \<times> bool"
  ssp_influx :: "influxStatus option"
  ssp_gateways :: "gatewayStatus list"
  ssp_datapoints :: "datapointStatus list"
  ssp_gaps :: "gap list"

record adminServer =
  ad_settings :: srvSettings
  ad_store :: srvStore
  ad_influx :: "influxWriter option"
  ad_mqtt :: mqttConsumer
  ad_startedAt :: gotime

definition handleStatus :: "string list \<Rightarrow> dpKey list \<Rightarrow> bool \<Rightarrow> adminServer \<Rightarrow> serverStatus" where
  "handleStatus gwKeys dpKeys isOpen sv =
     (let cfg = ad_settings sv; (gws, dps, gaps) = snapshot gwKeys dpKeys (ad_store sv)
      in \<lparr>ssp_startedAt = ad_startedAt sv, ssp_fault = (set_FaultMode cfg, set_AckDelayMs cfg),
          ssp_mqtt = consumerStatus isOpen (ad_mqtt sv),
          ssp_influx = map_option (\<lambda>w. \<lparr>ix_url = iw_baseURL w, ix_org = iw_org w, ix_lastError = iw_lastErr w\<rparr>) (ad_influx sv),
          ssp_gateways = statusGateways cfg gws, ssp_datapoints = statusDatapoints cfg dps, ssp_gaps = gaps\<rparr>)"

datatype putReply = PutOK srvSettings | PutFailed int string

definition putBucket :: "'w exchange \<Rightarrow> srvSettings \<Rightarrow> adminServer \<Rightarrow> 'w \<Rightarrow> influxErr option \<times> 'w" where
  "putBucket http new sv w =
     (case ad_influx sv of
        None \<Rightarrow> (None, w)
      | Some iw \<Rightarrow>
          (if set_Bucket new = set_Bucket (ad_settings sv) \<and> set_RetentionDays new = set_RetentionDays (ad_settings sv)
           then (None, w)
           else ensureBucket http (set_Bucket new) (set_RetentionDays new) iw w))"

definition putMeta :: "'w exchange \<Rightarrow> gotime \<Rightarrow> adminServer \<Rightarrow> 'w \<Rightarrow> adminServer \<times> 'w" where
  "putMeta http now sv w =
     (case ad_influx sv of
        None \<Rightarrow> (sv, w)
      | Some iw \<Rightarrow>
          (case writeMeta http (set_Bucket (ad_settings sv)) now (set_Datapoints (ad_settings sv)) iw w of
             (err, iw, w) \<Rightarrow> (sv\<lparr>ad_influx := Some iw\<rparr>, w)))"

definition handlePutSettings :: "(string \<Rightarrow> bool) \<Rightarrow> bool \<Rightarrow> 'w exchange \<Rightarrow> gotime \<Rightarrow> string + srvSettings \<Rightarrow> adminServer \<Rightarrow> 'w \<Rightarrow>
    (putReply \<times> consumerAction list) \<times> adminServer \<times> 'w" where
  "handlePutSettings urlOk saveOk http now body sv w =
     (case body of
        Inl e \<Rightarrow> ((PutFailed 400 e, []), sv, w)
      | Inr new \<Rightarrow>
          (let new = normalizeSettings new in
           case validateSettings urlOk new of
             Some e \<Rightarrow> ((PutFailed 400 e, []), sv, w)
           | None \<Rightarrow>
               (case putBucket http new sv w of
                  (Some e, w) \<Rightarrow> ((PutFailed 502 ''InfluxDB bucket'', []), sv, w)
                | (None, w) \<Rightarrow>
                    (case setSettings urlOk saveOk new (ad_settings sv) of
                       (Inl e, cur) \<Rightarrow> ((PutFailed 500 e, []), sv\<lparr>ad_settings := cur\<rparr>, w)
                     | (Inr saved, cur) \<Rightarrow>
                         (let (acts, mq) = applyConsumer (set_BrokerURL saved) (set_DataTopic saved) (ad_mqtt sv);
                              (sv, w) = putMeta http now (sv\<lparr>ad_settings := cur, ad_mqtt := mq\<rparr>) w
                          in ((PutOK saved, acts), sv, w))))))"

text \<open>One round of \<^verbatim>\<open>refreshMeta\<close>.\<close>

definition refreshMeta :: "'w exchange \<Rightarrow> gotime \<Rightarrow> adminServer \<Rightarrow> 'w \<Rightarrow> adminServer \<times> 'w" where
  "refreshMeta http now sv w = putMeta http now sv w"

text \<open>
  \<^verbatim>\<open>save\<close> writes a temporary file and renames it; the file system's steps may fail. The file
  that is left at the path is returned.
\<close>

definition saveSrvSettings :: "(srvSettings \<Rightarrow> string) \<Rightarrow> bool \<Rightarrow> bool \<Rightarrow> bool \<Rightarrow> string \<Rightarrow> srvSettings \<Rightarrow> string option \<Rightarrow>
    string option \<times> string option" where
  "saveSrvSettings marshal mkdirOk writeOk renameOk path s file =
     (if path = [] then (None, file)
      else if \<not> mkdirOk then (Some ''mkdir'', file)
      else if \<not> writeOk then (Some ''write'', file)
      else if \<not> renameOk then (Some ''rename'', file)
      else (None, Some (marshal s)))"

datatype fileRead = FileMissing | FileError string | FileText string

definition loadSrvSettings :: "(string \<Rightarrow> srvSettings \<Rightarrow> string + srvSettings) \<Rightarrow> (string \<Rightarrow> bool) \<Rightarrow> string option \<Rightarrow> string \<Rightarrow> fileRead \<Rightarrow>
    srvSettings \<Rightarrow> string + srvSettings" where
  "loadSrvSettings unmarshal urlOk saveErr path file defaults =
     (if path = [] then Inr defaults
      else case file of
        FileMissing \<Rightarrow> (case saveErr of None \<Rightarrow> Inr defaults | Some e \<Rightarrow> Inl e)
      | FileError e \<Rightarrow> Inl e
      | FileText b \<Rightarrow>
          (case unmarshal b defaults of
             Inl e \<Rightarrow> Inl e
           | Inr s \<Rightarrow>
               (let s = normalizeSettings s in
                case validateSettings urlOk s of Some e \<Rightarrow> Inl e | None \<Rightarrow> Inr s)))"

definition envOr :: "(string \<Rightarrow> string) \<Rightarrow> string \<Rightarrow> string \<Rightarrow> string" where
  "envOr env key fallback = (if env key \<noteq> [] then env key else fallback)"

text \<open>The start-up values of \<^verbatim>\<open>main\<close>; \<open>atoiEnv\<close> is \<^verbatim>\<open>strconv.Atoi\<close> with its error.\<close>

definition serverDefaults :: "(string \<Rightarrow> string) \<Rightarrow> (string \<Rightarrow> int option) \<Rightarrow> string \<Rightarrow> string \<Rightarrow> srvSettings" where
  "serverDefaults env atoiEnv mqttBroker mqttDataTopic =
     \<lparr>set_FaultMode = faultNone, set_AckDelayMs = 0, set_RejectUnknownGateways = False, set_Gateways = [],
      set_Datapoints = [], set_BrokerURL = envOr env ''MQTT_BROKER_URL'' mqttBroker, set_DataTopic = mqttDataTopic,
      set_Bucket = envOr env ''INFLUX_BUCKET'' ''gateway'',
      set_RetentionDays = (case atoiEnv (env ''INFLUX_RETENTION_DAYS'') of Some v \<Rightarrow> v | None \<Rightarrow> 30)\<rparr>"


text \<open>
  \<^verbatim>\<open>main\<close> up to the listener: settings that cannot be loaded stop it; a bucket that cannot be
  prepared is only logged. The first round of \<^verbatim>\<open>refreshMeta\<close> runs on its own.
\<close>

definition startServer :: "(string \<Rightarrow> string) \<Rightarrow> 'w exchange \<Rightarrow> gotime \<Rightarrow> string + srvSettings \<Rightarrow> 'w \<Rightarrow>
    (string + consumerAction list \<times> adminServer) \<times> 'w" where
  "startServer env http now loaded w =
     (case loaded of
        Inl e \<Rightarrow> (Inl e, w)
      | Inr cfg \<Rightarrow>
          (let url = env ''INFLUX_URL'';
               iw = newInfluxWriter url (env ''INFLUX_ORG'') (env ''INFLUX_TOKEN'');
               w = (if url = [] then w else snd (ensureBucket http (set_Bucket cfg) (set_RetentionDays cfg) iw w));
               (acts, mq) = applyConsumer (set_BrokerURL cfg) (set_DataTopic cfg) \<lparr>mc_client = False, mc_broker = [], mc_topic = []\<rparr>
           in (Inr (acts, \<lparr>ad_settings = cfg, ad_store = newStore (url \<noteq> []),
                 ad_influx = (if url = [] then None else Some iw), ad_mqtt = mq, ad_startedAt = now\<rparr>), w)))"

text \<open>
  The start-up values are saved without being checked and checked when they are read back: with a
  negative \<^verbatim>\<open>INFLUX_RETENTION_DAYS\<close>, say, the first start succeeds and every later one fails.
\<close>

lemma unchecked_defaults_stop_restart:
  assumes "path \<noteq> []" "unmarshal (marshal d) d = Inr d" "validateSettings urlOk (normalizeSettings d) = Some e"
  shows "loadSrvSettings unmarshal urlOk None path FileMissing d = Inr d \<and>
    saveSrvSettings marshal True True True path d None = (None, Some (marshal d)) \<and>
    loadSrvSettings unmarshal urlOk None path (FileText (marshal d)) d = Inl e"
  using assms by (simp add: loadSrvSettings_def saveSrvSettings_def Let_def)

lemma negative_retention_unchecked:
  "\<exists>e. validateSettings urlOk (normalizeSettings (serverDefaults (\<lambda>_. []) (\<lambda>_. Some (- 1)) [] ''gateway/+/data'')) = Some e"
  by (auto simp: validateSettings_def normalizeSettings_def serverDefaults_def)


section \<open>The tables are keyed by what they hold\<close>

text \<open>The typing of the two tables: a row is stored under its own identity.\<close>

definition tablesOk :: "srvStore \<Rightarrow> bool" where
  "tablesOk s \<longleftrightarrow> (\<forall>k g. ss_gateways s k = Some g \<longrightarrow> gs_ID g = k) \<and>
     (\<forall>k d. ss_datapoints s k = Some d \<longrightarrow> seenKey d = k)"

lemma gw_ID: "tablesOk s \<Longrightarrow> gs_ID (gw k s) = k"
  by (auto simp: tablesOk_def gw_def split: option.splits)

lemma updGw_ok:
  assumes "tablesOk s" "\<And>g. gs_ID (f g) = gs_ID g"
  shows "tablesOk (updGw k f s)"
  using assms gw_ID [OF assms(1), of k] by (simp add: tablesOk_def updGw_def)

lemma noteMessage_ok: "tablesOk s \<Longrightarrow> tablesOk (noteMessage now k s)"
  by (simp add: noteMessage_def updGw_ok)

lemma noteRejected_ok: "tablesOk s \<Longrightarrow> tablesOk (noteRejected k e s)"
  by (simp add: noteRejected_def updGw_ok)

lemma storeReading_ok: "tablesOk s \<Longrightarrow> tablesOk (storeReading gid sid q r s)"
  by (auto simp: tablesOk_def storeReading_def Let_def seenKey_def split: option.splits)

lemma storeReadings_ok: "tablesOk s \<Longrightarrow> tablesOk (fold (storeReading gid sid q) rs s)"
  by (induction rs arbitrary: s) (simp_all add: storeReading_ok)


lemma tablesOk_other [simp]:
  "tablesOk (s\<lparr>ss_gaps := x\<rparr>) = tablesOk s" "tablesOk (s\<lparr>ss_lastSeq := y\<rparr>) = tablesOk s"
  "tablesOk (s\<lparr>ss_seen := z\<rparr>) = tablesOk s" "tablesOk (s\<lparr>ss_received := w\<rparr>) = tablesOk s"
  by (simp_all add: tablesOk_def)

lemma storeChunk_ok: "tablesOk s \<Longrightarrow> tablesOk (storeChunk now gid sid c s)"
  by (auto simp: storeChunk_def Let_def noteGap_def advanceSeq_def intro!: storeReadings_ok updGw_ok split: option.splits)

lemma storeChunks_ok: "tablesOk s \<Longrightarrow> tablesOk (fold (storeChunk now gid sid) cs s)"
  by (induction cs arbitrary: s) (simp_all add: storeChunk_ok)

lemma ingest_ok: "tablesOk s \<Longrightarrow> tablesOk (snd (ingest writeOk now m s))"
  by (simp add: ingest_def Let_def updGw_ok storeChunks_ok)

lemma process_ok: "tablesOk s \<Longrightarrow> tablesOk (snd (process cfg writeOk now m s))"
  using ingest_ok [OF noteMessage_ok, of s writeOk now m now "m_GatewayID m"]
  by (auto simp: process_def Let_def noteRejected_ok noteMessage_ok split: prod.splits sum.splits)

text \<open>A store after any sequence of messages, each under the settings of its moment.\<close>

fun processAll :: "(srvSettings \<times> bool \<times> gotime \<times> message) list \<Rightarrow> srvStore \<Rightarrow> srvStore" where
  "processAll [] s = s"
| "processAll ((cfg, writeOk, now, m) # ms) s = processAll ms (snd (process cfg writeOk now m s))"

lemma processAll_ok: "tablesOk s \<Longrightarrow> tablesOk (processAll ms s)"
  by (induction ms s rule: processAll.induct) (simp_all add: process_ok)

lemma newStore_ok: "tablesOk (newStore out)"
  by (simp add: tablesOk_def newStore_def)

section \<open>The status page is complete\<close>

lemma map_filter_keys:
  assumes "\<And>k x. m k = Some x \<Longrightarrow> key x = k" "distinct ks" "set ks = dom m"
  shows "distinct (map key (List.map_filter m ks)) \<and> set (map key (List.map_filter m ks)) = dom m"
proof -
  have "map key (List.map_filter m ks) = filter (\<lambda>k. k \<in> dom m) ks"
    using assms(1) by (induction ks) (auto simp: List.map_filter_def split: option.splits)
  then show ?thesis using assms(2,3) by simp
qed

lemma sort_key_keys:
  "distinct (map f xs) \<Longrightarrow> distinct (map f (sort_key g xs)) \<and> set (map f (sort_key g xs)) = set (map f xs)"
proof -
  have "mset (map f (sort_key g xs)) = mset (map f xs)" by simp
  then show "distinct (map f xs) \<Longrightarrow> ?thesis" by (metis mset_eq_imp_distinct_iff mset_eq_setD)
qed

lemma gatewaysValid_distinct:
  "gatewaysValid seen gs = None \<Longrightarrow> distinct (map ge_ID gs) \<and> set (map ge_ID gs) \<inter> set seen = {}"
proof (induction gs arbitrary: seen)
  case (Cons g gs)
  then have "ge_ID g \<notin> set seen" "gatewaysValid (ge_ID g # seen) gs = None" by (auto split: if_splits)
  with Cons.IH [of "ge_ID g # seen"] show ?case by auto
qed simp

lemma gatewayRow_ID [simp]: "gs_ID (gatewayRow cfg g) = gs_ID g"
  by (simp add: gatewayRow_def gatewayStats.extend_def split: option.splits)

lemma statusGateways_ids:
  "map gs_ID (statusGateways cfg gws) =
     map gs_ID gws @ filter (\<lambda>i. i \<notin> gs_ID ` set gws) (map ge_ID (set_Gateways cfg))"
  by (simp add: statusGateways_def emptyGateway_def gatewayStats.extend_def filter_map comp_def)

lemma seenRows_keys:
  "map (\<lambda>r. (ds_GatewayID r, ds_DeviceID r, ds_DatapointID r)) (fst (seenRows ds names)) = map seenKey ds \<and>
   (\<forall>k. snd (seenRows ds names) k = (if k \<in> seenKey ` set ds then None else names k))"
  by (induction ds arbitrary: names)
    (auto simp: Let_def split_beta seenKey_def datapointSeen.extend_def)

definition rowKey :: "datapointStatus \<Rightarrow> dpKey" where
  "rowKey r = (ds_GatewayID r, ds_DeviceID r, ds_DatapointID r)"

lemma namesOf_dom: "(namesOf ds k \<noteq> None) = (k \<in> nameKey ` set ds)"
proof -
  have "(fold (\<lambda>d m. m(nameKey d \<mapsto> d)) ds m k \<noteq> None) = (m k \<noteq> None \<or> k \<in> nameKey ` set ds)" for m
    by (induction ds arbitrary: m) auto
  then show ?thesis by (simp add: namesOf_def)
qed

lemma statusDatapoints_keys:
  "map rowKey (statusDatapoints cfg dps) =
     map seenKey dps @ filter (\<lambda>k. k \<notin> seenKey ` set dps) (map nameKey (set_Datapoints cfg))"
proof -
  obtain rows names where r: "seenRows dps (namesOf (set_Datapoints cfg)) = (rows, names)" by fastforce
  note k = seenRows_keys [of dps "namesOf (set_Datapoints cfg)", unfolded r]
  have left: "(names (nameKey n) \<noteq> None) = (nameKey n \<notin> seenKey ` set dps)" if "n \<in> set (set_Datapoints cfg)" for n
    using k [THEN conjunct2, rule_format, of "nameKey n"] namesOf_dom [of "set_Datapoints cfg" "nameKey n"] that by simp
  have "rowKey = (\<lambda>r. (ds_GatewayID r, ds_DeviceID r, ds_DatapointID r))" by (rule ext) (simp add: rowKey_def)
  then have "map rowKey rows = map seenKey dps" using k by simp
  moreover have "map rowKey (map namedRow (filter (\<lambda>n. names (nameKey n) \<noteq> None) (set_Datapoints cfg))) =
      map nameKey (filter (\<lambda>n. nameKey n \<notin> seenKey ` set dps) (set_Datapoints cfg))"
    using left by (simp add: rowKey_def namedRow_def nameKey_def comp_def cong: filter_cong)
  ultimately show ?thesis by (simp add: statusDatapoints_def r filter_map comp_def)
qed


lemma append_missing_keys:
  assumes "distinct xs" "distinct ys"
  shows "distinct (xs @ filter (\<lambda>y. y \<notin> set xs) ys) \<and> set (xs @ filter (\<lambda>y. y \<notin> set xs) ys) = set xs \<union> set ys"
  using assms by auto

text \<open>
  The status page is complete and without repetition. After any messages, under any settings
  then in force, and whatever order Go traverses its maps in: the page has exactly one row for every
  gateway that was heard of or is registered, and exactly one for every data point that was seen or
  is named in the settings (which name no data point twice); the rows of gateways heard of come
  first, in the order of their ids.
\<close>

theorem status_lists_each_once:
  assumes "ad_store sv = processAll ms (newStore out)"
    and "distinct gwKeys" "set gwKeys = dom (ss_gateways (ad_store sv))"
    and "distinct dpKeys" "set dpKeys = dom (ss_datapoints (ad_store sv))"
    and "validateSettings urlOk (ad_settings sv) = None" "distinct (map nameKey (set_Datapoints (ad_settings sv)))"
  shows "(let page = handleStatus gwKeys dpKeys isOpen sv in
     distinct (map gs_ID (ssp_gateways page)) \<and>
     set (map gs_ID (ssp_gateways page)) = dom (ss_gateways (ad_store sv)) \<union> ge_ID ` set (set_Gateways (ad_settings sv)) \<and>
     sorted (take (length gwKeys) (map gs_ID (ssp_gateways page))) \<and>
     distinct (map rowKey (ssp_datapoints page)) \<and>
     set (map rowKey (ssp_datapoints page)) =
       dom (ss_datapoints (ad_store sv)) \<union> nameKey ` set (set_Datapoints (ad_settings sv)))"
proof -
  let ?s = "ad_store sv" and ?cfg = "ad_settings sv"
  let ?gws = "sort_key gs_ID (List.map_filter (ss_gateways ?s) gwKeys)"
  let ?dps = "sort_key dpOrder (List.map_filter (ss_datapoints ?s) dpKeys)"
  have ok: "tablesOk ?s" using assms(1) processAll_ok [OF newStore_ok] by simp
  have g: "distinct (map gs_ID ?gws) \<and> set (map gs_ID ?gws) = dom (ss_gateways ?s)"
    using sort_key_keys [of gs_ID "List.map_filter (ss_gateways ?s) gwKeys" gs_ID] ok
      map_filter_keys [of "ss_gateways ?s" gs_ID gwKeys] assms(2,3) by (auto simp: tablesOk_def)
  have d: "distinct (map seenKey ?dps) \<and> set (map seenKey ?dps) = dom (ss_datapoints ?s)"
    using sort_key_keys [of seenKey "List.map_filter (ss_datapoints ?s) dpKeys" dpOrder] ok
      map_filter_keys [of "ss_datapoints ?s" seenKey dpKeys] assms(4,5) by (auto simp: tablesOk_def)
  have "gatewaysValid [] (set_Gateways ?cfg) = None"
    using assms(6) by (auto simp: validateSettings_def split: if_splits option.splits)
  then have ids: "distinct (map ge_ID (set_Gateways ?cfg))" using gatewaysValid_distinct by blast
  have len: "length ?gws = length gwKeys"
  proof -
    have "length ?gws = card (set (map gs_ID ?gws))" using g by (metis distinct_card length_map)
    then show ?thesis using g assms(2,3) by (metis distinct_card)
  qed
  have "take (length gwKeys) (map gs_ID (statusGateways ?cfg ?gws)) = map gs_ID ?gws"
    by (simp add: statusGateways_ids flip: len)
  then have "sorted (take (length gwKeys) (map gs_ID (statusGateways ?cfg ?gws)))" by simp
  moreover have "distinct (map gs_ID (statusGateways ?cfg ?gws)) \<and>
      set (map gs_ID (statusGateways ?cfg ?gws)) = dom (ss_gateways ?s) \<union> ge_ID ` set (set_Gateways ?cfg)"
    using append_missing_keys [of "map gs_ID ?gws" "map ge_ID (set_Gateways ?cfg)"] g ids
    unfolding statusGateways_ids by simp
  moreover have "distinct (map rowKey (statusDatapoints ?cfg ?dps)) \<and>
      set (map rowKey (statusDatapoints ?cfg ?dps)) = dom (ss_datapoints ?s) \<union> nameKey ` set (set_Datapoints ?cfg)"
    using append_missing_keys [of "map seenKey ?dps" "map nameKey (set_Datapoints ?cfg)"] d assms(7)
    unfolding statusDatapoints_keys by simp
  ultimately show ?thesis by (simp add: handleStatus_def snapshot_def Let_def)
qed


definition adminSettings :: srvSettings where
  "adminSettings = \<lparr>set_FaultMode = faultNone, set_AckDelayMs = 0, set_RejectUnknownGateways = True,
     set_Gateways = [\<lparr>ge_ID = ''GW1'', ge_Name = ''hall''\<rparr>],
     set_Datapoints = [\<lparr>dn_GatewayID = ''GW1'', dn_DeviceID = 1, dn_DatapointID = 2, dn_Name = ''temp'', dn_Unit = ''C''\<rparr>],
     set_BrokerURL = [], set_DataTopic = ''gateway/+/data'', set_Bucket = ''gateway'', set_RetentionDays = 30\<rparr>"

definition adminSample :: adminServer where
  "adminSample = \<lparr>ad_settings = adminSettings, ad_store = newStore True,
     ad_influx = Some (newInfluxWriter ''http://influx'' ''org'' ''token''),
     ad_mqtt = \<lparr>mc_client = False, mc_broker = [], mc_topic = ''gateway/+/data''\<rparr>, ad_startedAt = 0\<rparr>"

lemma adminSettings_valid: "validateSettings (\<lambda>_. True) adminSettings = None"
  by code_simp

theorem status_lists_each_once_witness:
  "let page = handleStatus [] [] False adminSample in
     set (map gs_ID (ssp_gateways page)) = {''GW1''} \<and> set (map rowKey (ssp_datapoints page)) = {(''GW1'', 1, 2)}"
  using status_lists_each_once [of adminSample "[]" True "[]" "[]" "\<lambda>_. True" False] adminSettings_valid
  by (simp add: adminSample_def newStore_def Let_def) (simp add: adminSettings_def nameKey_def)

section \<open>Settings requests\<close>

lemma setSettings_normal:
  "validateSettings urlOk (normalizeSettings s) = None \<Longrightarrow>
   setSettings urlOk saveOk (normalizeSettings s) cur =
     (if saveOk then (Inr (normalizeSettings s), normalizeSettings s) else (Inl ''save failed'', cur))"
  by (simp add: setSettings_def Let_def normalizeSettings_idem)

lemma putMeta_keeps:
  "putMeta http now sv w = (sv', w') \<Longrightarrow>
     ad_settings sv' = ad_settings sv \<and> ad_store sv' = ad_store sv \<and> ad_mqtt sv' = ad_mqtt sv"
  by (auto simp: putMeta_def split: option.splits prod.splits)

lemma applyConsumer_target: "applyConsumer broker topic c = (acts, c') \<Longrightarrow> mc_broker c' = broker \<and> mc_topic c' = topic"
  by (auto simp: applyConsumer_def Let_def split: if_splits)

definition bucketChanged :: "srvSettings \<Rightarrow> srvSettings \<Rightarrow> bool" where
  "bucketChanged new old \<longleftrightarrow> set_Bucket new \<noteq> set_Bucket old \<or> set_RetentionDays new \<noteq> set_RetentionDays old"

lemma putBucket_cases:
  assumes "putBucket http new sv w = (err, w')"
  shows "(ad_influx sv = None \<or> \<not> bucketChanged new (ad_settings sv)) \<and> err = None \<and> w' = w \<or>
    (\<exists>iw. ad_influx sv = Some iw \<and> bucketChanged new (ad_settings sv) \<and>
       ensureBucket http (set_Bucket new) (set_RetentionDays new) iw w = (err, w'))"
  using assms by (auto simp: putBucket_def bucketChanged_def split: option.splits if_splits)

text \<open>The bucket step of a request that goes on: nothing to do, or accepted by InfluxDB.\<close>

definition bucketInPlace :: "'w exchange \<Rightarrow> srvSettings \<Rightarrow> adminServer \<Rightarrow> 'w \<Rightarrow> 'w \<Rightarrow> bool" where
  "bucketInPlace http new sv w w' \<longleftrightarrow>
     (case ad_influx sv of
        None \<Rightarrow> w' = w
      | Some iw \<Rightarrow> if bucketChanged new (ad_settings sv)
                   then bucketAccepted http (set_Bucket new) (set_RetentionDays new) iw w w' else w' = w)"

lemma putBucket_inPlace: "putBucket http new sv w = (None, w') \<Longrightarrow> bucketInPlace http new sv w w'"
  using putBucket_cases [of http new sv w None w'] ensureBucket_accepted
  by (auto simp: bucketInPlace_def split: option.splits)

lemma handlePut_ok:
  assumes "validateSettings urlOk (normalizeSettings new) = None" "putBucket http (normalizeSettings new) sv w = (None, w1)"
  shows "fst (fst (handlePutSettings urlOk True http now (Inr new) sv w)) = PutOK (normalizeSettings new)"
    and "handlePutSettings urlOk False http now (Inr new) sv w = ((PutFailed 500 ''save failed'', []), sv, w1)"
  using assms by (simp_all add: handlePutSettings_def setSettings_normal Let_def split_beta)

text \<open>
  C34: a settings request changes the server as a whole or not at all, whatever InfluxDB answers. An
  error reply leaves the server's settings, store and writer as they were and the MQTT client alone: 400,
  with no request to InfluxDB, when the settings are invalid; 502 when the bucket or its retention changes
  and InfluxDB refuses; 500 when the settings file cannot be written, by when the bucket may already have
  been changed. A success has saved and installed exactly the normalised settings of the request,
  which are valid; the store is kept, the consumer is set to their broker and topic; and when an
  InfluxDB is configured and they name another bucket or retention, InfluxDB has accepted that bucket with
  that retention before the settings are in force.
\<close>

theorem put_settings_all_or_nothing:
  assumes "handlePutSettings urlOk saveOk http now body sv w = ((rep, acts), sv', w')"
  shows "case rep of
      PutFailed st e \<Rightarrow> sv' = sv \<and> acts = [] \<and>
        (st = 400 \<and> w' = w \<and> (\<forall>new. body = Inr new \<longrightarrow> validateSettings urlOk (normalizeSettings new) \<noteq> None) \<or>
         (\<exists>new. body = Inr new \<and> validateSettings urlOk (normalizeSettings new) = None \<and>
            (st = 502 \<and> bucketChanged (normalizeSettings new) (ad_settings sv) \<and>
               (\<exists>iw err. ad_influx sv = Some iw \<and>
                  ensureBucket http (set_Bucket (normalizeSettings new)) (set_RetentionDays (normalizeSettings new)) iw w =
                    (Some err, w')) \<or>
             st = 500 \<and> \<not> saveOk \<and> bucketInPlace http (normalizeSettings new) sv w w')))
    | PutOK saved \<Rightarrow> saveOk \<and>
        (\<exists>new. body = Inr new \<and> saved = normalizeSettings new) \<and> validateSettings urlOk saved = None \<and>
        ad_settings sv' = saved \<and> ad_store sv' = ad_store sv \<and>
        mc_broker (ad_mqtt sv') = set_BrokerURL saved \<and> mc_topic (ad_mqtt sv') = set_DataTopic saved \<and>
        (\<exists>w1. bucketInPlace http saved sv w w1 \<and>
           snd (putMeta http now (sv\<lparr>ad_settings := saved, ad_mqtt := ad_mqtt sv'\<rparr>) w1) = w')"
proof (cases "\<exists>new. body = Inr new \<and> validateSettings urlOk (normalizeSettings new) = None")
  case False
  with assms show ?thesis by (cases body) (auto simp: handlePutSettings_def Let_def split: option.splits)
next
  case True
  then obtain new where b: "body = Inr new" and valid: "validateSettings urlOk (normalizeSettings new) = None" by blast
  let ?new = "normalizeSettings new"
  obtain err w1 where p: "putBucket http ?new sv w = (err, w1)" by fastforce
  consider (refused) e where "err = Some e" | (unsaved) "err = None" "\<not> saveOk" | (saved) "err = None" "saveOk"
    by (cases err) auto
  then show ?thesis
  proof cases
    case (refused e)
    with assms b valid p putBucket_cases [OF p] show ?thesis by (auto simp: handlePutSettings_def Let_def)
  next
    case unsaved
    with assms b valid p have "rep = PutFailed 500 ''save failed''" "acts = []" "sv' = sv" "w' = w1"
      using handlePut_ok(2) [of urlOk new http sv w w1 now] by simp_all
    with unsaved b valid putBucket_inPlace p show ?thesis by simp
  next
    case saved
    obtain acts1 mq where a: "applyConsumer (set_BrokerURL ?new) (set_DataTopic ?new) (ad_mqtt sv) = (acts1, mq)" by fastforce
    obtain sv2 w2 where m: "putMeta http now (sv\<lparr>ad_settings := ?new, ad_mqtt := mq\<rparr>) w1 = (sv2, w2)" by fastforce
    have "rep = PutOK ?new" "sv' = sv2" "w' = w2"
      using assms b valid p a m saved by (simp_all add: handlePutSettings_def Let_def setSettings_normal)
    moreover have "bucketInPlace http ?new sv w w1" using putBucket_inPlace p saved by simp
    ultimately show ?thesis using b valid saved putMeta_keeps [OF m] applyConsumer_target [OF a] m by auto
  qed
qed

definition keepLonger :: srvSettings where
  "keepLonger = adminSettings\<lparr>set_RetentionDays := 60, set_BrokerURL := ''tcp://emqx:1883''\<rparr>"

lemma keepLonger_valid: "validateSettings (\<lambda>_. True) (normalizeSettings keepLonger) = None"
  "normalizeSettings keepLonger = keepLonger"
  by code_simp+

text \<open>An exchange that gives every request the same status, and counts the requests.\<close>

definition alwaysStatus :: "int \<Rightarrow> nat exchange" where
  "alwaysStatus st req n = (Inr \<lparr>rp_status = st, rp_text = [], rp_ids = Inr [''a'']\<rparr>, Suc n)"

theorem put_settings_all_or_nothing_witness:
  "(let ((rep, acts), sv, n) = handlePutSettings (\<lambda>_. True) True (alwaysStatus 503) 0 (Inr keepLonger) adminSample 0
    in rep = PutFailed 502 ''InfluxDB bucket'' \<and> sv = adminSample \<and> acts = [] \<and> n = 1) \<and>
   (let ((rep, acts), sv, n) = handlePutSettings (\<lambda>_. True) True (alwaysStatus 200) 0 (Inr keepLonger) adminSample 0
    in ad_settings sv = keepLonger \<and> mc_broker (ad_mqtt sv) = ''tcp://emqx:1883'')"
proof -
  let ?refused = "handlePutSettings (\<lambda>_. True) True (alwaysStatus 503) 0 (Inr keepLonger) adminSample 0"
  let ?granted = "handlePutSettings (\<lambda>_. True) True (alwaysStatus 200) 0 (Inr keepLonger) adminSample 0"
  obtain acts sv n where r: "?refused = ((PutFailed 502 ''InfluxDB bucket'', acts), sv, n)" "n = 1"
  proof -
    have "putBucket (alwaysStatus 503) keepLonger adminSample 0 = (Some (Status 503 []), 1)"
      by (simp add: putBucket_def adminSample_def keepLonger_def adminSettings_def ensureBucket_def influxDo_def
          alwaysStatus_def isNotFound_def Let_def)
    then show ?thesis using keepLonger_valid that by (simp add: handlePutSettings_def Let_def)
  qed
  have "putBucket (alwaysStatus 200) keepLonger adminSample 0 = (None, 2)"
    by (simp add: putBucket_def adminSample_def keepLonger_def adminSettings_def ensureBucket_def influxDo_def
        alwaysStatus_def Let_def)
  then have "fst (fst ?granted) = PutOK keepLonger"
    by (rule handlePut_ok(1) [OF keepLonger_valid(1), unfolded keepLonger_valid(2)])
  then obtain acts' sv' n' where g: "?granted = ((PutOK keepLonger, acts'), sv', n')"
    by (metis prod.collapse)
  show ?thesis
    using put_settings_all_or_nothing [OF r(1)] put_settings_all_or_nothing [OF g] r(2) unfolding r(1) g
    by (simp add: keepLonger_def)
qed

text \<open>
  A save that fails comes too late for the bucket: the reply is an error and the settings stay, but
  InfluxDB has already accepted the new retention.
\<close>

lemma failed_save_changes_bucket:
  assumes "ad_influx sv = Some iw" "validateSettings urlOk (normalizeSettings new) = None"
    and "bucketChanged (normalizeSettings new) (ad_settings sv)"
    and "ensureBucket http (set_Bucket (normalizeSettings new)) (set_RetentionDays (normalizeSettings new)) iw w = (None, w')"
  shows "handlePutSettings urlOk False http now (Inr new) sv w = ((PutFailed 500 ''save failed'', []), sv, w')"
    and "bucketAccepted http (set_Bucket (normalizeSettings new)) (set_RetentionDays (normalizeSettings new)) iw w w'"
proof -
  have "putBucket http (normalizeSettings new) sv w = (None, w')"
    using assms(1,3,4) by (auto simp: putBucket_def bucketChanged_def)
  with assms(2) show "handlePutSettings urlOk False http now (Inr new) sv w = ((PutFailed 500 ''save failed'', []), sv, w')"
    by (rule handlePut_ok(2))
  show "bucketAccepted http (set_Bucket (normalizeSettings new)) (set_RetentionDays (normalizeSettings new)) iw w w'"
    by (rule ensureBucket_accepted [OF assms(4)])
qed

section \<open>Topics\<close>

text \<open>Matching of a topic against a subscription, level by level, as MQTT defines it.\<close>

fun topicMatches :: "string list \<Rightarrow> string list \<Rightarrow> bool" where
  "topicMatches [] [] = True"
| "topicMatches [] (t # ts) = False"
| "topicMatches (f # fs) ts =
     (f = ''#'' \<or> (case ts of [] \<Rightarrow> False | t # ts \<Rightarrow> (f = ''+'' \<or> f = t) \<and> topicMatches fs ts))"

lemma splitOn_append: "c \<notin> set x \<Longrightarrow> splitOn c (x @ c # s) = x # splitOn c s"
  by (induction x) auto

lemma splitOn_none: "c \<notin> set x \<Longrightarrow> splitOn c x = [x]"
  by (induction x) auto

lemma splitOn_two: "2 \<le> length (splitOn (CHR ''/'') (b @ ''/data''))"
  by (induction b) (auto split: list.splits)

lemma trimSuffix_append: "trimSuffix (s @ suf) suf = s"
  by (simp add: trimSuffix_def hasSuffix_def)

text \<open>
  Gateway and server agree on their topics out of the box. With the topics the gateway's
  configuration defaults to, the server's default subscription receives the gateway's messages, and
  the server sends each acknowledgement to the very topic the gateway listens on. The client id must
  not contain a slash: with one the acknowledgement topic still agrees, but the subscription no
  longer matches.
\<close>

theorem default_topics_agree:
  assumes "mf_DataTopic m = []" "mf_AckTopic m = []" "cid = orStr gatewayID (mf_ClientID m)"
  shows "(topicMatches (splitOn (CHR ''/'') (set_DataTopic (serverDefaults env atoiEnv broker ''gateway/+/data'')))
        (splitOn (CHR ''/'') (mf_DataTopic (defaultMQTT gatewayID m))) \<longleftrightarrow> CHR ''/'' \<notin> set cid) \<and>
    ackTopicFor (mf_DataTopic (defaultMQTT gatewayID m)) = mf_AckTopic (defaultMQTT gatewayID m)"
proof -
  let ?t = "''gateway/'' @ cid @ ''/data''"
  have data: "mf_DataTopic (defaultMQTT gatewayID m) = ?t" "mf_AckTopic (defaultMQTT gatewayID m) = ''gateway/'' @ cid @ ''/ack''"
    using assms by (simp_all add: defaultMQTT_def Let_def orStr_def)
  have f: "splitOn (CHR ''/'') ''gateway/+/data'' = [''gateway'', ''+'', ''data'']" by code_simp
  have t: "splitOn (CHR ''/'') ?t = ''gateway'' # splitOn (CHR ''/'') (cid @ ''/data'')"
    using splitOn_append [of "CHR ''/''" "''gateway''" "cid @ ''/data''"] by simp
  have "topicMatches [''gateway'', ''+'', ''data''] (splitOn (CHR ''/'') ?t) \<longleftrightarrow> CHR ''/'' \<notin> set cid"
  proof (cases "CHR ''/'' \<in> set cid")
    case False
    then show ?thesis
      using t splitOn_append [OF False, of "''data''"] splitOn_none [of "CHR ''/''" "''data''"] by simp
  next
    case True
    then obtain a b where "cid = a @ CHR ''/'' # b" "CHR ''/'' \<notin> set a" using split_list_first by metis
    then have "splitOn (CHR ''/'') (cid @ ''/data'') = a # splitOn (CHR ''/'') (b @ ''/data'')"
      using splitOn_append [of "CHR ''/''" a "b @ ''/data''"] by simp
    moreover have "2 \<le> length (splitOn (CHR ''/'') (b @ ''/data''))" by (rule splitOn_two)
    ultimately show ?thesis using t True by (auto simp: numeral_2_eq_2 Suc_le_length_iff split: list.splits)
  qed
  moreover have "ackTopicFor ?t = ''gateway/'' @ cid @ ''/ack''"
    using trimSuffix_append [of "''gateway/'' @ cid" "''/data''"] by (simp add: ackTopicFor_def)
  ultimately show ?thesis by (simp add: data serverDefaults_def f)
qed

theorem default_topics_agree_witness:
  "ackTopicFor (mf_DataTopic (defaultMQTT ''GW1'' (cf_MQTT emptyConfig))) = ''gateway/GW1/ack'' \<and>
   topicMatches (splitOn (CHR ''/'') (set_DataTopic (serverDefaults (\<lambda>_. []) (\<lambda>_. None) [] ''gateway/+/data'')))
     (splitOn (CHR ''/'') (mf_DataTopic (defaultMQTT ''GW1'' (cf_MQTT emptyConfig))))"
  using default_topics_agree [of "cf_MQTT emptyConfig" "''GW1''" "''GW1''" "\<lambda>_. []" "\<lambda>_. None" "[]"]
  by (simp add: emptyConfig_def defaultMQTT_def orStr_def Let_def)

end
