(* ===== verification/GatewayMain.thy ===== *)
theory GatewayMain
  imports Config Pipeline Storage Logger
begin

text \<open>
  The gateway process, \<^verbatim>\<open>src/cmd/gateway/main.go\<close>, and the development seed
  (\<^verbatim>\<open>devseed.go\<close>): the order in which the parts are started, what stops the start, and the two
  ways the process ends.

  What the parts do is in their own theories; here the results of opening them are arguments. A
  deferred call runs when \<^verbatim>\<open>main\<close> returns, after the pollers have stopped, and does not run
  when something calls \<^verbatim>\<open>os.Exit\<close>.

  The results: a process that is told to stop keeps every reading, also those its pollers deliver
  while they stop; one that leaves through \<^verbatim>\<open>os.Exit\<close> keeps only what was already in the file;
  without Store & Forward nothing of it is opened; the seed cannot insert its device.
\<close>

section \<open>Environment\<close>

definition overrideWith :: "string \<Rightarrow> string \<Rightarrow> string" where
  "overrideWith v old = (if v \<noteq> [] then v else old)"

definition applyEnv :: "(string \<Rightarrow> string) \<Rightarrow> config \<Rightarrow> config" where
  "applyEnv env cfg =
     cfg\<lparr>cf_Forwarder := (cf_Forwarder cfg)
           \<lparr>fc_ServerURL := overrideWith (env ''FORWARDER_SERVER_URL'') (fc_ServerURL (cf_Forwarder cfg)),
            fc_Transport := overrideWith (env ''FORWARDER_TRANSPORT'') (fc_Transport (cf_Forwarder cfg))\<rparr>,
         cf_MQTT := (cf_MQTT cfg)\<lparr>mf_BrokerURL := overrideWith (env ''MQTT_BROKER_URL'') (mf_BrokerURL (cf_MQTT cfg))\<rparr>,
         cf_Time := (cf_Time cfg)\<lparr>tm_NTPServer := overrideWith (env ''NTP_SERVER'') (tm_NTPServer (cf_Time cfg))\<rparr>\<rparr>"

text \<open>The options given to \<^verbatim>\<open>queue.Open\<close>; durations are 64-bit products.\<close>

definition queueOptionsOf :: "config \<Rightarrow> queue_options" where
  "queueOptionsOf cfg =
     \<lparr>opt_MaxBytes = qc_MaxBytes (cf_Queue cfg), opt_MinFreePercent = qc_MinFreePercent (cf_Queue cfg),
      opt_FlushInterval = durationOf (qc_FlushIntervalMs (cf_Queue cfg)) nanosPerMilli,
      opt_MaintenanceInterval = durationOf (qc_MaintenanceIntervalSec (cf_Queue cfg)) nanosPerSecond,
      opt_MaxUnflushedChunks = 0,
      opt_DiskUsage = True\<rparr>"


section \<open>The development seed\<close>

text \<open>
  The three data points of the seed. An \<^verbatim>\<open>INSERT\<close> that names a column its table does not have
  fails; \<open>schema\<close> gives the columns of a table, and the remaining failures of a statement are
  \<open>ok\<close>. \<open>devices\<close> is the number of devices, if it can be read.
\<close>

datatype seedOutcome = SeedCheckFailed | SeedSkipped | SeedInsertFailed | SeedIDFailed | Seeded int "string list"

definition sqlInsert :: "(string \<Rightarrow> string list) \<Rightarrow> string \<Rightarrow> string list \<Rightarrow> bool \<Rightarrow> bool" where
  "sqlInsert schema table cols ok \<longleftrightarrow> set cols \<subseteq> set (schema table) \<and> ok"

definition seedDeviceColumns :: "string list" where
  "seedDeviceColumns = [''name'', ''protocol'', ''ip_address'', ''slave_id'', ''port'', ''polling_interval_ms'', ''timeout_ms'',
     ''retry'', ''enabled'']"

definition seedPointColumns :: "string list" where
  "seedPointColumns = [''device_id'', ''tag_name'', ''function_code'', ''register_address'', ''data_type'', ''byte_order'',
     ''scale'', ''unit'', ''polling_interval_ms'', ''enabled'']"

definition seedTags :: "string list" where
  "seedTags = [''Voltage_L1'', ''Active_Power'', ''Current_L1'']"

definition seedDemoDevice :: "(string \<Rightarrow> string list) \<Rightarrow> (string \<Rightarrow> bool) \<Rightarrow> int option \<Rightarrow> int option \<Rightarrow> seedOutcome" where
  "seedDemoDevice schema ok devices lastID =
     (case devices of
        None \<Rightarrow> SeedCheckFailed
      | Some n \<Rightarrow>
          (if n > 0 then SeedSkipped
           else if \<not> sqlInsert schema ''device'' seedDeviceColumns (ok ''device'') then SeedInsertFailed
           else case lastID of
                  None \<Rightarrow> SeedIDFailed
                | Some i \<Rightarrow> Seeded i (filter (\<lambda>tag. sqlInsert schema ''datapoint'' seedPointColumns (ok tag)) seedTags)))"

text \<open>The columns of the device table after the migrations (0004 rebuilds it, 0005 drops one).\<close>

definition deviceColumns :: "string list" where
  "deviceColumns = [''id'', ''name'', ''connection_id'', ''slave_id'', ''enabled'', ''created_at'', ''updated_at'']"

lemma seed_never_inserts:
  "schema ''device'' = deviceColumns \<Longrightarrow> seedDemoDevice schema ok (Some 0) lastID = SeedInsertFailed"
  by (simp add: seedDemoDevice_def sqlInsert_def seedDeviceColumns_def deviceColumns_def)

section \<open>The start\<close>

text \<open>
  What the outside world answers: the configuration file, the database, the queue, the broker. The
  rows a seed inserts are not followed further: under the migrated schema there are none.
\<close>

record bootWorld =
  bw_config :: "string + config"
  bw_getenv :: "string \<Rightarrow> string"
  bw_database :: "storageErr + confdb"
  bw_deviceSchema :: "string \<Rightarrow> string list"
  bw_seedOk :: "string \<Rightarrow> bool"
  bw_seedID :: "int option"
  bw_queueIO :: init_io
  bw_newID :: string
  bw_queueFile :: queue_db
  bw_reloadOk :: bool
  bw_tlsFiles :: tlsFiles
  bw_connectErr :: "mqttAdapter \<Rightarrow> string option"
  bw_now :: gotime

record gatewayProcess =
  gp_config :: config
  gp_queue :: "store option"
  gp_running :: running
  gp_adapter :: "adapterKind option"
  gp_seed :: "seedOutcome option"

datatype bootError = LoadPanic string | OpenDatabase storageErr | OpenQueue queue_err | InitAdapter string

definition bootQueue :: "bootWorld \<Rightarrow> config \<Rightarrow> bootError + store option" where
  "bootQueue w cfg =
     (if cf_StoreForwardDisabled cfg then Inr None
      else case openStore (bw_queueIO w) (bw_newID w) (queueOptionsOf cfg) (bw_queueFile w) of
        Inl e \<Rightarrow> Inl (OpenQueue e) | Inr q \<Rightarrow> Inr (Some q))"

definition bootAdapter :: "bootWorld \<Rightarrow> config \<Rightarrow> bootError + adapterKind option" where
  "bootAdapter w cfg =
     (if cf_StoreForwardDisabled cfg then Inr None
      else case buildAdapter (bw_tlsFiles w) (bw_connectErr w) (bw_now w) cfg of
        Inl e \<Rightarrow> Inl (InitAdapter e) | Inr (a, warn, watchdog) \<Rightarrow> Inr (Some a))"

definition boot :: "bootWorld \<Rightarrow> bootError + gatewayProcess" where
  "boot w =
     (case bw_config w of
        Inl e \<Rightarrow> Inl (LoadPanic e)
      | Inr cfg \<Rightarrow>
     (case bw_database w of
        Inl e \<Rightarrow> Inl (OpenDatabase e)
      | Inr db \<Rightarrow>
          (let seed = (if bw_getenv w ''SEED_DEMO_DEVICE'' = ''true''
                then Some (seedDemoDevice (bw_deviceSchema w) (bw_seedOk w) (Some (int (length (cf_device db)))) (bw_seedID w)) else None);
               cfg = applyEnv (bw_getenv w) cfg
           in case bootQueue w cfg of
                Inl e \<Rightarrow> Inl e
              | Inr q \<Rightarrow>
                  (let run = fst (reload (bw_reloadOk w) db Map.empty) in
                   case bootAdapter w cfg of
                     Inl e \<Rightarrow> Inl e
                   | Inr a \<Rightarrow> Inr \<lparr>gp_config = cfg, gp_queue = q, gp_running = run, gp_adapter = a, gp_seed = seed\<rparr>))))"

section \<open>The end\<close>

text \<open>
  \<open>Signalled late\<close>: the context is cancelled, the pollers deliver \<open>late\<close> while they stop,
  \<^verbatim>\<open>manager.Wait\<close> returns, and the deferred calls run, \<^verbatim>\<open>q.Close\<close> among them. \<open>Exited\<close>:
  \<^verbatim>\<open>os.Exit\<close>, called after the settings were saved or when the API server fails. The result is
  the queue file.
\<close>

datatype processEnd = Signalled "acqReading list" | Exited

definition endProcess :: "(byte list \<Rightarrow> byte list) \<Rightarrow> bool \<Rightarrow> bool \<Rightarrow> processEnd \<Rightarrow> store \<Rightarrow> queue_db" where
  "endProcess deflate ioFlush ioClose e q =
     (case e of
        Signalled late \<Rightarrow> st_db (snd (closeStore deflate ioFlush ioClose (fold processReading late q)))
      | Exited \<Rightarrow> st_db q)"

lemma processReading_append: "processReading r = append_reading (queuedAs r)"
  by (simp add: processReading_def queuedAs_def)

lemma fold_processReading:
  "st_buf (fold processReading rs q) = st_buf q @ map queuedAs rs"
  "st_unflushed (fold processReading rs q) = st_unflushed q" "st_db (fold processReading rs q) = st_db q"
  "st_opts (fold processReading rs q) = st_opts q"
  by (induction rs arbitrary: q) (simp_all add: processReading_append append_reading_def)

lemma fold_processReading_inv: "storeInv q \<Longrightarrow> storeInv (fold processReading rs q)"
  by (induction rs arbitrary: q) (simp_all add: processReading_append append_reading_ok)

lemma openStore_contents:
  assumes "openStore io newID opts db = Inr s"
  shows "contents inflate s = tableReadings inflate (db_chunk db)"
  using assms by (auto simp: openStore_def init_def initStream_def emptyStore_def contents_def store_simps
      split: if_splits sum.splits option.splits)

lemma flush_empties:
  assumes "chunkable (st_buf s)"
  shows "st_buf (snd (flush deflate True s)) = [] \<and> st_unflushed (snd (flush deflate True s)) = []"
  using chunkable_encodes [OF assms, of deflate]
  by (auto simp: flush_def flushPrepare_def insertChunks_def flushWritten_def Let_def store_simps)


lemma closeStore_db: "st_db (snd (closeStore deflate io ioClose s)) = st_db (snd (flush deflate io s))"
  by (simp add: closeStore_def split: prod.splits)

lemma signalled_file:
  assumes flate: "\<And>xs. inflate (deflate xs) = Some xs" and inv: "storeInv q"
    and fits: "chunkable (st_buf q @ map queuedAs late)"
  shows "tableReadings inflate (db_chunk (endProcess deflate True ioClose (Signalled late) q)) =
    contents inflate q @ map (truncReading \<circ> queuedAs) late"
proof -
  let ?q = "fold processReading late q"
  let ?f = "snd (flush deflate True ?q)"
  have buf: "chunkable (st_buf ?q)" using fits by (simp add: fold_processReading)
  have "contents inflate ?f = contents inflate ?q"
    using flush_contents [where inflate = inflate and deflate = deflate and io = True, OF flate buf fold_processReading_inv [OF inv]]
    by simp
  moreover have "contents inflate ?q = contents inflate q @ map (truncReading \<circ> queuedAs) late"
    by (simp add: contents_def fold_processReading)
  moreover have "contents inflate ?f = tableReadings inflate (db_chunk (st_db ?f))"
    using flush_empties [OF buf, of deflate] by (simp add: contents_def)
  ultimately show ?thesis by (simp add: endProcess_def closeStore_db)
qed

text \<open>
  C18: stopping the gateway loses nothing, leaving it does. After a signal, with readings that fit
  the chunk format and a last flush that succeeds, the process started next finds in its queue
  exactly what the queue held, and after it every reading the pollers still delivered, in order.
  After \<^verbatim>\<open>os.Exit\<close> (a saved settings page, a failed API server) it finds only the part that was
  in the file: what was buffered or waiting to be written is gone.
\<close>

theorem stop_keeps_exit_loses:
  assumes "\<And>xs. inflate (deflate xs) = Some xs" "storeInv q" "chunkable (st_buf q @ map queuedAs late)"
    and "openStore io newID opts (endProcess deflate True ioClose (Signalled late) q) = Inr s1"
    and "openStore io newID opts (endProcess deflate True ioClose Exited q) = Inr s2"
  shows "contents inflate s1 = contents inflate q @ map (truncReading \<circ> queuedAs) late \<and>
    contents inflate q = contents inflate s2 @
      concat (map (\<lambda>c. blobReadings inflate (pc_data c)) (st_unflushed q)) @ map truncReading (st_buf q)"
proof -
  have "contents inflate s1 = contents inflate q @ map (truncReading \<circ> queuedAs) late"
    using openStore_contents [OF assms(4)]
      signalled_file [where inflate = inflate and deflate = deflate, OF assms(1-3)] by simp
  moreover have "contents inflate s2 = tableReadings inflate (db_chunk (st_db q))"
    using openStore_contents [OF assms(5)] by (simp add: endProcess_def)
  ultimately show ?thesis by (simp add: contents_def [of inflate q])
qed

definition goodIO :: init_io where
  "goodIO = \<lparr>ii_statements = True, ii_readStream = True, ii_writeStream = True, ii_counters = True, ii_bounds = True,
     ii_size = None\<rparr>"

lemma goodIO_opens: "\<exists>s. openStore goodIO newID opts db = Inr s"
  by (auto simp: goodIO_def openStore_def init_def initStream_def split: option.splits)

text \<open>A queue with one reading in its buffer: kept by a stop, lost by an exit.\<close>

theorem stop_keeps_exit_loses_witness:
  "\<exists>s1 s2. openStore goodIO ''x'' zeroOptions (endProcess storedDeflate True True (Signalled []) sampleStore) = Inr s1 \<and>
     openStore goodIO ''x'' zeroOptions (endProcess storedDeflate True True Exited sampleStore) = Inr s2 \<and>
     contents storedInflate s1 = [truncReading sampleReading] \<and> contents storedInflate s2 = []"
proof -
  obtain s1 where s1: "openStore goodIO ''x'' zeroOptions (endProcess storedDeflate True True (Signalled []) sampleStore) = Inr s1"
    using goodIO_opens by blast
  obtain s2 where s2: "openStore goodIO ''x'' zeroOptions (endProcess storedDeflate True True Exited sampleStore) = Inr s2"
    using goodIO_opens by blast
  have "contents storedInflate sampleStore = [truncReading sampleReading]"
    by (simp add: contents_def sampleStore_ok(3,4))
      (simp add: sampleStore_def append_reading_def emptyStore_def freshDb_def tableReadings_def)
  with stop_keeps_exit_loses [where inflate = storedInflate and deflate = storedDeflate and late = "[]",
      OF storedInflate_storedDeflate sampleStore_ok(1) _ s1 s2] sampleStore_ok(2) s1 s2
  show ?thesis by (intro exI [of _ s1] exI [of _ s2]) (simp add: sampleStore_ok(3,4))
qed

section \<open>Which parts run\<close>

text \<open>
  Without Store & Forward neither queue nor adapter is opened, so a broken queue file or transport
  does not stop the start; with it, both are there. Acquisition is started either way.
\<close>

lemma boot_parts:
  assumes "boot w = Inr p"
  shows "(gp_queue p = None \<longleftrightarrow> cf_StoreForwardDisabled (gp_config p)) \<and>
    (gp_adapter p = None \<longleftrightarrow> cf_StoreForwardDisabled (gp_config p)) \<and>
    (\<exists>db. bw_database w = Inr db \<and> gp_running p = fst (reload (bw_reloadOk w) db Map.empty))"
  using assms by (auto simp: boot_def bootQueue_def bootAdapter_def Let_def split: sum.splits if_splits prod.splits)

lemma boot_disabled_starts:
  assumes "bw_config w = Inr cfg" "bw_database w = Inr db" "cf_StoreForwardDisabled cfg"
  shows "\<exists>p. boot w = Inr p"
  using assms by (simp add: boot_def bootQueue_def bootAdapter_def applyEnv_def Let_def)

lemma mqtt_broker_down_starts:
  assumes "bw_config w = Inr cfg" "bw_database w = Inr db"
    and "openStore (bw_queueIO w) (bw_newID w) (queueOptionsOf (applyEnv (bw_getenv w) cfg)) (bw_queueFile w) = Inr q"
    and "fc_Transport (cf_Forwarder (applyEnv (bw_getenv w) cfg)) = ''mqtt''"
    and "buildMQTTTLSConfig (bw_tlsFiles w) (mf_TLS (cf_MQTT (applyEnv (bw_getenv w) cfg))) = Inr tls"
  shows "\<exists>p. boot w = Inr p"
  using assms by (simp add: boot_def bootQueue_def bootAdapter_def buildAdapter_def Let_def)

end
