(* ===== verification/Calendar.thy ===== *)
theory Calendar
  imports ServerDemo TimeService
begin

text \<open>
  The civil calendar behind two parts of the code: the wire format of instants
  (\<^verbatim>\<open>src/internal/forwarder/wire.go\<close>, which the receiving side compares as strings in
  \<^verbatim>\<open>src/cmd/server-demo/store.go\<close>) and the hardware clock (\<^verbatim>\<open>src/internal/time/rtc_linux.go\<close>),
  with the access to the two clocks of the host.

  \<open>civilDate\<close> turns a day number into a date, as \<^verbatim>\<open>Time.Date\<close> does; \<open>daysOf\<close> is the
  way back, \<^verbatim>\<open>time.Date\<close>, with the table of days before each month. Opening a device and its
  \<^verbatim>\<open>ioctl\<close> calls are arguments.

  The results: the two directions are inverse to each other and dates grow with time; what is
  written to the hardware clock is read back to the second; the strings of the wire format are
  ordered as the instants they stand for, for the years the format has digits for.
\<close>

section \<open>Dates\<close>

lemma div_bounds: "0 < k \<Longrightarrow> k * (x div k) \<le> x \<and> x < k * (x div k) + k" for k x :: int
  by (metis add.commute add_less_cancel_left pos_mod_bound pos_mod_sign le_add_same_cancel2 mult_div_mod_eq)

text \<open>The year of an era (400 years, from March) and the day of that year, from the day of the era.\<close>

definition eraYear :: "int \<Rightarrow> int" where
  "eraYear doe = (doe - doe div 1460 + doe div 36524 - doe div 146096) div 365"

definition eraDay :: "int \<Rightarrow> int" where
  "eraDay doe = doe - (365 * eraYear doe + eraYear doe div 4 - eraYear doe div 100)"

lemma era_bounds:
  assumes "0 \<le> doe" "doe < 146097"
  shows "0 \<le> eraYear doe \<and> eraYear doe < 400 \<and> 0 \<le> eraDay doe \<and> eraDay doe \<le> 366"
proof -
  define yoe where "yoe = eraYear doe"
  define a where "a = doe div 1460"
  define b where "b = doe div 36524"
  define c where "c = doe div 146096"
  define p where "p = yoe div 4"
  define q where "q = yoe div 100"
  have 1: "1460 * a \<le> doe" "doe < 1460 * a + 1460" using div_bounds [of 1460 doe] by (auto simp: a_def)
  have 2: "36524 * b \<le> doe" "doe < 36524 * b + 36524" using div_bounds [of 36524 doe] by (auto simp: b_def)
  have 3: "146096 * c \<le> doe" "doe < 146096 * c + 146096" using div_bounds [of 146096 doe] by (auto simp: c_def)
  have 4: "4 * p \<le> yoe" "yoe < 4 * p + 4" using div_bounds [of 4 yoe] by (auto simp: p_def)
  have 5: "100 * q \<le> yoe" "yoe < 100 * q + 100" using div_bounds [of 100 yoe] by (auto simp: q_def)
  have 6: "365 * yoe \<le> doe - a + b - c" "doe - a + b - c < 365 * yoe + 365"
    using div_bounds [of 365 "doe - a + b - c"] by (auto simp: yoe_def eraYear_def a_def b_def c_def)
  have b: "b = 0 \<or> b = 1 \<or> b = 2 \<or> b = 3 \<or> b = 4" using 2 assms by auto
  have c: "c = 0 \<or> c = 1" using 3 assms by auto
  have y: "0 \<le> yoe \<and> yoe < 400" using b c 1 2 3 6 assms by auto
  have "b \<le> q + c" using b c 1 2 3 5 6 assms by (elim disjE) simp_all
  moreover have "p \<le> a" using b c 1 2 3 4 6 assms by (elim disjE) simp_all
  moreover have "a \<le> p + 1" using b c 1 2 3 4 6 assms by (elim disjE) simp_all
  moreover have "q \<le> b - c + 1" using b c 1 2 3 5 6 assms by (elim disjE) simp_all
  ultimately show ?thesis using 6 y by (simp add: eraDay_def p_def q_def flip: yoe_def)
qed

definition daysBefore :: "int \<Rightarrow> int" where
  "daysBefore m = [0, 31, 59, 90, 120, 151, 181, 212, 243, 273, 304, 334] ! nat (m - 1)"

definition isLeap :: "int \<Rightarrow> bool" where
  "isLeap y \<longleftrightarrow> 4 dvd y \<and> (\<not> 100 dvd y \<or> 400 dvd y)"

text \<open>\<^verbatim>\<open>time.Date\<close> to the day: a month outside the year is carried into it, a day is just added.\<close>

definition daysOf :: "int \<Rightarrow> int \<Rightarrow> int \<Rightarrow> int" where
  "daysOf year month day =
     (let y = year + (month - 1) div 12; m = (month - 1) mod 12 + 1
      in yearStart y + daysBefore m + (if isLeap y \<and> m > 2 then 1 else 0) + (day - 1))"

text \<open>The month of a year that starts in March (0 to 11), and \<open>civilDate\<close> in these terms.\<close>

definition marchMonth :: "int \<Rightarrow> int" where
  "marchMonth doy = (5 * doy + 2) div 153"

definition eraOf :: "int \<Rightarrow> int" where "eraOf days = (days + 719468) div 146097"
definition doeOf :: "int \<Rightarrow> int" where "doeOf days = (days + 719468) mod 146097"

lemma doe_range: "0 \<le> doeOf days \<and> doeOf days < 146097"
  by (simp add: doeOf_def)

lemmas era_of_day = era_bounds [OF conjunct1 [OF doe_range] conjunct2 [OF doe_range]]

lemma marchMonth_range:
  assumes "0 \<le> doy" "doy \<le> 366"
  shows "0 \<le> marchMonth doy" "marchMonth doy \<le> 11"
  using div_bounds [of 153 "5 * doy + 2"] assms by (simp_all add: marchMonth_def)

lemma civilDate_eq:
  "civilDate days =
     (let doe = doeOf days; mp = marchMonth (eraDay doe)
      in (eraYear doe + eraOf days * 400 + (if mp < 10 then 0 else 1), if mp < 10 then mp + 3 else mp - 9,
          eraDay doe - (153 * mp + 2) div 5 + 1))"
proof -
  have "(days + 719468) - (days + 719468) div 146097 * 146097 = doeOf days"
    by (simp add: doeOf_def minus_div_mult_eq_mod)
  moreover have "0 \<le> marchMonth (eraDay (doeOf days))" "marchMonth (eraDay (doeOf days)) \<le> 11"
    using marchMonth_range era_of_day [of days] by blast+
  ultimately show ?thesis
    unfolding civilDate_def Let_def eraYear_def [symmetric] eraDay_def [symmetric] marchMonth_def [symmetric] eraOf_def [symmetric]
    by (simp add: eraYear_def [symmetric] eraDay_def [symmetric] marchMonth_def [symmetric] eraOf_def [symmetric])
qed

lemma months_case:
  fixes mp :: int
  assumes "0 \<le> mp" "mp \<le> 11"
  obtains "mp = 0" | "mp = 1" | "mp = 2" | "mp = 3" | "mp = 4" | "mp = 5" | "mp = 6" | "mp = 7" | "mp = 8" | "mp = 9"
    | "mp = 10" | "mp = 11"
proof -
  have "mp = 0 \<or> mp = 1 \<or> mp = 2 \<or> mp = 3 \<or> mp = 4 \<or> mp = 5 \<or> mp = 6 \<or> mp = 7 \<or> mp = 8 \<or> mp = 9 \<or> mp = 10 \<or> mp = 11"
    using assms by presburger
  then show thesis using that by blast
qed

lemma div_eqI: "0 < k \<Longrightarrow> k * q \<le> x \<Longrightarrow> x < k * q + k \<Longrightarrow> x div k = q" for k q x :: int
  using int_div_pos_eq [of x k q "x - k * q"] by simp

lemma div_Suc: "0 < k \<Longrightarrow> (z + 1) div k = z div k + (if k dvd z + 1 then 1 else 0)" for k z :: int
proof (cases "k dvd z + 1")
  case True
  then obtain c where c: "z + 1 = k * c" by blast
  assume "0 < k"
  moreover from this have "z div k = c - 1" using c by (intro div_eqI) (auto simp: algebra_simps)
  ultimately show ?thesis using True c by simp
next
  case False
  assume k: "0 < k"
  have "z + 1 \<noteq> k * (z div k) + k" using False by (metis dvd_triv_left dvd_add_left_iff dvd_refl)
  then have "(z + 1) div k = z div k" using div_bounds [OF k, of z] by (intro div_eqI [OF k]) auto
  then show ?thesis using False by simp
qed

lemma div_shift: "0 < k \<Longrightarrow> k dvd c \<Longrightarrow> (y + 1 - (c + 1)) div k = (y - (c + 1)) div k + of_bool (k dvd y)"
  for k c y :: int
  using div_Suc [of k "y - (c + 1)"] dvd_diff_left_iff [of k c y] by (simp add: add.commute)

lemma isLeap_bool: "of_bool (isLeap y) = of_bool (4 dvd y) - of_bool (100 dvd y) + (of_bool (400 dvd y) :: int)"
proof -
  have "400 dvd y \<Longrightarrow> 100 dvd y" "100 dvd y \<Longrightarrow> 4 dvd y"
    using dvd_trans [of 100 400 y] dvd_trans [of 4 100 y] by simp_all
  then show ?thesis
    unfolding isLeap_def by (cases "4 dvd y"; cases "100 dvd y"; cases "400 dvd y") simp_all
qed

lemma yearStart_Suc: "yearStart (y + 1) = yearStart y + 365 + of_bool (isLeap y)"
  using div_shift [of 4 1968 y] div_shift [of 100 1900 y] div_shift [of 400 1600 y]
  by (simp add: yearStart_def isLeap_bool del: of_bool_eq_iff)

text \<open>The first of January after the March in which a year of the era starts.\<close>

lemma yearStart_era:
  assumes "0 \<le> yoe" "yoe < 400"
  shows "yearStart (yoe + era * 400 + 1) =
    era * 146097 - 719468 + 306 + 365 * yoe + yoe div 4 - yoe div 100"
proof -
  have 1: "(yoe + era * 400 + 1 - 1969) div 4 = yoe div 4 + 100 * era - 492"
    using div_bounds [of 4 yoe] by (intro div_eqI) auto
  have 2: "(yoe + era * 400 + 1 - 1901) div 100 = yoe div 100 + 4 * era - 19"
    using div_bounds [of 100 yoe] by (intro div_eqI) auto
  have 3: "(yoe + era * 400 + 1 - 1601) div 400 = era - 4"
    using assms by (intro div_eqI) auto
  show ?thesis unfolding yearStart_def 1 2 3 by (simp add: algebra_simps)
qed

text \<open>Days to a date and back.\<close>

lemma daysOf_civilDate: "(case civilDate days of (y, m, d) \<Rightarrow> daysOf y m d) = days"
proof -
  define yoe doy era where "yoe = eraYear (doeOf days)" and "doy = eraDay (doeOf days)" and "era = eraOf days"
  define mp where "mp = marchMonth doy"
  have ranges: "0 \<le> yoe" "yoe < 400" "0 \<le> doy" "doy \<le> 366"
    using era_of_day [of days] by (auto simp: yoe_def doy_def)
  have days: "days = era * 146097 - 719468 + 365 * yoe + yoe div 4 - yoe div 100 + doy"
  proof -
    have "days + 719468 = era * 146097 + doeOf days" by (simp add: era_def eraOf_def doeOf_def)
    then show ?thesis by (simp add: yoe_def doy_def eraDay_def)
  qed
  have mp: "0 \<le> mp" "mp \<le> 11" using marchMonth_range ranges by (auto simp: mp_def)
  have date: "civilDate days = (yoe + era * 400 + (if mp < 10 then 0 else 1), if mp < 10 then mp + 3 else mp - 9,
      doy - (153 * mp + 2) div 5 + 1)"
    by (simp add: civilDate_eq Let_def yoe_def doy_def era_def mp_def)
  let ?y = "yoe + era * 400"
  have starts: "yearStart (?y + 1) = days - doy + 306" "yearStart ?y + of_bool (isLeap ?y) = days - doy - 59"
    using yearStart_Suc [of ?y] yearStart_era [OF ranges(1,2), of era] days by simp_all
  have "daysOf (?y + (if mp < 10 then 0 else 1)) (if mp < 10 then mp + 3 else mp - 9) (doy - (153 * mp + 2) div 5 + 1) = days"
  proof (cases "mp < 10")
    case True
    have "mp + 2 = (mp + 3 - 1) mod 12" using True mp by simp
    have "daysBefore (mp + 3) = (153 * mp + 2) div 5 + 59"
      using True by (cases rule: months_case [OF mp]) (simp_all add: daysBefore_def)
    then show ?thesis using True mp starts(2) by (simp add: daysOf_def Let_def add.commute [of 3] of_bool_def)
  next
    case False
    then have "mp = 10 \<or> mp = 11" using mp by linarith
    then show ?thesis using starts(1) by (auto simp: daysOf_def daysBefore_def)
  qed
  then show ?thesis by (simp add: date)
qed


text \<open>Dates in the order of the calendar.\<close>

definition dateLe :: "int \<times> int \<times> int \<Rightarrow> int \<times> int \<times> int \<Rightarrow> bool" where
  "dateLe a b \<longleftrightarrow> (case (a, b) of ((y, m, d), (y', m', d')) \<Rightarrow> y < y' \<or> y = y' \<and> (m < m' \<or> m = m' \<and> d \<le> d'))"

lemma eraYear_mono:
  assumes "a \<le> b"
  shows "eraYear a \<le> eraYear b"
proof -
  define f where "f doe = doe - doe div 1460 + doe div 36524 - doe div 146096" for doe :: int
  have step: "f x \<le> f (x + 1)" for x
    using dvd_trans [of 36524 146096 "x + 1"]
    unfolding f_def div_Suc [of 1460 x, simplified] div_Suc [of 36524 x, simplified] div_Suc [of 146096 x, simplified]
    by simp
  have "f a \<le> f b" using assms by (induction b rule: int_ge_induct) (auto intro: order_trans [OF _ step])
  then show ?thesis by (simp add: eraYear_def f_def zdiv_mono1)
qed

lemma marchMonth_mono: "a \<le> b \<Longrightarrow> marchMonth a \<le> marchMonth b"
  by (simp add: marchMonth_def zdiv_mono1)

lemma civilDate_mono:
  assumes le: "a \<le> b"
  shows "dateLe (civilDate a) (civilDate b)"
proof -
  define Y M where "Y d = eraYear (doeOf d) + eraOf d * 400" and "M d = marchMonth (eraDay (doeOf d))" for d
  have date: "civilDate d = (Y d + (if M d < 10 then 0 else 1), if M d < 10 then M d + 3 else M d - 9,
      eraDay (doeOf d) - (153 * M d + 2) div 5 + 1)" for d
    by (simp add: civilDate_eq Let_def Y_def M_def)
  have M: "0 \<le> M d" "M d \<le> 11" for d
    using marchMonth_range era_of_day [of d] unfolding M_def by blast+
  have split: "d + 719468 = eraOf d * 146097 + doeOf d" for d by (simp add: eraOf_def doeOf_def)
  have era: "eraOf a < eraOf b \<or> eraOf a = eraOf b \<and> doeOf a \<le> doeOf b"
  proof -
    have "eraOf a \<le> eraOf b" using le by (simp add: eraOf_def zdiv_mono1)
    then show ?thesis using le split [of a] split [of b] by (cases "eraOf a = eraOf b") simp_all
  qed
  have "Y a < Y b \<or> eraOf a = eraOf b \<and> eraYear (doeOf a) = eraYear (doeOf b) \<and> doeOf a \<le> doeOf b"
    using era eraYear_mono [of "doeOf a" "doeOf b"] era_of_day [of a] era_of_day [of b] unfolding Y_def by linarith
  then consider "Y a < Y b" | "Y a = Y b" "eraDay (doeOf a) \<le> eraDay (doeOf b)"
    unfolding Y_def eraDay_def by fastforce
  then show ?thesis
  proof cases
    case 1
    then show ?thesis using M [of a] M [of b] by (auto simp: date dateLe_def)
  next
    case 2
    then have "M a \<le> M b" by (simp add: M_def marchMonth_mono)
    then show ?thesis using 2 M [of a] M [of b] by (auto simp: date dateLe_def)
  qed
qed

lemma civilDate_le: "dateLe (civilDate a) (civilDate b) \<longleftrightarrow> a \<le> b"
proof
  assume le: "dateLe (civilDate a) (civilDate b)"
  show "a \<le> b"
  proof (rule ccontr)
    assume "\<not> a \<le> b"
    then have "dateLe (civilDate b) (civilDate a)" by (simp add: civilDate_mono)
    then have "civilDate a = civilDate b" using le by (auto simp: dateLe_def split: prod.splits)
    then have "a = b" by (metis daysOf_civilDate)
    then show False using \<open>\<not> a \<le> b\<close> by simp
  qed
qed (rule civilDate_mono)

lemma civilDate_fields:
  assumes "civilDate days = (y, m, d)"
  shows "1 \<le> m \<and> m \<le> 12 \<and> 1 \<le> d \<and> d \<le> 31"
proof -
  define doy where "doy = eraDay (doeOf days)"
  have r: "0 \<le> doy" "doy \<le> 366" using era_of_day [of days] by (auto simp: doy_def)
  have b: "153 * marchMonth doy \<le> 5 * doy + 2" "5 * doy + 2 < 153 * marchMonth doy + 153"
    using div_bounds [of 153 "5 * doy + 2"] by (auto simp: marchMonth_def)
  have "m = (if marchMonth doy < 10 then marchMonth doy + 3 else marchMonth doy - 9)"
    "d = doy - (153 * marchMonth doy + 2) div 5 + 1"
    using assms by (auto simp: civilDate_eq Let_def doy_def)
  then show ?thesis using b marchMonth_range [OF r]
    by (cases rule: months_case [OF marchMonth_range [OF r]]) auto
qed


section \<open>The order of wire timestamps\<close>

lemma lex_divmod:
  fixes m n k :: nat
  assumes "0 < k"
  shows "m < n \<longleftrightarrow> m div k < n div k \<or> m div k = n div k \<and> m mod k < n mod k"
    and "m = n \<longleftrightarrow> m div k = n div k \<and> m mod k = n mod k"
proof -
  have eq: "m div k * k + m mod k = m" "n div k * k + n mod k = n" by simp_all
  show "m < n \<longleftrightarrow> m div k < n div k \<or> m div k = n div k \<and> m mod k < n mod k"
  proof
    assume "m < n"
    then have "m div k \<le> n div k" by (simp add: div_le_mono)
    then show "m div k < n div k \<or> m div k = n div k \<and> m mod k < n mod k"
      using \<open>m < n\<close> eq by (metis le_neq_implies_less nat_add_left_cancel_less)
  next
    assume "m div k < n div k \<or> m div k = n div k \<and> m mod k < n mod k"
    then show "m < n"
    proof
      assume "m div k < n div k"
      then show "m < n" by (meson div_le_mono not_le)
    next
      assume "m div k = n div k \<and> m mod k < n mod k"
      then show "m < n" using eq by (metis nat_add_left_cancel_less)
    qed
  qed
  show "m = n \<longleftrightarrow> m div k = n div k \<and> m mod k = n mod k" using eq by metis
qed

lemma digit_code: "(of_char (char_of (48 + k mod 10)) :: nat) = 48 + k mod 10" for k :: nat
proof -
  have "(48 + k mod 10) mod 256 = 48 + k mod 10" by (intro mod_less) (use mod_less_divisor [of 10 k] in linarith)
  then show ?thesis by (simp only: of_char_of)
qed

lemma digit_order:
  "(of_char (char_of (48 + m mod 10)) :: nat) < of_char (char_of (48 + n mod 10)) \<longleftrightarrow> m mod 10 < n mod 10"
  "(char_of (48 + m mod 10) :: char) = char_of (48 + n mod 10) \<longleftrightarrow> m mod 10 = n mod 10" for m n :: nat
  by (simp only: digit_code add_less_cancel_left) (metis digit_code add_left_cancel)

lemma strLe_digits:
  "m < 10 ^ k \<Longrightarrow> n < 10 ^ k \<Longrightarrow>
    strLe (digits k m @ x) (digits k n @ y) \<longleftrightarrow> m < n \<or> m = n \<and> strLe x y"
proof (induction k arbitrary: m n x y)
  case (Suc k)
  have "m div 10 < 10 ^ k" "n div 10 < 10 ^ k" using Suc.prems by auto
  then have "strLe (digits (Suc k) m @ x) (digits (Suc k) n @ y) \<longleftrightarrow>
    m div 10 < n div 10 \<or> m div 10 = n div 10 \<and> (m mod 10 < n mod 10 \<or> m mod 10 = n mod 10 \<and> strLe x y)"
    using Suc.IH by (simp only: digits.simps append_assoc append_Cons append_Nil strLe.simps digit_order)
  then show ?case using lex_divmod [of 10 m n, OF zero_less_numeral] by blast
qed simp


text \<open>The time of day, field by field.\<close>

lemma tod_order:
  fixes m n :: nat
  shows "m \<le> n \<longleftrightarrow>
    m div 3600000 < n div 3600000 \<or> m div 3600000 = n div 3600000 \<and>
      (m div 60000 mod 60 < n div 60000 mod 60 \<or> m div 60000 mod 60 = n div 60000 mod 60 \<and>
        (m div 1000 mod 60 < n div 1000 mod 60 \<or> m div 1000 mod 60 = n div 1000 mod 60 \<and> m mod 1000 \<le> n mod 1000))"
proof -
  have "x div 1000 div 60 = x div 60000" "x div 60000 div 60 = x div 3600000" for x :: nat
    by (simp_all flip: div_mult2_eq)
  then show ?thesis
    using lex_divmod [of 1000 m n, OF zero_less_numeral] lex_divmod [of 60 "m div 1000" "n div 1000", OF zero_less_numeral]
      lex_divmod [of 60 "m div 60000" "n div 60000", OF zero_less_numeral]
    by (simp only: order.order_iff_strict) blast
qed

text \<open>The days from 0000-01-01 to 9999-12-31, those whose year has four digits.\<close>

definition nanosPerDay :: int where "nanosPerDay = 86400 * nanosPerSecond"

definition fourDigitYear :: "gotime \<Rightarrow> bool" where
  "fourDigitYear t \<longleftrightarrow> - 719528 * nanosPerDay \<le> t \<and> t < 2932897 * nanosPerDay"

lemma day_of_milli: "t div nanosPerMilli div 86400000 = t div nanosPerDay"
  by (simp add: nanosPerMilli_def nanosPerDay_def nanosPerSecond_def flip: zdiv_zmult2_eq)

lemma fourDigitYear_range:
  assumes "fourDigitYear t" "civilDate (t div nanosPerDay) = (y, m, d)"
  shows "0 \<le> y \<and> y \<le> 9999"
proof -
  have "- 719528 \<le> t div nanosPerDay" "t div nanosPerDay \<le> 2932896"
    using assms(1) div_bounds [of nanosPerDay t] by (auto simp: fourDigitYear_def nanosPerDay_def nanosPerSecond_def)
  then have "dateLe (civilDate (- 719528)) (y, m, d)" "dateLe (y, m, d) (civilDate 2932896)"
    using civilDate_mono [of "- 719528" "t div nanosPerDay"] civilDate_mono [of "t div nanosPerDay" 2932896]
    unfolding assms(2) by blast+
  moreover have "civilDate (- 719528) = (0, 1, 1)" "civilDate 2932896 = (9999, 12, 31)"
    by code_simp+
  ultimately show ?thesis by (auto simp: dateLe_def)
qed

lemma dateLe_lex:
  "\<not> dateLe (y', m', d') (y, m, d) \<or> (dateLe (y, m, d) (y', m', d') \<and> dateLe (y', m', d') (y, m, d)) \<and> P \<longleftrightarrow>
    y < y' \<or> y = y' \<and> (m < m' \<or> m = m' \<and> (d < d' \<or> d = d' \<and> P))"
  by (cases y y' rule: linorder_cases; cases m m' rule: linorder_cases; cases d d' rule: linorder_cases)
    (simp_all add: dateLe_def)

text \<open>Two formatted instants are compared field by field.\<close>

lemma formatWireTime_fields:
  assumes t: "civilDate (t div nanosPerMilli div 86400000) = (y, m, d)" and p: "p = nat (t div nanosPerMilli mod 86400000)"
    and u: "civilDate (u div nanosPerMilli div 86400000) = (y', m', d')" and q: "q = nat (u div nanosPerMilli mod 86400000)"
    and years: "0 \<le> y \<and> y \<le> 9999" "0 \<le> y' \<and> y' \<le> 9999"
  shows "strLe (formatWireTime t) (formatWireTime u) \<longleftrightarrow>
    nat y < nat y' \<or> nat y = nat y' \<and> (nat m < nat m' \<or> nat m = nat m' \<and> (nat d < nat d' \<or> nat d = nat d' \<and> p \<le> q))"
proof -
  have "nat y < 10 ^ 4" "nat y' < 10 ^ 4" "nat m < 10 ^ 2" "nat m' < 10 ^ 2" "nat d < 10 ^ 2" "nat d' < 10 ^ 2"
    using years civilDate_fields [OF t] civilDate_fields [OF u] by (simp_all add: nat_less_iff)
  moreover have "p < 86400000" "q < 86400000" by (simp_all add: p q)
  then have "p div 3600000 < 10 ^ 2" "q div 3600000 < 10 ^ 2" by simp_all
  moreover have "k mod 60 < 10 ^ 2" "k mod 1000 < 10 ^ 3" for k :: nat
    using mod_less_divisor [of 60 k] mod_less_divisor [of 1000 k] by simp_all
  moreover have "formatWireTime t = digits 4 (nat y) @ ''-'' @ digits 2 (nat m) @ ''-'' @ digits 2 (nat d) @ ''T'' @
      digits 2 (p div 3600000) @ '':'' @ digits 2 (p div 60000 mod 60) @ '':'' @
      digits 2 (p div 1000 mod 60) @ ''.'' @ digits 3 (p mod 1000) @ ''Z''"
    unfolding formatWireTime_def Let_def t p by simp
  moreover have "formatWireTime u = digits 4 (nat y') @ ''-'' @ digits 2 (nat m') @ ''-'' @ digits 2 (nat d') @ ''T'' @
      digits 2 (q div 3600000) @ '':'' @ digits 2 (q div 60000 mod 60) @ '':'' @
      digits 2 (q div 1000 mod 60) @ ''.'' @ digits 3 (q mod 1000) @ ''Z''"
    unfolding formatWireTime_def Let_def u q by simp
  ultimately show ?thesis
    by (simp only: strLe_digits append_Cons append_Nil tod_order [of p q] order.order_iff_strict [of "p mod 1000"]
        simp_thms strLe.simps less_irrefl)
qed

lemma formatWireTime_order:
  assumes "fourDigitYear t" "fourDigitYear u"
  shows "strLe (formatWireTime t) (formatWireTime u) \<longleftrightarrow> t div nanosPerMilli \<le> u div nanosPerMilli"
proof -
  define a b where "a = t div nanosPerMilli" and "b = u div nanosPerMilli"
  define A B where "A = a div 86400000" and "B = b div 86400000"
  define p q where "p = nat (a mod 86400000)" and "q = nat (b mod 86400000)"
  obtain y m d where t: "civilDate A = (y, m, d)" by (cases "civilDate A")
  obtain y' m' d' where u: "civilDate B = (y', m', d')" by (cases "civilDate B")
  note tf = civilDate_fields [OF t] fourDigitYear_range [OF assms(1) t [unfolded A_def a_def day_of_milli]]
  note uf = civilDate_fields [OF u] fourDigitYear_range [OF assms(2) u [unfolded B_def b_def day_of_milli]]
  have "A \<le> B \<longleftrightarrow> dateLe (y, m, d) (y', m', d')" "B \<le> A \<longleftrightarrow> dateLe (y', m', d') (y, m, d)"
    by (simp_all only: civilDate_le flip: t u)
  then have days: "A < B \<longleftrightarrow> \<not> dateLe (y', m', d') (y, m, d)"
    "A = B \<longleftrightarrow> dateLe (y, m, d) (y', m', d') \<and> dateLe (y', m', d') (y, m, d)" by linarith+
  have "nat y < nat y' \<longleftrightarrow> y < y'" "nat y = nat y' \<longleftrightarrow> y = y'" "nat m < nat m' \<longleftrightarrow> m < m'" "nat m = nat m' \<longleftrightarrow> m = m'"
    "nat d < nat d' \<longleftrightarrow> d < d'" "nat d = nat d' \<longleftrightarrow> d = d'"
    using tf uf by auto
  then have "strLe (formatWireTime t) (formatWireTime u) \<longleftrightarrow> A < B \<or> A = B \<and> p \<le> q"
    using formatWireTime_fields [OF t [unfolded A_def a_def] p_def [unfolded a_def] u [unfolded B_def b_def] q_def [unfolded b_def]
        tf(2) uf(2)] by (simp only: days dateLe_lex)
  moreover have "a = A * 86400000 + int p" "b = B * 86400000 + int q" "p < 86400000" "q < 86400000"
    by (simp_all add: p_def q_def A_def B_def)
  ultimately show ?thesis
    unfolding a_def [symmetric] b_def [symmetric] by (cases A B rule: linorder_cases) simp_all
qed

text \<open>What one reading does to the table of data points of the receiving side, and what a message does.\<close>

definition rowUpdate :: "string \<Rightarrow> wireReading \<Rightarrow> (string \<times> int64 \<times> int64 \<rightharpoonup> datapointSeen) \<Rightarrow> (string \<times> int64 \<times> int64 \<rightharpoonup> datapointSeen)" where
  "rowUpdate gid r rows = ss_datapoints (storeReading gid [] 0 r ((newStore False)\<lparr>ss_datapoints := rows\<rparr>))"

lemma datapoints_storeReading: "ss_datapoints (storeReading gid sid q r s) = rowUpdate gid r (ss_datapoints s)"
  by (simp add: rowUpdate_def storeReading_def Let_def)

lemma datapoints_fold_storeReading:
  "ss_datapoints (fold (storeReading gid sid q) rs s) = fold (rowUpdate gid) rs (ss_datapoints s)"
  by (induction rs arbitrary: s) (simp_all add: datapoints_storeReading)

lemma datapoints_storeChunk:
  "ss_datapoints (storeChunk now gid sid c s) = fold (rowUpdate gid) (wc_Readings c) (ss_datapoints s)"
  by (simp add: storeChunk_def datapoints_fold_storeReading noteGap_def advanceSeq_def updGw_def Let_def split: option.splits)

lemma datapoints_storeChunks:
  "ss_datapoints (fold (storeChunk now gid sid) cs s) = fold (rowUpdate gid) (concat (map wc_Readings cs)) (ss_datapoints s)"
  by (induction cs arbitrary: s) (simp_all add: datapoints_storeChunk)

lemma datapoints_ingest:
  "ss_datapoints (snd (ingest True now m (newStore out))) =
     fold (rowUpdate (m_GatewayID m)) (concat (map wc_Readings (m_Chunks m))) Map.empty"
  by (simp add: ingest_def Let_def datapoints_storeChunks updGw_def newStore_def)

definition pointOf :: "reading \<Rightarrow> int64 \<times> int64" where
  "pointOf r = (rd_DeviceID r, rd_DatapointID r)"

definition milliOf :: "reading \<Rightarrow> int" where
  "milliOf r = rd_At r div nanosPerMilli"

definition showsReading :: "datapointSeen \<Rightarrow> reading \<Rightarrow> bool" where
  "showsReading d r \<longleftrightarrow> ds_LastTS d = formatWireTime (rd_At r) \<and> ds_LastValue d = rd_Value r \<and> ds_LastQuality d = rd_Quality r"

lemma rowUpdate_reading:
  "rowUpdate gid (wireReadingOf r) rows = rows((gid, pointOf r) \<mapsto>
     (let d = (case rows (gid, pointOf r) of
                 Some d \<Rightarrow> d
               | None \<Rightarrow> \<lparr>ds_GatewayID = gid, ds_DeviceID = rd_DeviceID r, ds_DatapointID = rd_DatapointID r,
                          ds_LastTS = [], ds_LastValue = None, ds_LastQuality = []\<rparr>)
      in if strLe (ds_LastTS d) (formatWireTime (rd_At r))
         then d\<lparr>ds_LastTS := formatWireTime (rd_At r), ds_LastValue := rd_Value r, ds_LastQuality := rd_Quality r\<rparr>
         else d))"
  by (simp add: rowUpdate_def storeReading_def wireReadingOf_def pointOf_def Let_def cong: option.case_cong)

lemma table_shows_latest:
  assumes "\<forall>r \<in> set rs. fourDigitYear (rd_At r)"
  shows "case fold (rowUpdate gid) (map wireReadingOf rs) Map.empty (gid, k) of
      None \<Rightarrow> k \<notin> pointOf ` set rs
    | Some d \<Rightarrow> \<exists>r \<in> set rs. pointOf r = k \<and> showsReading d r \<and> (\<forall>r' \<in> set rs. pointOf r' = k \<longrightarrow> milliOf r' \<le> milliOf r)"
  using assms
proof (induction rs rule: rev_induct)
  case Nil
  then show ?case by simp
next
  case (snoc r rs)
  let ?t = "fold (rowUpdate gid) (map wireReadingOf rs) Map.empty"
  have t: "fold (rowUpdate gid) (map wireReadingOf (rs @ [r])) Map.empty = rowUpdate gid (wireReadingOf r) ?t" by simp
  show ?case
  proof (cases "pointOf r = k")
    case False
    then show ?thesis unfolding t using snoc by (auto simp: rowUpdate_reading split: option.splits)
  next
    case True
    show ?thesis
    proof (cases "?t (gid, k)")
      case None
      then have "r' \<in> set rs \<Longrightarrow> pointOf r' \<noteq> k" for r' using snoc by auto
      then show ?thesis unfolding t using None True by (auto simp: rowUpdate_reading showsReading_def)
    next
      case (Some d)
      then obtain l where l: "l \<in> set rs" "pointOf l = k" "showsReading d l"
          "\<And>r'. r' \<in> set rs \<Longrightarrow> pointOf r' = k \<Longrightarrow> milliOf r' \<le> milliOf l"
        using snoc by auto
      have "strLe (ds_LastTS d) (formatWireTime (rd_At r)) \<longleftrightarrow> milliOf l \<le> milliOf r"
        using l snoc.prems by (simp add: showsReading_def milliOf_def formatWireTime_order)
      then have "rowUpdate gid (wireReadingOf r) ?t (gid, k) = Some
          (if milliOf l \<le> milliOf r
           then d\<lparr>ds_LastTS := formatWireTime (rd_At r), ds_LastValue := rd_Value r, ds_LastQuality := rd_Quality r\<rparr> else d)"
        using True Some by (simp add: rowUpdate_reading Let_def)
      then show ?thesis unfolding t using l True by (force simp: showsReading_def)
    qed
  qed
qed

text \<open>
  C7: whatever the order in which a message holds the readings of a data point, after it has been
  ingested the row of that point in the table of the receiving side has the timestamp, value and quality
  of a reading than which none of that point is later (to the millisecond): comparing the timestamps as
  strings compares the instants, as the comment \<^verbatim>\<open>RFC 3339 UTC ms strings sort by time\<close> says, for the
  years 0 to 9999.
\<close>

theorem row_shows_latest_reading:
  assumes years: "\<forall>r \<in> set (concat (map ck_Readings chunks)). fourDigitYear (rd_At r)"
    and r: "r \<in> set (concat (map ck_Readings chunks))"
  shows "\<exists>l d. l \<in> set (concat (map ck_Readings chunks)) \<and> pointOf l = pointOf r \<and> showsReading d l \<and>
    ss_datapoints (snd (ingest True now (buildMessage gid sid chunks) (newStore out))) (gid, pointOf r) = Some d \<and>
    (\<forall>r' \<in> set (concat (map ck_Readings chunks)). pointOf r' = pointOf r \<longrightarrow> milliOf r' \<le> milliOf l)"
proof -
  have "concat (map wc_Readings (map wireChunkOf chunks)) = map wireReadingOf (concat (map ck_Readings chunks))"
    by (induction chunks) (simp_all add: wireChunkOf_def)
  then have "ss_datapoints (snd (ingest True now (buildMessage gid sid chunks) (newStore out))) =
      fold (rowUpdate gid) (map wireReadingOf (concat (map ck_Readings chunks))) Map.empty"
    by (simp only: datapoints_ingest) (simp add: buildMessage_def)
  then show ?thesis
    using table_shows_latest [OF years, where gid = gid and k = "pointOf r"] r by (auto split: option.splits)
qed

definition lateReading :: reading where
  "lateReading = \<lparr>rd_DeviceID = 1, rd_DatapointID = 2, rd_Value = None, rd_Quality = ''BAD'',
     rd_At = 1700000002000 * nanosPerMilli\<rparr>"

definition earlyReading :: reading where
  "earlyReading = lateReading\<lparr>rd_At := 1700000001000 * nanosPerMilli, rd_Quality := ''GOOD''\<rparr>"

definition latenessChunks :: "chunk list" where
  "latenessChunks = [\<lparr>ck_Seq = 7, ck_Readings = [lateReading]\<rparr>, \<lparr>ck_Seq = 8, ck_Readings = [earlyReading]\<rparr>]"

theorem row_shows_latest_reading_witness:
  "\<exists>d. ss_datapoints (snd (ingest True 5 (buildMessage ''gw'' ''s'' latenessChunks) (newStore True))) (''gw'', 1, 2) = Some d \<and>
     ds_LastTS d = formatWireTime (rd_At lateReading) \<and> ds_LastQuality d = ''BAD''"
proof -
  have rs: "concat (map ck_Readings latenessChunks) = [lateReading, earlyReading]" by (simp add: latenessChunks_def)
  have years: "\<forall>r \<in> set (concat (map ck_Readings latenessChunks)). fourDigitYear (rd_At r)"
    unfolding rs by (simp add: lateReading_def earlyReading_def fourDigitYear_def nanosPerDay_def nanosPerMilli_def nanosPerSecond_def)
  have facts: "milliOf earlyReading < milliOf lateReading" "pointOf lateReading = (1, 2)" "rd_Quality lateReading = ''BAD''"
    by (simp_all add: lateReading_def earlyReading_def milliOf_def pointOf_def nanosPerMilli_def)
  show ?thesis
    using row_shows_latest_reading [OF years, of lateReading 5 "''gw''" "''s''" True] facts
    unfolding rs by (auto simp: showsReading_def)
qed

section \<open>The hardware clock\<close>

record rtcTime =
  rt_Sec :: "32 word"
  rt_Min :: "32 word"
  rt_Hour :: "32 word"
  rt_Mday :: "32 word"
  rt_Mon :: "32 word"
  rt_Year :: "32 word"

text \<open>
  The kernel's side of the device: whether \<^verbatim>\<open>os.OpenFile\<close> succeeds for reading and for
  writing, and the two \<^verbatim>\<open>ioctl\<close> calls of \<^verbatim>\<open>golang.org/x/sys/unix\<close>.
\<close>

record 'h rtcKernel =
  rk_openRead :: "string \<Rightarrow> 'h \<Rightarrow> bool"
  rk_openWrite :: "string \<Rightarrow> 'h \<Rightarrow> bool"
  rk_get :: "'h \<Rightarrow> string + rtcTime"
  rk_set :: "rtcTime \<Rightarrow> 'h \<Rightarrow> string + 'h"

definition errRTCUnavailable :: string where
  "errRTCUnavailable = ''rtc: not available on this host''"

text \<open>\<^verbatim>\<open>time.Date\<close> in UTC, to the second.\<close>

definition dateUTC :: "int \<Rightarrow> int \<Rightarrow> int \<Rightarrow> int \<Rightarrow> int \<Rightarrow> int \<Rightarrow> gotime" where
  "dateUTC year month day hour mnt sec =
     (daysOf year month day * 86400 + hour * 3600 + mnt * 60 + sec) * nanosPerSecond"

definition rtcRead :: "'h rtcKernel \<Rightarrow> string \<Rightarrow> 'h \<Rightarrow> string + gotime" where
  "rtcRead k device h =
     (if \<not> rk_openRead k device h then Inl errRTCUnavailable
      else case rk_get k h of
        Inl e \<Rightarrow> Inl (''read rtc '' @ device @ '': '' @ e)
      | Inr rt \<Rightarrow> Inr (dateUTC (sint (rt_Year rt) + 1900) (sint (rt_Mon rt + 1)) (sint (rt_Mday rt))
                        (sint (rt_Hour rt)) (sint (rt_Min rt)) (sint (rt_Sec rt))))"

definition rtcTimeOf :: "gotime \<Rightarrow> rtcTime" where
  "rtcTimeOf t =
     (let (y, m, d) = civilDate (t div nanosPerDay); sod = t mod nanosPerDay div nanosPerSecond
      in \<lparr>rt_Sec = word_of_int (sod mod 60), rt_Min = word_of_int (sod div 60 mod 60), rt_Hour = word_of_int (sod div 3600),
          rt_Mday = word_of_int d, rt_Mon = word_of_int (m - 1), rt_Year = word_of_int (y - 1900)\<rparr>)"

definition rtcWrite :: "'h rtcKernel \<Rightarrow> string \<Rightarrow> gotime \<Rightarrow> 'h \<Rightarrow> string option \<times> 'h" where
  "rtcWrite k device t h =
     (if \<not> rk_openWrite k device h then (Some errRTCUnavailable, h)
      else case rk_set k (rtcTimeOf t) h of
        Inl e \<Rightarrow> (Some (''write rtc '' @ device @ '': '' @ e), h)
      | Inr h' \<Rightarrow> (None, h'))"

text \<open>Hosts that are not Linux.\<close>

definition unsupportedRead :: "string + gotime" where "unsupportedRead = Inl errRTCUnavailable"
definition unsupportedWrite :: "gotime \<Rightarrow> string option" where "unsupportedWrite t = Some errRTCUnavailable"


lemma sint_word32: "- (2 ^ 31) \<le> x \<Longrightarrow> x < 2 ^ 31 \<Longrightarrow> sint (word_of_int x :: 32 word) = x"
  by (simp add: sint_sbintrunc' signed_take_bit_int_eq_self)

lemma second_of_day:
  assumes "0 \<le> s"
  shows "s div 3600 * 3600 + s div 60 mod 60 * 60 + s mod 60 = (s :: int)"
proof -
  have "s div 60 div 60 = s div 3600" by (simp flip: zdiv_zmult2_eq)
  then have "s div 60 = s div 3600 * 60 + s div 60 mod 60" by (metis div_mult_mod_eq)
  moreover have "s = s div 60 * 60 + s mod 60" by simp
  ultimately show ?thesis by linarith
qed

text \<open>The registers of an instant, read back.\<close>

lemma rtcTimeOf_date:
  assumes "fourDigitYear t" "rt = rtcTimeOf t"
  shows "dateUTC (sint (rt_Year rt) + 1900) (sint (rt_Mon rt + 1)) (sint (rt_Mday rt))
      (sint (rt_Hour rt)) (sint (rt_Min rt)) (sint (rt_Sec rt)) = t div nanosPerSecond * nanosPerSecond"
proof -
  obtain y m d where date: "civilDate (t div nanosPerDay) = (y, m, d)" by (cases "civilDate (t div nanosPerDay)")
  define s where "s = t mod nanosPerDay div nanosPerSecond"
  have s: "0 \<le> s" "s < 86400"
    using div_bounds [of nanosPerSecond "t mod nanosPerDay"] pos_mod_bound [of nanosPerDay t] pos_mod_sign [of nanosPerDay t]
    by (auto simp: s_def nanosPerDay_def nanosPerSecond_def)
  have range: "s div 3600 < 86400" "0 \<le> s div 3600" "s mod 60 < 60" "0 \<le> s mod 60" "s div 60 mod 60 < 60" "0 \<le> s div 60 mod 60"
    using s div_bounds [of 3600 s] by auto
  have word: "sint (word_of_int (m - 1) + 1 :: 32 word) = m"
    using civilDate_fields [OF date] sint_word32 [of m] by simp
  have fields: "sint (rt_Year rt) + 1900 = y" "sint (rt_Mon rt + 1) = m" "sint (rt_Mday rt) = d"
    "sint (rt_Hour rt) = s div 3600" "sint (rt_Min rt) = s div 60 mod 60" "sint (rt_Sec rt) = s mod 60"
    using civilDate_fields [OF date] fourDigitYear_range [OF assms(1) date] range word
    unfolding assms(2) rtcTimeOf_def date Let_def prod.case s_def [symmetric] rtcTime.select_convs
    by (simp_all add: sint_word32 del: of_int_diff)
  have "daysOf y m d = t div nanosPerDay" using daysOf_civilDate [of "t div nanosPerDay"] by (simp add: date)
  moreover have "t div nanosPerSecond = t div nanosPerDay * 86400 + s"
  proof -
    have "t = t div nanosPerDay * 86400 * nanosPerSecond + t mod nanosPerDay"
      using div_mult_mod_eq [of t nanosPerDay] by (simp only: nanosPerDay_def mult.assoc)
    then show ?thesis unfolding s_def by (metis div_mult_self3 nanosPerSecond_def zero_neq_numeral add.commute)
  qed
  ultimately show ?thesis unfolding dateUTC_def fields using second_of_day [OF s(1)] by simp
qed


text \<open>
  C36: what is written to the hardware clock is read back to the second. For a kernel that keeps the
  registers it is given and leaves the device readable, an accepted \<^verbatim>\<open>Write\<close> of an instant of
  the years 0 to 9999 makes the next \<^verbatim>\<open>Read\<close> return that instant without its fraction of a
  second, through 32-bit registers, months counted from 0 and years from 1900.
\<close>

theorem rtc_round_trip:
  assumes keeps: "\<And>rt h h'. rk_set k rt h = Inr h' \<Longrightarrow> rk_get k h' = Inr rt \<and> rk_openRead k device h'"
    and year: "fourDigitYear t"
    and written: "rtcWrite k device t h = (None, h')"
  shows "rtcRead k device h' = Inr (t div nanosPerSecond * nanosPerSecond)"
proof -
  have "rk_set k (rtcTimeOf t) h = Inr h'"
    using written by (auto simp: rtcWrite_def split: if_splits sum.splits)
  from keeps [OF this] show ?thesis using rtcTimeOf_date [OF year refl] by (simp add: rtcRead_def)
qed

text \<open>A kernel with one clock of six registers, on which the hypotheses hold.\<close>

definition plainKernel :: "rtcTime option rtcKernel" where
  "plainKernel =
     \<lparr>rk_openRead = \<lambda>device h. device = ''/dev/rtc0'', rk_openWrite = \<lambda>device h. device = ''/dev/rtc0'',
      rk_get = \<lambda>h. case h of None \<Rightarrow> Inl ''input/output error'' | Some rt \<Rightarrow> Inr rt,
      rk_set = \<lambda>rt h. Inr (Some rt)\<rparr>"

theorem rtc_round_trip_witness:
  "rtcRead plainKernel ''/dev/rtc0'' (snd (rtcWrite plainKernel ''/dev/rtc0'' 1700000001234567890 None)) =
     Inr 1700000001000000000"
proof -
  have "rtcWrite plainKernel ''/dev/rtc0'' 1700000001234567890 None = (None, Some (rtcTimeOf 1700000001234567890))"
    by (simp add: rtcWrite_def plainKernel_def)
  moreover have "fourDigitYear 1700000001234567890" by (simp add: fourDigitYear_def nanosPerDay_def nanosPerSecond_def)
  ultimately show ?thesis
    using rtc_round_trip [of plainKernel "''/dev/rtc0''" 1700000001234567890 None]
    by (auto simp: plainKernel_def nanosPerSecond_def)
qed

lemma rtc_absent:
  "\<not> rk_openRead k device h \<Longrightarrow> rtcRead k device h = unsupportedRead"
  "\<not> rk_openWrite k device h \<Longrightarrow> rtcWrite k device t h = (unsupportedWrite t, h)"
  by (simp_all add: rtcRead_def rtcWrite_def unsupportedRead_def unsupportedWrite_def)

section \<open>The system clock\<close>

text \<open>
  \<^verbatim>\<open>osClock.Set\<close>: \<^verbatim>\<open>UnixNano\<close> is the instant as 64 bits;
  \<^verbatim>\<open>NsecToTimeval\<close> and \<^verbatim>\<open>Settimeofday\<close> belong to \<^verbatim>\<open>golang.org/x/sys/unix\<close>.
\<close>

definition osClockSet :: "(int64 \<Rightarrow> 'tv) \<Rightarrow> ('tv \<Rightarrow> string option) \<Rightarrow> gotime \<Rightarrow> string option" where
  "osClockSet nsecToTimeval settimeofday t =
     (case settimeofday (nsecToTimeval (word_of_int t)) of
        Some e \<Rightarrow> Some (''settimeofday: '' @ e)
      | None \<Rightarrow> None)"

definition unsupportedClockSet :: "gotime \<Rightarrow> string option" where
  "unsupportedClockSet t = Some ''timeservice: setting the system clock is not supported on this platform''"

end
