(* ===== verification/ManagerConc.thy ===== *)
theory ManagerConc
  imports Acquisition
begin

text \<open>
  The acquisition manager (\<^verbatim>\<open>src/internal/acquisition/manager.go\<close>) with its goroutines: pollers that live
  on after they have been cancelled, and reloads that run side by side, as the HTTP handlers start
  them.

  A poller is known by the connection it serves, the work it was started with, and whether its
  context is cancelled. \<^verbatim>\<open>Reload\<close> is cut where the code is: it reads the configuration without the
  mutex (a snapshot, which waits in \<open>mg_pending\<close>) and applies it under the mutex. The reads of one
  reload are taken together. The configuration may change at any time, a cancelled poller may take any
  time to stop, and one whose connection is not usable stops by itself, as \<^verbatim>\<open>runConnection\<close> does.

  The results, over all interleavings: of the pollers of a connection at most one is not cancelled, and
  it does what the manager has recorded; every usable connection on record has one; a stopped manager
  can always be waited for. And two that the comments of the code do not say: a changed connection is
  opened by its new poller while the old one may still be using it, and of two reloads at the same time
  the one with the older snapshot may win.
\<close>

section \<open>States and steps\<close>

record poller =
  pl_conn :: int
  pl_work :: runningConnection
  pl_cancelled :: bool

record manager =
  mg_db :: confdb
  mg_running :: running
  mg_live :: "poller list"
  mg_pending :: "running list"
  mg_stopped :: bool

definition newManager :: "confdb \<Rightarrow> manager" where
  "newManager db = \<lparr>mg_db = db, mg_running = Map.empty, mg_live = [], mg_pending = [], mg_stopped = False\<rparr>"

text \<open>The part of \<^verbatim>\<open>Reload\<close> under the mutex: the new record, whom it cancels, whom it starts.\<close>

definition applyWanted :: "running \<Rightarrow> running \<Rightarrow> running \<times> (int \<Rightarrow> bool) \<times> (int \<Rightarrow> bool)" where
  "applyWanted wanted run =
     (let stale = (\<lambda>i. run i \<noteq> None \<and> run i \<noteq> wanted i);
          kept = (\<lambda>i. if stale i then None else run i);
          started = (\<lambda>i. wanted i \<noteq> None \<and> kept i = None)
      in (\<lambda>i. (if started i then wanted i else kept i), stale, started))"

definition cancelPoller :: "(int \<Rightarrow> bool) \<Rightarrow> poller \<Rightarrow> poller" where
  "cancelPoller stale p = (if stale (pl_conn p) then p\<lparr>pl_cancelled := True\<rparr> else p)"

text \<open>A poller started after the parent context was cancelled has a cancelled context.\<close>

definition startPoller :: "bool \<Rightarrow> running \<Rightarrow> int \<Rightarrow> poller" where
  "startPoller stopped run i = \<lparr>pl_conn = i, pl_work = the (run i), pl_cancelled = stopped\<rparr>"

definition usable :: "runningConnection \<Rightarrow> bool" where
  "usable rc \<longleftrightarrow> (\<exists>spec. buildClient (rc_conn rc) = Inr spec)"

inductive mstep :: "manager \<Rightarrow> manager \<Rightarrow> bool" where
  edit: "mstep s (s\<lparr>mg_db := db\<rparr>)"
| query: "mstep s (s\<lparr>mg_pending := mg_pending s @ [wantedConnections (mg_db s)]\<rparr>)"
| install: "mg_pending s = xs @ w # ys \<Longrightarrow> applyWanted w (mg_running s) = (run, stale, started) \<Longrightarrow>
    distinct ids \<Longrightarrow> set ids = {i. started i} \<Longrightarrow>
    mstep s (s\<lparr>mg_running := run, mg_pending := xs @ ys,
      mg_live := map (cancelPoller stale) (mg_live s) @ map (startPoller (mg_stopped s) run) ids\<rparr>)"
| finish: "mg_live s = xs @ p # ys \<Longrightarrow> pl_cancelled p \<or> \<not> usable (pl_work p) \<Longrightarrow> mstep s (s\<lparr>mg_live := xs @ ys\<rparr>)"
| shutdown: "mstep s (s\<lparr>mg_stopped := True, mg_live := map (cancelPoller (\<lambda>_. True)) (mg_live s)\<rparr>)"

abbreviation msteps :: "manager \<Rightarrow> manager \<Rightarrow> bool" where
  "msteps \<equiv> mstep\<^sup>*\<^sup>*"

text \<open>A reload that nothing interrupts is the \<open>reload\<close> of the sequential model.\<close>

lemma reload_applyWanted: "reload True db run = applyWanted (wantedConnections db) run"
  by (simp add: reload_def applyWanted_def Let_def)

lemma applyWanted_running: "fst (applyWanted w run) = w"
  by (rule ext) (auto simp: applyWanted_def Let_def)

lemma applyWanted_cases:
  assumes "applyWanted w run = (run', stale, started)"
  shows "run' = w" "stale i \<longleftrightarrow> run i \<noteq> None \<and> run i \<noteq> w i" "started i \<longleftrightarrow> w i \<noteq> None \<and> run i \<noteq> w i"
  using assms applyWanted_running [of w run] by (auto simp: applyWanted_def Let_def)

section \<open>The invariant\<close>

definition activeOn :: "manager \<Rightarrow> poller list" where
  "activeOn s = filter (\<lambda>p. \<not> pl_cancelled p) (mg_live s)"

definition managerInv :: "manager \<Rightarrow> bool" where
  "managerInv s \<longleftrightarrow>
     distinct (map pl_conn (activeOn s)) \<and>
     (\<forall>p \<in> set (activeOn s). mg_running s (pl_conn p) = Some (pl_work p)) \<and>
     (\<forall>i rc. mg_running s i = Some rc \<and> usable rc \<and> \<not> mg_stopped s \<longrightarrow> i \<in> pl_conn ` set (activeOn s)) \<and>
     (mg_stopped s \<longrightarrow> activeOn s = [])"

lemma activeOn_install:
  "filter (\<lambda>p. \<not> pl_cancelled p) (map (cancelPoller stale) ps) = filter (\<lambda>p. \<not> pl_cancelled p \<and> \<not> stale (pl_conn p)) ps"
  by (induction ps) (auto simp: cancelPoller_def)

lemma activeOn_start:
  "filter (\<lambda>p. \<not> pl_cancelled p) (map (startPoller stopped run) ids) = (if stopped then [] else map (startPoller stopped run) ids)"
  by (induction ids) (auto simp: startPoller_def)

lemma install_inv:
  assumes inv: "managerInv s" and app: "applyWanted w (mg_running s) = (run, stale, started)"
    and ids: "distinct ids" "set ids = {i. started i}"
  shows "managerInv (s\<lparr>mg_running := run, mg_pending := ps,
      mg_live := map (cancelPoller stale) (mg_live s) @ map (startPoller (mg_stopped s) run) ids\<rparr>)"
proof (cases "mg_stopped s")
  case True
  then have "filter (\<lambda>p. \<not> pl_cancelled p) (mg_live s) = []" using inv by (simp add: managerInv_def activeOn_def)
  then have "filter (\<lambda>p. \<not> pl_cancelled p \<and> \<not> stale (pl_conn p)) (mg_live s) = []" by (simp add: filter_empty_conv)
  then show ?thesis using True by (simp add: managerInv_def activeOn_def activeOn_install activeOn_start)
next
  case False
  note c = applyWanted_cases [OF app]
  let ?kept = "filter (\<lambda>p. \<not> pl_cancelled p \<and> \<not> stale (pl_conn p)) (mg_live s)"
  have kept: "p \<in> set ?kept \<longleftrightarrow> p \<in> set (activeOn s) \<and> mg_running s (pl_conn p) = w (pl_conn p)" for p
    using inv c(2) [of "pl_conn p"] by (auto simp: managerInv_def activeOn_def)
  have "?kept = filter (\<lambda>p. \<not> stale (pl_conn p)) (activeOn s)" by (simp add: activeOn_def conj_commute)
  then have dist: "distinct (map pl_conn ?kept)"
    using inv distinct_map_filter by (metis managerInv_def)
  have new: "pl_conn ` set (map (startPoller False w) ids) = {i. w i \<noteq> None \<and> mg_running s i \<noteq> w i}"
    using ids(2) c(3) by (auto simp: startPoller_def image_image)
  have "map pl_conn (map (startPoller False w) ids) = ids" by (induction ids) (simp_all add: startPoller_def)
  then have all: "distinct (map pl_conn (?kept @ map (startPoller False w) ids))"
    using dist ids kept c(3) by (auto simp: distinct_append)
  have work: "w (pl_conn p) = Some (pl_work p)" if "p \<in> set (?kept @ map (startPoller False w) ids)" for p
    using that inv kept [of p] ids(2) c(3) by (auto simp: managerInv_def startPoller_def)
  have cover: "i \<in> pl_conn ` set (?kept @ map (startPoller False w) ids)" if i: "w i = Some rc" "usable rc" for i rc
  proof (cases "mg_running s i = w i")
    case True
    then obtain p where "p \<in> set (activeOn s)" "i = pl_conn p" using inv False i by (force simp: managerInv_def)
    then show ?thesis using kept [of p] True by auto
  next
    case False
    then have "i \<in> pl_conn ` set (map (startPoller False w) ids)" using i unfolding new by simp
    then show ?thesis by auto
  qed
  from all work cover False show ?thesis
    unfolding managerInv_def c(1) by (simp add: activeOn_def activeOn_install activeOn_start)
qed

lemma mstep_inv: "mstep s s' \<Longrightarrow> managerInv s \<Longrightarrow> managerInv s'"
proof (induction rule: mstep.induct)
  case (install s xs w ys run stale started ids)
  then show ?case by (intro install_inv)
next
  case (finish s xs p ys)
  show ?case
  proof (cases "pl_cancelled p")
    case True
    then show ?thesis using finish by (simp add: managerInv_def activeOn_def)
  next
    case False
    then have "\<not> usable (pl_work p)" using finish by simp
    moreover have "mg_running s (pl_conn p) = Some (pl_work p)"
      using finish False by (auto simp: managerInv_def activeOn_def)
    ultimately show ?thesis
      using finish False by (auto simp: managerInv_def activeOn_def)
  qed
qed (auto simp: managerInv_def activeOn_def activeOn_install)

lemma newManager_inv: "managerInv (newManager db)"
  by (simp add: managerInv_def newManager_def activeOn_def)

lemma reachable_inv: "msteps (newManager db) s \<Longrightarrow> managerInv s"
  by (induction rule: rtranclp_induct) (auto intro: mstep_inv newManager_inv)

lemma live_drain:
  "\<forall>p \<in> set (mg_live s). pl_cancelled p \<Longrightarrow> msteps s (s\<lparr>mg_live := []\<rparr>)"
proof (induction "mg_live s" arbitrary: s)
  case Nil
  then have "s\<lparr>mg_live := []\<rparr> = s" by (cases s) simp
  then show ?case by simp
next
  case (Cons p ps)
  then have "mstep s (s\<lparr>mg_live := ps\<rparr>)" using mstep.finish [of s "[]" p ps] by (metis append_Nil list.set_intros(1))
  moreover have "msteps (s\<lparr>mg_live := ps\<rparr>) (s\<lparr>mg_live := ps, mg_live := []\<rparr>)"
    using Cons.hyps(1) [of "s\<lparr>mg_live := ps\<rparr>"] Cons.prems Cons.hyps(2) by (metis (no_types, lifting) list.set_intros(2) manager.select_convs(3)
        manager.surjective manager.update_convs(3))
  ultimately show ?case by (auto intro: converse_rtranclp_into_rtranclp)
qed

text \<open>
  C22: the manager and its pollers. Whatever is edited, however many reloads run side by side and
  however long cancelled pollers take to stop: no connection ever has two pollers that are not
  cancelled, each of these does exactly the work on the manager's record, every usable connection on
  the record has one as long as the manager has not been stopped, and from a stopped manager all
  pollers can finish, so that \<^verbatim>\<open>Wait\<close> returns.
\<close>

theorem one_active_poller_per_connection:
  assumes "msteps (newManager db) s"
  shows "distinct (map pl_conn (activeOn s)) \<and>
    (\<forall>p \<in> set (activeOn s). mg_running s (pl_conn p) = Some (pl_work p)) \<and>
    (\<forall>i rc. mg_running s i = Some rc \<and> usable rc \<and> \<not> mg_stopped s \<longrightarrow> i \<in> pl_conn ` set (activeOn s)) \<and>
    (mg_stopped s \<longrightarrow> msteps s (s\<lparr>mg_live := []\<rparr>))"
proof -
  have "mg_stopped s \<longrightarrow> (\<forall>p \<in> set (mg_live s). pl_cancelled p)"
    using reachable_inv [OF assms] by (auto simp: managerInv_def activeOn_def filter_empty_conv)
  then show ?thesis using reachable_inv [OF assms] live_drain unfolding managerInv_def by blast
qed


section \<open>Reloads side by side\<close>

lemma msteps3: "mstep a b \<Longrightarrow> mstep b c \<Longrightarrow> mstep c d \<Longrightarrow> msteps a d"
  by (rule converse_rtranclp_into_rtranclp, assumption, rule converse_rtranclp_into_rtranclp, assumption, rule r_into_rtranclp)

lemma finite_wanted: "finite (dom (wantedConnections db))"
proof -
  have "finite (dom (fold (addDevice db) ds m))" if "finite (dom m)" for ds m
    using that by (induction ds arbitrary: m) (auto simp: addDevice_def Let_def split: option.splits)
  then show ?thesis by (simp add: wantedConnections_def)
qed

text \<open>A waiting snapshot can always be installed.\<close>

lemma install_step:
  assumes "mg_pending s = xs @ w # ys" "finite (dom w)"
  shows "\<exists>ids. set ids = {i. w i \<noteq> None \<and> mg_running s i \<noteq> w i} \<and>
    mstep s (s\<lparr>mg_running := w, mg_pending := xs @ ys,
      mg_live := map (cancelPoller (\<lambda>i. mg_running s i \<noteq> None \<and> mg_running s i \<noteq> w i)) (mg_live s) @
        map (startPoller (mg_stopped s) w) ids\<rparr>)"
proof -
  obtain run stale started where app: "applyWanted w (mg_running s) = (run, stale, started)"
    by (cases "applyWanted w (mg_running s)") auto
  note c = applyWanted_cases [OF app]
  have "finite {i. started i}"
    using finite_subset [OF _ assms(2), of "{i. started i}"] c(3) by (auto simp: dom_def)
  then obtain ids where ids: "distinct ids" "set ids = {i. started i}" using finite_distinct_list by metis
  have "stale = (\<lambda>i. mg_running s i \<noteq> None \<and> mg_running s i \<noteq> w i)" by (rule ext) (rule c(2))
  with mstep.install [OF assms(1) app ids] ids(2) c(1,3) show ?thesis by (intro exI [of _ ids]) simp
qed

text \<open>
  C23: of two reloads at the same time the older may win. For any two configurations there is a run in
  which the first is read by one reload, the second replaces it in the database and is read and
  installed by another, and the first reload then installs what it had read: no reload is left to run,
  the database holds the second configuration and the manager runs the first.
\<close>

theorem late_reload_restores_old_configuration:
  "\<exists>s. msteps (newManager db) s \<and> mg_pending s = [] \<and> mg_db s = db' \<and> mg_running s = wantedConnections db"
proof -
  let ?w = "wantedConnections db" and ?w' = "wantedConnections db'"
  let ?s1 = "(newManager db)\<lparr>mg_pending := [?w]\<rparr>"
  let ?s3 = "?s1\<lparr>mg_db := db', mg_pending := [?w, ?w']\<rparr>"
  have 1: "mstep (newManager db) ?s1" using mstep.query [of "newManager db"] by (simp add: newManager_def)
  have 2: "mstep ?s1 (?s1\<lparr>mg_db := db'\<rparr>)" by (rule mstep.edit)
  have 3: "mstep (?s1\<lparr>mg_db := db'\<rparr>) ?s3" using mstep.query [of "?s1\<lparr>mg_db := db'\<rparr>"] by simp
  note run = msteps3 [OF 1 2 3]
  obtain s4 where s4: "mstep ?s3 s4" "mg_pending s4 = [?w]" "mg_db s4 = db'"
    using install_step [of ?s3 "[?w]" ?w' "[]", OF _ finite_wanted] by fastforce
  obtain s5 where s5: "mstep s4 s5" "mg_pending s5 = []" "mg_db s5 = db'" "mg_running s5 = ?w"
    using install_step [of s4 "[]" ?w "[]", OF _ finite_wanted] s4 by fastforce
  with rtranclp.rtrancl_into_rtrancl [OF rtranclp.rtrancl_into_rtrancl [OF run s4(1)] s5(1)] show ?thesis by blast
qed

text \<open>
  A connection whose settings or devices change is served by two pollers for a while: the new one is
  started, and opens the line, while the cancelled one may still wait for an answer on it.
\<close>

theorem restart_overlaps:
  assumes "wantedConnections db i = Some rc" "wantedConnections db' i = Some rc'" "rc \<noteq> rc'"
  shows "\<exists>s p q. msteps (newManager db) s \<and> p \<in> set (mg_live s) \<and> q \<in> set (mg_live s) \<and>
    p = \<lparr>pl_conn = i, pl_work = rc, pl_cancelled = True\<rparr> \<and> q = \<lparr>pl_conn = i, pl_work = rc', pl_cancelled = False\<rparr>"
proof -
  let ?w = "wantedConnections db" and ?w' = "wantedConnections db'"
  let ?s1 = "(newManager db)\<lparr>mg_pending := [?w]\<rparr>"
  have 1: "mstep (newManager db) ?s1" using mstep.query [of "newManager db"] by (simp add: newManager_def)
  obtain s2 where s2: "mstep ?s1 s2" "mg_pending s2 = []" "mg_running s2 = ?w" "\<not> mg_stopped s2"
      "startPoller False ?w i \<in> set (mg_live s2)"
    using install_step [of ?s1 "[]" ?w "[]", OF _ finite_wanted] assms(1) by (fastforce simp: newManager_def)
  let ?s3 = "s2\<lparr>mg_db := db'\<rparr>" and ?s4 = "s2\<lparr>mg_db := db', mg_pending := [?w']\<rparr>"
  have 3: "mstep s2 ?s3" by (rule mstep.edit)
  have 4: "mstep ?s3 ?s4" using mstep.query [of ?s3] s2(2) by simp
  obtain s5 where s5: "mstep ?s4 s5" "startPoller False ?w' i \<in> set (mg_live s5)"
      "cancelPoller (\<lambda>_. True) (startPoller False ?w i) \<in> set (mg_live s5)"
  proof -
    obtain ids where ids: "set ids = {j. ?w' j \<noteq> None \<and> ?w j \<noteq> ?w' j}"
      and st: "mstep ?s4 (?s4\<lparr>mg_running := ?w', mg_pending := [],
        mg_live := map (cancelPoller (\<lambda>j. ?w j \<noteq> None \<and> ?w j \<noteq> ?w' j)) (mg_live s2) @ map (startPoller False ?w') ids\<rparr>)"
      using install_step [of ?s4 "[]" ?w' "[]", OF _ finite_wanted] s2(3,4) by auto
    have "cancelPoller (\<lambda>j. ?w j \<noteq> None \<and> ?w j \<noteq> ?w' j) (startPoller False ?w i) =
        cancelPoller (\<lambda>_. True) (startPoller False ?w i)"
      using assms by (simp add: cancelPoller_def startPoller_def)
    with s2(5) have "cancelPoller (\<lambda>_. True) (startPoller False ?w i) \<in>
        set (map (cancelPoller (\<lambda>j. ?w j \<noteq> None \<and> ?w j \<noteq> ?w' j)) (mg_live s2))" by force
    moreover have "i \<in> set ids" using ids assms by simp
    ultimately show ?thesis using that [OF st] by simp
  qed
  have "msteps (newManager db) s5"
    by (rule rtranclp.rtrancl_into_rtrancl [OF rtranclp.rtrancl_into_rtrancl [OF msteps3 [OF 1 s2(1) 3] 4] s5(1)])
  with s5(2,3) assms(1,2) show ?thesis by (auto simp: cancelPoller_def startPoller_def)
qed


text \<open>A serial line with one device, and the same line with another timeout.\<close>

definition lineDb :: "int \<Rightarrow> confdb" where
  "lineDb timeout =
     \<lparr>cf_connection = [(1, \<lparr>cnr_name = ''bus'', cnr_protocol = ''RTU'', cnr_interface = Some ''/dev/ttyS0'', cnr_ip_address = None,
        cnr_port = None, cnr_timeout_ms = timeout, cnr_retry = 0, cnr_enabled = 1, cnr_next_device_delay_ms = 0, cnr_baud_rate = 9600,
        cnr_data_bits = 8, cnr_parity = ''N'', cnr_stop_bits = 1\<rparr>)],
      cf_device = [(1, \<lparr>dvr_name = ''meter'', dvr_connection_id = 1, dvr_slave_id = Some 7, dvr_enabled = 1\<rparr>)],
      cf_datapoint = [], cf_connection_seq = 1, cf_datapoint_seq = 0\<rparr>"

lemma lineDb_wanted: "\<exists>rc. wantedConnections (lineDb t) 1 = Some rc \<and> cn_TimeoutMs (rc_conn rc) = t"
  by (simp add: wantedConnections_def dvListEnabled_def lineDb_def addDevice_def cnListEnabled_def scanConnection_def
      scanDevice_def Let_def)


lemma distinct_conn_filter:
  "distinct (map pl_conn ps) \<Longrightarrow> q \<in> set ps \<Longrightarrow> filter (\<lambda>p. pl_conn p = pl_conn q) ps = [q]"
  by (induction ps) (auto simp: filter_empty_conv image_iff)


theorem one_active_poller_per_connection_witness:
  "\<exists>s p q. msteps (newManager (lineDb 500)) s \<and> p \<in> set (mg_live s) \<and> q \<in> set (mg_live s) \<and>
     pl_conn p = 1 \<and> pl_conn q = 1 \<and> pl_cancelled p \<and> q \<in> set (activeOn s) \<and>
     mg_running s 1 = Some (pl_work q) \<and> length (filter (\<lambda>p. pl_conn p = 1) (activeOn s)) = 1"
proof -
  obtain rc rc' where rc: "wantedConnections (lineDb 500) 1 = Some rc" "wantedConnections (lineDb 900) 1 = Some rc'" "rc \<noteq> rc'"
    using lineDb_wanted [of 500] lineDb_wanted [of 900] by fastforce
  obtain s p q where s: "msteps (newManager (lineDb 500)) s" and pq: "p \<in> set (mg_live s)" "q \<in> set (mg_live s)"
      "p = \<lparr>pl_conn = 1, pl_work = rc, pl_cancelled = True\<rparr>" "q = \<lparr>pl_conn = 1, pl_work = rc', pl_cancelled = False\<rparr>"
    using restart_overlaps [OF rc] by blast
  then have q: "q \<in> set (activeOn s)" by (simp add: activeOn_def)
  note inv = one_active_poller_per_connection [OF s]
  have "filter (\<lambda>p. pl_conn p = 1) (activeOn s) = [q]"
    using inv q pq(4) distinct_conn_filter [of "activeOn s" q] by simp
  then show ?thesis using s pq q inv by (intro exI [of _ s] exI [of _ p] exI [of _ q]) auto
qed

end
