(* ===== verification/Spec2Isabelle.thy ===== *)
theory Spec2Isabelle
  imports Delivery Pipeline QueueConc Capacity Mqtt NetConfig TimeService Api ModbusSim ModbusClients Storage Logger StatusApi
    Influx ServerAdmin GatewayMain Calendar ManagerConc
begin

text \<open>
  A verification library for the nxIIoT gateway, the Go program under \<^verbatim>\<open>src/\<close>, and for the demo
  server it delivers to.

  \<^bold>\<open>The program.\<close> The gateway polls Modbus devices, keeps every reading in a queue on disk, and forwards
  the queue to a server over HTTP or MQTT, deleting only what the server has acknowledged. Its parts
  and how they interact:

  \<^item> \<^verbatim>\<open>internal/acquisition\<close> polls: the manager starts one poller per connection from the configuration
    database, a poller plans block reads, reads with retries (\<^verbatim>\<open>internal/modbus\<close>), decodes and emits
    one reading per data point, good or bad.
  \<^item> the callback in \<^verbatim>\<open>cmd/gateway/main.go\<close> updates the caches of latest values and device status and
    hands each reading to \<^verbatim>\<open>internal/processor\<close>, which appends it to \<^verbatim>\<open>internal/queue\<close>.
  \<^item> the queue buffers readings in memory, flushes them as compressed chunks into an SQLite file, gives
    them out oldest first, deletes them on acknowledgement, and evicts the oldest when a limit is reached.
  \<^item> \<^verbatim>\<open>internal/forwarder\<close> reads a batch, sends it through an adapter (HTTP or MQTT), and acknowledges it in
    the queue when the server did; otherwise it waits and tries again.
  \<^item> \<^verbatim>\<open>cmd/server-demo\<close> receives messages, removes duplicates, measures gaps and counts, writes what is new
    to InfluxDB before it acknowledges, and has a page for its status and settings.
  \<^item> \<^verbatim>\<open>internal/connection\<close>, \<^verbatim>\<open>device\<close> and \<^verbatim>\<open>datapoint\<close> are the configuration database;
    \<^verbatim>\<open>internal/config\<close> the configuration file; \<^verbatim>\<open>internal/api\<close> edits both;
    \<^verbatim>\<open>internal/netconfig\<close> changes the host's address, \<^verbatim>\<open>internal/time\<close> keeps its clock.
  \<^item> \<^verbatim>\<open>cmd/gateway/main.go\<close> opens and migrates the database (\<^verbatim>\<open>internal/storage\<close>), starts the parts and
    stops them; \<^verbatim>\<open>internal/logger\<close> keeps the last log records for the log page; \<^verbatim>\<open>internal/system\<close>
    reports on the host; \<^verbatim>\<open>cmd/modbus-sim\<close> is a device to test against.

  \<^bold>\<open>The theories.\<close>

  \<^item> \<^verbatim>\<open>Prelude\<close>: instants, bytes and strings, paths, lists of bounded length; the collections of rewrite
    rules.
  \<^item> \<^verbatim>\<open>ChunkCodec\<close> (\<^verbatim>\<open>queue/codec.go\<close>): varints, records, the chunk format. DEFLATE is a parameter, stated
    by the locale \<open>flate\<close> and interpreted on stored blocks. Encoding and decoding are inverse up to
    millisecond truncation.
  \<^item> \<^verbatim>\<open>GoFloat\<close>: binary64 and binary32 on words, with Go's rounding, comparison and conversion.
  \<^item> \<^verbatim>\<open>Modbus\<close> (\<^verbatim>\<open>internal/modbus\<close>): decoding, scaling, error classification, retries. Decoding is exact.
  \<^item> \<^verbatim>\<open>ConfigDb\<close>: the three repositories on tables with keys, references and SQLite's ids; the locale
    \<open>repository\<close> is their common contract, interpreted three times.
  \<^item> \<^verbatim>\<open>Acquisition\<close>: the block plan on 16-bit addresses, a pass over a device, the polling loop with its
    cancellation points, the manager's reload, the in-memory stores. The plan covers each data point
    of a known type once, a merged read gives what a single read gives, a round reports what was
    planned, a reload leaves exactly the wanted pollers running.
  \<^item> \<^verbatim>\<open>ManagerConc\<close>: the manager with its goroutines as a step relation, reloads cut at the mutex: at most one
    poller of a connection is not cancelled; but a cancelled one may still run beside it, and of two
    reloads the older may be installed last.
  \<^item> \<^verbatim>\<open>QueueStore\<close>, \<^verbatim>\<open>Capacity\<close>, \<^verbatim>\<open>QueueSpec\<close>, \<^verbatim>\<open>QueueConc\<close> (\<^verbatim>\<open>queue/store.go\<close>, \<^verbatim>\<open>capacity.go\<close>): the operations of
    the store, each database call able to fail; eviction and compaction; the refinement to a
    first-in first-out list and the locale \<open>fifo_source\<close>; the operations cut at the points where the
    mutex is released, as a step relation over which the counters and the sequence numbers are
    invariant.
  \<^item> \<^verbatim>\<open>Forwarder\<close>, \<^verbatim>\<open>Mqtt\<close>, \<^verbatim>\<open>ServerDemo\<close>, \<^verbatim>\<open>Delivery\<close>: messages, dispatch, the forwarding loop, the retry
    schedule; the two adapters, behind the locale \<open>acking_adapter\<close>; the server; and, in the locale
    \<open>delivery\<close> that joins \<open>fifo_source\<close> and \<open>acking_adapter\<close>, end-to-end delivery: what has left the
    queue is a prefix of what was pending, and the server has it. It is interpreted on the queue with
    each adapter.
  \<^item> \<^verbatim>\<open>Pipeline\<close>: processor and callbacks: every reading reaches the queue unchanged.
  \<^item> \<^verbatim>\<open>Config\<close>: the sections of the file, defaults, environment expansion, saving, the choice of the
    transport, the settings page. Saved settings survive the restart, if they contain no dollar sign.
  \<^item> \<^verbatim>\<open>NetConfig\<close>: the controller of the network interface over \<^verbatim>\<open>nmcli\<close>, the confirm-or-revert service as a
    step relation and as sequential operations, its handlers.
  \<^item> \<^verbatim>\<open>TimeService\<close>: one NTP exchange with 64-bit durations, the synchronisation and its quality.
  \<^item> \<^verbatim>\<open>Calendar\<close> (\<^verbatim>\<open>rtc_linux.go\<close>, \<^verbatim>\<open>clock_linux.go\<close> and their stand-ins): day numbers and dates are inverse to
    each other and in the same order; from this, the hardware clock gives back what was written, and
    the timestamps of the wire format sort as strings the way their instants do.
  \<^item> \<^verbatim>\<open>ModbusClients\<close> (\<^verbatim>\<open>modbus/tcp.go\<close>, \<^verbatim>\<open>rtu.go\<close>): the two clients over the goburrow library; every request of
    a pass addresses its own device, and an open connection is never connected again.
  \<^item> \<^verbatim>\<open>ModbusSim\<close> (\<^verbatim>\<open>cmd/modbus-sim\<close>): the session loop as a partial function whose return is proved, and a
    value that travels from its registers through a request to a decoded reading.
  \<^item> \<^verbatim>\<open>Storage\<close>: the migration runner with every step able to fail; \<^verbatim>\<open>Logger\<close>: the ring buffer of the log;
    \<^verbatim>\<open>GatewayMain\<close>: the order of the start, its errors, and the two ways the process ends.
  \<^item> \<^verbatim>\<open>Api\<close>: the handlers for connections, devices and data points, export and import. \<^verbatim>\<open>StatusApi\<close>: the
    panels, the log page, the tests on request, which agree with the poller as long as they need no retry,
    and the host's report.
  \<^item> \<^verbatim>\<open>Influx\<close>, \<^verbatim>\<open>ServerAdmin\<close> (\<^verbatim>\<open>server-demo/influx.go\<close>, \<^verbatim>\<open>server.go\<close>, \<^verbatim>\<open>settings.go\<close>, \<^verbatim>\<open>mqtt.go\<close>, \<^verbatim>\<open>main.go\<close>): the
    line protocol, read back by a reference reader; the bucket, over any exchange with InfluxDB; the status
    page, the settings request with each of its errors, the MQTT consumer and the start of the server.
  \<^item> this theory: the path of one register through poller, callback, queue, codec and forwarder.

  \<^bold>\<open>Conventions.\<close> A Go struct is a record whose fields keep the source's names after a short prefix. An
  instant is an integer number of nanoseconds since 1970, a duration an integer, wrapped to 64 bits
  where the code multiplies or adds; identifiers, registers and sequence numbers that reach the disk
  format or the wire are words of their width. Errors are values. What lies outside the source (SQLite,
  the network, paho, \<^verbatim>\<open>nmcli\<close>, the clock, YAML) is an argument: a Boolean that says whether a call
  succeeds, a function that gives its answer, or a list of events in any order; a property that needs
  more of it states it as a hypothesis, and its witness gives a concrete instance.

  \<^bold>\<open>Bounds.\<close> There is no fuel in the loops whose end the code guarantees (the retry loop, the block
  plan, eviction, expansion): they recurse on a number or a list that shrinks, or have a termination
  proof. Loops that run until the process stops (the forwarding loop, the pollers, the flusher, the time
  service) are functions of the list of their iterations, and their properties hold for every list.
  The session loop of the simulator is a \<open>partial_function\<close>, and that it returns on every finite stream
  is a theorem; the reference reader of the line protocol has as fuel the length of the line, of which
  each step consumes a character.
  \<^verbatim>\<open>decimalNat\<close> writes up to 20 digits, enough for 64 bits; the events of an MQTT send are a finite list,
  and when it ends the timer fires, as both waits of the code are bounded.

  \<^bold>\<open>Not modelled.\<close> Text that only leaves the program: JSON encodings, log lines, the web page, usage of
  flags; HTTP routing and listeners; the tickers and goroutines that only call an operation modelled
  here again and again; the values of the development seed beyond its columns. Third-party code (SQLite,
  the operating system's clocks and devices, goburrow, paho, gopsutil, YAML, InfluxDB) is a parameter.
  Strings are bytes, and white space and letter case are those of ASCII. JSON decoding is taken at the
  level of the decoded object. The connection pool of \<^verbatim>\<open>database/sql\<close> is one connection: the migration
  runner's \<^verbatim>\<open>PRAGMA foreign_keys\<close> is a single flag. Fused multiply-add, which Go may use for scaling on
  some processors, is not modelled: scaling rounds twice.
\<close>

section \<open>From a register to the server\<close>

text \<open>A single-precision register that is not a number decodes to a good reading without a finite value.\<close>

lemma nonfinite_register_reading:
  assumes "dp_DataType dp = ''FLOAT32''"
    and "unat (dp_RegisterAddress dp - start) * 2 + 4 \<le> length raw"
    and "reorder (take 4 (drop (unat (dp_RegisterAddress dp - start) * 2) raw)) (dp_ByteOrder dp) = Inr ordered"
    and "\<not> f32_finite (ucast (be ordered))"
  shows "\<exists>v. aq_Value (decodeAndEmit d dp raw start t) = Some v \<and> \<not> f64_finite v \<and>
    aq_Quality (decodeAndEmit d dp raw start t) = Good"
  using assms applyScale_not_finite [OF f64_of_f32_not_finite [OF assms(4)]]
  by (simp add: decodeAndEmit_def decode_def byteWidth_def Let_def)

lemma decodeAndEmit_sel:
  "aq_DeviceID (decodeAndEmit d dp raw start t) = dv_ID d" "aq_DatapointID (decodeAndEmit d dp raw start t) = dp_ID dp"
  "aq_EventTimestamp (decodeAndEmit d dp raw start t) = t"
  by (auto simp: decodeAndEmit_def badReading_def Let_def split: sum.splits)

text \<open>A reading handed to an idle gateway is, after the next flush, the only chunk of its queue.\<close>

lemma reading_becomes_chunk:
  assumes "\<And>xs. inflate (deflate xs) = Some xs" "chunkable [queuedAs r]"
    and "st_buf (gt_queue g) = []" "st_unflushed (gt_queue g) = []" "db_chunk (st_db (gt_queue g)) = []"
      "db_sequence (st_db (gt_queue g)) = 0"
  shows "\<exists>q. chunksOf inflate (snd (flush deflate True (gt_queue (onReading False r g)))) =
    [\<lparr>ck_Seq = q, ck_Readings = [truncReading (queuedAs r)]\<rparr>]"
proof -
  have buf: "st_buf (gt_queue (onReading False r g)) = [queuedAs r]" "st_unflushed (gt_queue (onReading False r g)) = []"
    "db_chunk (st_db (gt_queue (onReading False r g))) = []" "db_sequence (st_db (gt_queue (onReading False r g))) = 0"
    using assms(3-6) by (simp_all add: onReading_queue append_reading_def)
  have "flate deflate inflate" by unfold_locales (rule assms(1))
  from flate.decode_encode [OF this assms(2)] obtain blob where b: "encodeChunk deflate [queuedAs r] = Inr blob"
    "decodeChunk inflate blob = Inr [truncReading (queuedAs r)]" by auto
  from flush_single [OF buf b(1)] b(2) show ?thesis by (auto simp: chunksOf_def)
qed

text \<open>
  C28: one register can stop the gateway's deliveries. Take an idle gateway and a single-precision data
  point whose registers hold a NaN or an infinity. The poller emits it as a good reading, the callback
  queues it, the flusher writes it; and from then on the forwarding loop over HTTP, for any number of
  iterations, at any times and with any outcome of the database calls, sends nothing and removes
  nothing: \<^verbatim>\<open>encoding/json\<close> refuses the oldest chunk each time.
\<close>

theorem nonfinite_register_stops_delivery:
  assumes deflate: "\<And>xs. inflate (deflate xs) = Some xs"
    and point: "dp_DataType dp = ''FLOAT32''" "unat (dp_RegisterAddress dp - start) * 2 + 4 \<le> length raw"
      "reorder (take 4 (drop (unat (dp_RegisterAddress dp - start) * 2) raw)) (dp_ByteOrder dp) = Inr ordered"
      "\<not> f32_finite (ucast (be ordered))"
    and reading: "r = decodeAndEmit d dp raw start t" "chunkable [queuedAs r]"
    and idle: "storeInv (gt_queue g)" "st_buf (gt_queue g) = []" "st_unflushed (gt_queue g) = []"
      "db_chunk (st_db (gt_queue g)) = []" "db_sequence (st_db (gt_queue g)) = 0"
    and src: "f_src f = snd (flush deflate True (gt_queue (onReading False r g)))"
    and loop: "runLoop st_streamID (sourceRead inflate) sourceAck (httpSend post) cfg es (failures, f) = (failures', f')"
  shows "aq_Quality r = Good \<and> length (chunksOf inflate (f_src f')) = 1 \<and> f_world f' = f_world f"
proof -
  obtain v where v: "aq_Value r = Some v" "\<not> f64_finite v" and good: "aq_Quality r = Good"
    using nonfinite_register_reading [OF point] unfolding reading(1) by blast
  have inv: "storeInv (f_src f)"
    using idle(1) by (simp add: src flush_ok append_reading_ok onReading_queue)
  obtain q where c: "chunksOf inflate (f_src f) = [\<lparr>ck_Seq = q, ck_Readings = [truncReading (queuedAs r)]\<rparr>]"
    using reading_becomes_chunk [where inflate = inflate and deflate = deflate, OF deflate reading(2) idle(2-5)] unfolding src by blast
  have "rd_Value (truncReading (queuedAs r)) = Some v" by (simp add: truncReading_def queuedAs_def v(1))
  note blocked = runLoop_blocked [OF inv c httpSend_unmarshalable [OF _ this v(2)] loop]
  then show ?thesis using good c by simp
qed

definition nanPoint :: dataPoint where
  "nanPoint = (point 2 4 10 ''FLOAT32'')\<lparr>dp_ByteOrder := ''ABCD''\<rparr>"

definition nanBytes :: "byte list" where "nanBytes = [0x7F, 0xC0, 0, 0]"

definition nanRegister :: acqReading where
  "nanRegister = decodeAndEmit sampleDevice nanPoint nanBytes 10 1700000000000000000"

definition gatewayForwarder :: "(store, nat) forwarder" where
  "gatewayForwarder = sampleForwarder\<lparr>f_src := snd (flush storedDeflate True (gt_queue (onReading False nanRegister emptyGateway)))\<rparr>"

lemma nanBytes_eval:
  "reorder (take 4 (drop (unat (dp_RegisterAddress nanPoint - 10) * 2) nanBytes)) (dp_ByteOrder nanPoint) = Inr nanBytes"
  "\<not> f32_finite (ucast (be nanBytes))"
  by (simp_all add: nanPoint_def point_def nanBytes_def reorder_def orderPos_def be_def f32_finite_def f32_exp_def f32_mag_def
      push_bit_eq_mult)

theorem nonfinite_register_stops_delivery_witness:
  "\<forall>es. f_world (snd (runLoop st_streamID (sourceRead storedInflate) sourceAck
       (httpSend (\<lambda>m w. (Inr 200, w + 1))) sampleConfig es (0, gatewayForwarder))) = 0"
proof
  fix es
  obtain n f' where r: "runLoop st_streamID (sourceRead storedInflate) sourceAck
       (httpSend (\<lambda>m w. (Inr 200, w + 1))) sampleConfig es (0, gatewayForwarder) = (n, f')" by fastforce
  have point: "dp_DataType nanPoint = ''FLOAT32''" "unat (dp_RegisterAddress nanPoint - 10) * 2 + 4 \<le> length nanBytes"
    by (simp_all add: nanPoint_def point_def nanBytes_def)
  have chunk: "chunkable [queuedAs nanRegister]"
    using nonfinite_register_reading [OF point nanBytes_eval, of sampleDevice 1700000000000000000]
      decodeAndEmit_sel [of sampleDevice nanPoint nanBytes 10 1700000000000000000]
    by (auto simp: nanRegister_def chunkable_def idsNonneg_def queuedAs_def milliInRange_def nanosPerMilli_def recordBound_def
        qualityString_def sampleDevice_def nanPoint_def point_def)
  have idle: "storeInv (gt_queue emptyGateway)" "st_buf (gt_queue emptyGateway) = []"
    "st_unflushed (gt_queue emptyGateway) = []" "db_chunk (st_db (gt_queue emptyGateway)) = []"
    "db_sequence (st_db (gt_queue emptyGateway)) = 0"
    by (simp add: emptyGateway_def storeInv_emptyStore) (simp_all add: emptyGateway_def emptyStore_def freshDb_def)
  have src: "f_src gatewayForwarder = snd (flush storedDeflate True (gt_queue (onReading False nanRegister emptyGateway)))"
    by (simp add: gatewayForwarder_def)
  have "f_world f' = f_world gatewayForwarder"
    using nonfinite_register_stops_delivery [where inflate = storedInflate and deflate = storedDeflate,
        OF stored.inflate_deflate point nanBytes_eval nanRegister_def chunk idle src r] by blast
  then show "f_world (snd (runLoop st_streamID (sourceRead storedInflate) sourceAck
       (httpSend (\<lambda>m w. (Inr 200, w + 1))) sampleConfig es (0, gatewayForwarder))) = 0"
    unfolding r by (simp add: gatewayForwarder_def sampleForwarder_def)
qed

end
